(* ===== verification/Go_Prelude.thy ===== *)
theory Go_Prelude
  imports Main "HOL-Library.Word" "HOL-Library.Sublist" "HOL-Library.List_Lexorder"
    "HOL-Library.Char_ord"
begin

text \<open>
  What every component of the model shares: Go's byte slices and strings and the standard-library
  functions the sources call on them (\<^verbatim>\<open>strings.Split\<close>, \<^verbatim>\<open>strings.TrimPrefix\<close>,
  \<^verbatim>\<open>strings.Compare\<close>, \<^verbatim>\<open>binary.PutUvarint\<close>, \<^verbatim>\<open>binary.Uvarint\<close>,
  \<^verbatim>\<open>binary.BigEndian\<close>), the error values of the modelled packages, and a state-and-error
  action type in which every early return of the source is a branch.
\<close>

unbundle bit_operations_syntax

named_theorems go_simps \<open>evaluation rules of the Go-level primitives\<close>

type_synonym byte = "8 word"
type_synonym bytes = "byte list"
type_synonym u64 = "64 word"
type_synonym u32 = "32 word"

section \<open>Errors and actions\<close>

text \<open>
  Error values. \<open>Wrapped\<close> stands for a source error that wraps another one
  (\<^verbatim>\<open>errors.Wrap\<close>), so that \<^verbatim>\<open>errors.Is\<close> can look through it; \<open>GoPanic\<close> is a run-time
  panic (index out of range, nil dereference).
\<close>

datatype error =
    GoPanic
  | ErrNotFound
  | ErrClosed
  | ErrTxnDiscarded
  | ErrReadOnlyTxn
  | ErrTxnConflict
  | ErrEmptyKey
  | ErrInvalidKey
  | ErrFailedToGetFieldIdOfKey
  | ErrEncodingPriority
  | ErrDecodingPriority
  | ErrMismatchedMergeType
  | ErrDecodingHeight
  | ErrExternal string
  | ErrNamed string
  | Wrapped string error

fun errors_Is :: "error \<Rightarrow> error \<Rightarrow> bool" where
  "errors_Is (Wrapped m e) t = (Wrapped m e = t \<or> errors_Is e t)"
| "errors_Is e t = (e = t)"

text \<open>An action reads and writes a state of type \<open>'s\<close> and returns a value or an error.\<close>

type_synonym ('s, 'a) act = "'s \<Rightarrow> (error + 'a) \<times> 's"

definition ret :: "'a \<Rightarrow> ('s, 'a) act" where
  "ret a s = (Inr a, s)"

definition fail :: "error \<Rightarrow> ('s, 'a) act" where
  "fail e s = (Inl e, s)"

definition abind :: "('s, 'a) act \<Rightarrow> ('a \<Rightarrow> ('s, 'b) act) \<Rightarrow> ('s, 'b) act" where
  "abind m f s = (case m s of (Inl e, s') \<Rightarrow> (Inl e, s') | (Inr a, s') \<Rightarrow> f a s')"

text \<open>The error of an action as a value: Go code that inspects \<open>err\<close> before it returns.\<close>

definition atry :: "('s, 'a) act \<Rightarrow> (error \<Rightarrow> ('s, 'b) act) \<Rightarrow> ('a \<Rightarrow> ('s, 'b) act) \<Rightarrow> ('s, 'b) act" where
  "atry m h f s = (case m s of (Inl e, s') \<Rightarrow> h e s' | (Inr a, s') \<Rightarrow> f a s')"

lemma ret_apply [simp]: "ret a s = (Inr a, s)"
  by (simp add: ret_def)

lemma fail_apply [simp]: "fail e s = (Inl e, s)"
  by (simp add: fail_def)

lemma abind_Inr: "m s = (Inr a, s') \<Longrightarrow> abind m f s = f a s'"
  by (simp add: abind_def)

lemma abind_Inl: "m s = (Inl e, s') \<Longrightarrow> abind m f s = (Inl e, s')"
  by (simp add: abind_def)

lemma abind_ret [simp]: "abind (ret a) f = f a"
  by (rule ext) (simp add: abind_def)

lemma abind_fail [simp]: "abind (fail e) f = fail e"
  by (rule ext) (simp add: abind_def)

lemma atry_Inr: "m s = (Inr a, s') \<Longrightarrow> atry m h f s = f a s'"
  by (simp add: atry_def)

lemma atry_Inl: "m s = (Inl e, s') \<Longrightarrow> atry m h f s = h e s'"
  by (simp add: atry_def)

lemmas act_step = abind_Inr abind_Inl atry_Inr atry_Inl

lemma abind_InrE:
  assumes "abind m f s = (Inr b, t)"
  obtains a s' where "m s = (Inr a, s')" and "f a s' = (Inr b, t)"
  using assms by (auto simp: abind_def split: prod.splits sum.splits)

section \<open>Strings\<close>

text \<open>
  A Go string is a sequence of bytes: \<open>string\<close> is \<open>char list\<close> and a \<open>char\<close> is a byte. The order
  \<open><\<close> on \<open>string\<close> is the lexicographic order on bytes, as Go's operators on strings are.
\<close>

definition byte_of_char :: "char \<Rightarrow> byte" where
  "byte_of_char c = of_nat (of_char c)"

definition char_of_byte :: "byte \<Rightarrow> char" where
  "char_of_byte w = char_of (unat w)"

definition to_bytes :: "string \<Rightarrow> bytes" where
  "to_bytes s = map byte_of_char s"

definition of_bytes :: "bytes \<Rightarrow> string" where
  "of_bytes b = map char_of_byte b"

lemma unat_byte_of_char [simp]: "unat (byte_of_char c) = of_char c"
  by (simp add: byte_of_char_def unat_of_nat)

lemma char_of_byte_of_char [simp]: "char_of_byte (byte_of_char c) = c"
  by (simp add: char_of_byte_def)

lemma byte_of_char_of_byte [simp]: "byte_of_char (char_of_byte w) = w"
proof -
  have "unat w < 256" using unsigned_less [of w] by simp
  then show ?thesis by (simp add: byte_of_char_def char_of_byte_def)
qed

lemma of_bytes_to_bytes [simp]: "of_bytes (to_bytes s) = s"
  by (simp add: of_bytes_def to_bytes_def comp_def)

lemma to_bytes_of_bytes [simp]: "to_bytes (of_bytes b) = b"
  by (simp add: of_bytes_def to_bytes_def comp_def)

lemma to_bytes_eq_iff [simp]: "to_bytes s = to_bytes t \<longleftrightarrow> s = t"
  by (metis of_bytes_to_bytes)

text \<open>\<open>strings.Split(s, sep)\<close> for a one-byte separator.\<close>

fun split_on :: "char \<Rightarrow> string \<Rightarrow> string list" where
  "split_on c [] = [[]]"
| "split_on c (x # xs) =
     (if x = c then [] # split_on c xs
      else (case split_on c xs of [] \<Rightarrow> [[x]] | y # ys \<Rightarrow> (x # y) # ys))"

definition HasPrefix :: "'a list \<Rightarrow> 'a list \<Rightarrow> bool" where
  "HasPrefix s p = (take (length p) s = p)"

definition HasSuffix :: "'a list \<Rightarrow> 'a list \<Rightarrow> bool" where
  "HasSuffix s p = (length p \<le> length s \<and> drop (length s - length p) s = p)"

definition TrimPrefix :: "'a list \<Rightarrow> 'a list \<Rightarrow> 'a list" where
  "TrimPrefix s p = (if HasPrefix s p then drop (length p) s else s)"

definition TrimSuffix :: "'a list \<Rightarrow> 'a list \<Rightarrow> 'a list" where
  "TrimSuffix s p = (if HasSuffix s p then take (length s - length p) s else s)"

lemma HasPrefix_iff: "HasPrefix s p \<longleftrightarrow> (\<exists>r. s = p @ r)"
  by (metis HasPrefix_def append_eq_conv_conj append_take_drop_id)

lemma HasPrefix_append [simp]: "HasPrefix (p @ r) p"
  by (simp add: HasPrefix_def)

lemma HasSuffix_iff: "HasSuffix s p \<longleftrightarrow> (\<exists>r. s = r @ p)"
  by (metis HasSuffix_def append_eq_conv_conj append_take_drop_id diff_add_inverse2
      length_append le_add2)

lemma split_on_ne [simp]: "split_on c s \<noteq> []"
  by (induction s) (auto split: list.splits)

lemma split_on_no_sep [simp]: "c \<notin> set s \<Longrightarrow> split_on c s = [s]"
  by (induction s) auto

lemma split_on_append_sep [simp]: "c \<notin> set s \<Longrightarrow> split_on c (s @ c # t) = s # split_on c t"
  by (induction s) auto

text \<open>\<open>strings.Compare\<close> and \<open>bytes.Compare\<close>.\<close>

definition go_compare :: "'a::linorder list \<Rightarrow> 'a list \<Rightarrow> int" where
  "go_compare a b = (if a = b then 0 else if a < b then - 1 else 1)"

lemma go_compare_nonneg: "0 \<le> go_compare a b \<longleftrightarrow> b \<le> a"
  by (auto simp: go_compare_def)

lemma go_compare_neg: "go_compare a b < 0 \<longleftrightarrow> a < b"
  by (auto simp: go_compare_def)

section \<open>Variable-length and big-endian integers\<close>

text \<open>
  \<open>binary.PutUvarint\<close>: seven bits per byte, low bits first, the top bit set on every byte but the
  last. The model returns the written prefix \<open>buf[0:n]\<close>.
\<close>

lemma unat_drop_bit_7: "unat (drop_bit 7 (x :: u64)) = unat x div 128"
  by (simp add: drop_bit_eq_div unat_div)

function put_uvarint :: "u64 \<Rightarrow> bytes" where
  "put_uvarint x =
     (if 0x80 \<le> x then (ucast x OR 0x80) # put_uvarint (drop_bit 7 x) else [ucast x])"
  by pat_completeness auto
termination
  by (relation "measure unat") (auto simp: unat_drop_bit_7 word_le_nat_alt)

declare put_uvarint.simps [simp del]

text \<open>
  \<open>binary.Uvarint\<close>: the value and the number of bytes read; 0 bytes when the buffer is too small
  and a negative number on overflow.
\<close>

definition MaxVarintLen64 :: nat where
  "MaxVarintLen64 = 10"

fun uvarint_loop :: "nat \<Rightarrow> u64 \<Rightarrow> nat \<Rightarrow> bytes \<Rightarrow> u64 \<times> int" where
  "uvarint_loop i x s [] = (0, 0)"
| "uvarint_loop i x s (b # buf) =
     (if i = MaxVarintLen64 then (0, - (int i + 1))
      else if b < 0x80 then
        (if i = MaxVarintLen64 - 1 \<and> 1 < b then (0, - (int i + 1))
         else (x OR push_bit s (ucast b), int i + 1))
      else uvarint_loop (Suc i) (x OR push_bit s (ucast (b AND 0x7f))) (s + 7) buf)"

definition uvarint :: "bytes \<Rightarrow> u64 \<times> int" where
  "uvarint buf = uvarint_loop 0 0 0 buf"

text \<open>Reading back what was written, whatever follows in the buffer.\<close>

lemma ucast_low7: "ucast ((ucast (y :: u64) OR 0x80 :: byte) AND 0x7f) = take_bit 7 y"
proof (rule bit_word_eqI)
  fix n assume "n < LENGTH(64)"
  have "bit (0x7f :: byte) n \<longleftrightarrow> n < 7"
    using bit_mask_iff [of 7 n, where ?'a = byte] by (auto simp: mask_eq_exp_minus_1)
  moreover have "bit (0x80 :: byte) n \<longleftrightarrow> n = 7"
    using bit_exp_iff [of 7 n, where ?'a = byte] by auto
  ultimately show "bit (ucast ((ucast y OR 0x80 :: byte) AND 0x7f) :: u64) n \<longleftrightarrow> bit (take_bit 7 y) n"
    by (auto simp: bit_simps)
qed

lemma push_bit_low_high:
  "push_bit s (take_bit 7 (y :: u64)) OR push_bit (s + 7) (drop_bit 7 y) = push_bit s y"
proof (rule bit_word_eqI)
  fix n assume "n < LENGTH(64)"
  have "7 + (n - (s + 7)) = n - s" if "\<not> n - s < 7" using that by simp
  then show "bit (push_bit s (take_bit 7 y) OR push_bit (s + 7) (drop_bit 7 y)) n \<longleftrightarrow> bit (push_bit s y) n"
    by (cases "n - s < 7") (auto simp: bit_simps)
qed

lemma continuation_bit: "\<not> ((ucast (y :: u64) OR 0x80 :: byte) < 0x80)"
  using le_word_or2 [of "0x80 :: byte" "ucast y"]
  by (simp add: not_less or.commute)

lemma ucast_small: "\<not> 0x80 \<le> (y :: u64) \<Longrightarrow> ucast (ucast y :: byte) = y"
  by (simp add: not_le word_unat_eq_iff unsigned_ucast_eq take_bit_eq_mod word_less_nat_alt unat_mod)
lemma ucast_small_less: "\<not> 0x80 \<le> (y :: u64) \<Longrightarrow> (ucast y :: byte) < 0x80"
  by (simp add: not_le word_less_nat_alt unsigned_ucast_eq take_bit_eq_mod unat_mod)

lemma uvarint_loop_put:
  assumes "i \<le> 9" and "unat y < 2 ^ (64 - 7 * i)"
  shows "uvarint_loop i acc (7 * i) (put_uvarint y @ rest) =
    (acc OR push_bit (7 * i) y, int i + int (length (put_uvarint y)))"
  using assms
proof (induction y arbitrary: i acc rule: put_uvarint.induct)
  case (1 y)
  show ?case
  proof (cases "0x80 \<le> y")
    case True
    then have big: "128 \<le> unat y" by (simp add: word_le_nat_alt)
    have "i \<le> 8" 
    proof (rule ccontr)
      assume "\<not> i \<le> 8" with "1.prems" have "i = 9" by simp
      with "1.prems" big show False by simp
    qed
    have "64 - 7 * i = (64 - 7 * Suc i) + 7"
      using \<open>i \<le> 8\<close> by simp
    then have "(2::nat) ^ (64 - 7 * i) = 2 ^ (64 - 7 * Suc i) * 2 ^ 7"
      by (simp only: power_add)
    with "1.prems" have "unat (drop_bit 7 y) < 2 ^ (64 - 7 * Suc i)"
      by (simp add: unat_drop_bit_7 less_mult_imp_div_less)
    from "1.IH" [OF True _ this, of "acc OR push_bit (7 * i) (take_bit 7 y)"] \<open>i \<le> 8\<close>
    show ?thesis 
      using True push_bit_low_high [of "7 * i" y]
      by (simp add: put_uvarint.simps [of y] MaxVarintLen64_def continuation_bit ucast_low7 or.assoc add.commute)
  next
    case False
    then have "i = 9 \<Longrightarrow> \<not> 1 < (ucast y :: byte)"
      using "1.prems" by (simp add: word_less_nat_alt unsigned_ucast_eq take_bit_eq_mod unat_mod)
    with False "1.prems" show ?thesis
      by (simp add: put_uvarint.simps [of y] MaxVarintLen64_def ucast_small ucast_small_less)
  qed
qed

lemma uvarint_put_uvarint: "uvarint (put_uvarint x @ rest) = (x, int (length (put_uvarint x)))"
  using uvarint_loop_put [of 0 x 0 rest] unsigned_less [of x]
  by (simp add: uvarint_def)

lemma put_uvarint_ne [simp]: "put_uvarint x \<noteq> []"
  by (subst put_uvarint.simps) simp

text \<open>\<open>binary.BigEndian.PutUint64\<close> and \<open>binary.BigEndian.Uint64\<close>; the latter panics on a short buffer.\<close>

definition put_uint64_be :: "u64 \<Rightarrow> bytes" where
  "put_uint64_be v =
     [ucast (drop_bit 56 v), ucast (drop_bit 48 v), ucast (drop_bit 40 v), ucast (drop_bit 32 v),
      ucast (drop_bit 24 v), ucast (drop_bit 16 v), ucast (drop_bit 8 v), ucast v]"

definition uint64_be :: "bytes \<Rightarrow> error + u64" where
  "uint64_be b =
     (if length b < 8 then Inl GoPanic
      else Inr (ucast (b ! 7) OR push_bit 8 (ucast (b ! 6)) OR push_bit 16 (ucast (b ! 5)) OR
        push_bit 24 (ucast (b ! 4)) OR push_bit 32 (ucast (b ! 3)) OR push_bit 40 (ucast (b ! 2)) OR
        push_bit 48 (ucast (b ! 1)) OR push_bit 56 (ucast (b ! 0))))"

lemma split_byte:
  "push_bit s (ucast (ucast (drop_bit s (v :: u64)) :: byte)) OR push_bit (s + 8) (drop_bit (s + 8) v)
     = push_bit s (drop_bit s v)"
proof (rule bit_word_eqI)
  fix n assume "n < LENGTH(64)"
  then show "bit (push_bit s (ucast (ucast (drop_bit s v) :: byte) :: u64) OR
      push_bit (s + 8) (drop_bit (s + 8) v)) n \<longleftrightarrow> bit (push_bit s (drop_bit s v)) n"
    by (cases "n - s < 8") (auto simp: bit_simps)
qed

lemma uint64_be_put [simp]: "uint64_be (put_uint64_be v) = Inr v"
proof -
  have top: "push_bit 56 (ucast (ucast (drop_bit 56 v) :: byte)) = push_bit 56 (drop_bit 56 v)"
    by (rule bit_word_eqI) (auto simp: bit_simps)
  have low: "ucast (ucast v :: byte) OR push_bit 8 (drop_bit 8 v) = v"
    using split_byte [of 0 v] by simp
  show ?thesis
    using split_byte [of 8 v] split_byte [of 16 v] split_byte [of 24 v] split_byte [of 32 v]
      split_byte [of 40 v] split_byte [of 48 v] top low
    by (simp add: uint64_be_def put_uint64_be_def)
qed

section \<open>Decimal numbers\<close>

text \<open>\<open>strconv.FormatUint(n, 10)\<close> and \<open>fmt.Sprint(n)\<close> for an unsigned \<open>n\<close>.\<close>

definition digit_char :: "nat \<Rightarrow> char" where
  "digit_char d = char_of (48 + d)"

fun format_uint :: "nat \<Rightarrow> string" where
  "format_uint n = (if n < 10 then [digit_char n] else format_uint (n div 10) @ [digit_char (n mod 10)])"

declare format_uint.simps [simp del]

text \<open>
  \<open>strconv.Atoi\<close>: an optional sign, then one or more decimal digits; out of the range of a 64-bit
  \<open>int\<close> is an error.
\<close>

definition is_digit :: "char \<Rightarrow> bool" where
  "is_digit c \<longleftrightarrow> 48 \<le> (of_char c :: nat) \<and> (of_char c :: nat) \<le> 57"

definition digits_value :: "string \<Rightarrow> nat" where
  "digits_value s = foldl (\<lambda>v c. 10 * v + (of_char c - 48)) 0 s"

definition atoi :: "string \<Rightarrow> int option" where
  "atoi s =
     (let neg = (take 1 s = ''-'');
          ds = (if take 1 s = ''-'' \<or> take 1 s = ''+'' then drop 1 s else s);
          v = int (digits_value ds);
          r = (if neg then - v else v)
      in if ds = [] \<or> \<not> list_all is_digit ds then None
         else if r < - (2 ^ 63) \<or> 2 ^ 63 \<le> r then None else Some r)"

lemma of_char_digit_char: "d < 10 \<Longrightarrow> of_char (digit_char d) = 48 + d"
  by (simp add: digit_char_def)

lemma format_uint_ne [simp]: "format_uint n \<noteq> []"
  by (subst format_uint.simps) simp

lemma format_uint_digits: "list_all is_digit (format_uint n)"
proof (induction n rule: format_uint.induct)
  case (1 n)
  have d: "is_digit (digit_char (m mod 10))" for m
    by (simp add: is_digit_def of_char_digit_char)
  show ?case
    using 1 d [of n] by (subst format_uint.simps) auto
qed

lemma digits_value_format_uint [simp]: "digits_value (format_uint n) = n"
proof (induction n rule: format_uint.induct)
  case (1 n)
  then show ?case
    by (cases "n < 10")
      (simp_all add: format_uint.simps [of n] digits_value_def of_char_digit_char)
qed

lemma format_uint_inj [simp]: "format_uint m = format_uint n \<longleftrightarrow> m = n"
  by (metis digits_value_format_uint)

lemma not_digit_notin: "\<not> is_digit c \<Longrightarrow> c \<notin> set (format_uint n)"
  using format_uint_digits [of n] by (auto simp: list_all_iff)

lemma slash_notin_format_uint [simp]: "CHR ''/'' \<notin> set (format_uint n)"
  by (rule not_digit_notin) (simp add: is_digit_def)

lemma atoi_format_uint: "n < 2 ^ 63 \<Longrightarrow> atoi (format_uint n) = Some (int n)"
proof -
  assume n: "n < 2 ^ 63"
  have "take 1 (format_uint n) \<noteq> [c]" if "\<not> is_digit c" for c
    using not_digit_notin [OF that, of n] by (cases "format_uint n") auto
  then have "take 1 (format_uint n) \<noteq> ''-''" "take 1 (format_uint n) \<noteq> ''+''"
    by (simp_all add: is_digit_def)
  with n show ?thesis
    by (simp add: atoi_def Let_def format_uint_digits)
qed

section \<open>The lexicographic order and prefixes\<close>

lemma append_less_append [simp]:
  "p @ x < p @ y \<longleftrightarrow> x < (y :: 'a::linorder list)" "p @ x \<le> p @ y \<longleftrightarrow> x \<le> y"
  by (induction p) auto

lemma between_appendE:
  fixes x :: "'a::linorder list"
  assumes "p @ u \<le> x" and "x \<le> p @ v"
  obtains y where "x = p @ y"
  using assms
proof (induction p arbitrary: x thesis)
  case Nil
  then show ?case by simp
next
  case (Cons a p)
  from Cons.prems(2,3) obtain x' where x: "x = a # x'" and "p @ u \<le> x'" and "x' \<le> p @ v"
    by (cases x) (auto simp: order.antisym)
  with Cons.IH obtain y where "x' = p @ y" by blast
  with x Cons.prems(1) show ?case by simp
qed

text \<open>Converting bytes to characters keeps the order, so byte-wise and string order agree.\<close>

lemma char_less_iff: "c < d \<longleftrightarrow> (of_char c :: nat) < of_char d"
  by (simp add: less_char_def)

lemma byte_of_char_less: "byte_of_char c < byte_of_char d \<longleftrightarrow> c < d"
  by (simp add: word_less_nat_alt char_less_iff)

lemma byte_of_char_eq [simp]: "byte_of_char c = byte_of_char d \<longleftrightarrow> c = d"
  by (metis char_of_byte_of_char)

lemma to_bytes_less_iff [simp]: "to_bytes s < to_bytes t \<longleftrightarrow> s < t"
proof (induction s arbitrary: t)
  case Nil
  then show ?case by (cases t) (auto simp: to_bytes_def)
next
  case (Cons a s)
  then show ?case by (cases t) (auto simp: to_bytes_def byte_of_char_less)
qed

lemma to_bytes_append [simp]: "to_bytes (s @ t) = to_bytes s @ to_bytes t"
  by (simp add: to_bytes_def)

lemma to_bytes_Nil [simp]: "to_bytes [] = []" "to_bytes s = [] \<longleftrightarrow> s = []"
  by (simp_all add: to_bytes_def)

lemma of_bytes_append [simp]: "of_bytes (s @ t) = of_bytes s @ of_bytes t"
  by (simp add: of_bytes_def)

lemma to_bytes_le_iff [simp]: "to_bytes s \<le> to_bytes t \<longleftrightarrow> s \<le> t"
  by (auto simp: le_less)

lemma HasPrefix_to_bytes [simp]: "HasPrefix (to_bytes s) (to_bytes p) \<longleftrightarrow> HasPrefix s p"
  by (metis HasPrefix_def length_map take_map to_bytes_def to_bytes_eq_iff)

end
