(* ===== verification/Values.thy ===== *)
theory Values
  imports Go_Prelude Complex_Main
begin

text \<open>
  The dynamic values that documents and filters are made of (Go's \<^verbatim>\<open>any\<close>), floating-point numbers
  and the numeric helpers of \<^verbatim>\<open>connor/numbers\<close>. A \<^verbatim>\<open>float64\<close> is a finite number (a rational), an
  infinity or not a number; the two zeros compare equal and are one value here.
\<close>

section \<open>Floating-point numbers\<close>

datatype float64 = Fin rat | PosInf | NegInf | NaN

fun f_lt :: "float64 \<Rightarrow> float64 \<Rightarrow> bool" where
  "f_lt (Fin x) (Fin y) = (x < y)"
| "f_lt (Fin x) PosInf = True"
| "f_lt NegInf (Fin y) = True"
| "f_lt NegInf PosInf = True"
| "f_lt _ _ = False"

definition f_eq :: "float64 \<Rightarrow> float64 \<Rightarrow> bool" where
  "f_eq x y = (x = y \<and> x \<noteq> NaN)"

definition f_le :: "float64 \<Rightarrow> float64 \<Rightarrow> bool" where
  "f_le x y = (f_lt x y \<or> f_eq x y)"

text \<open>
  The conversion of an integer: exact up to 53 bits, else rounded to the nearest number of 53 bits,
  the even one when two are equally near.
\<close>

definition round_shift :: "nat \<Rightarrow> nat \<Rightarrow> nat" where
  "round_shift k n =
     (let q = n div 2 ^ k; r = 2 * (n mod 2 ^ k)
      in (if r > 2 ^ k \<or> (r = 2 ^ k \<and> odd q) then q + 1 else q) * 2 ^ k)"

fun bit_len :: "nat \<Rightarrow> nat" where
  "bit_len n = (if n = 0 then 0 else Suc (bit_len (n div 2)))"

declare bit_len.simps [simp del]

definition round53 :: "nat \<Rightarrow> nat" where
  "round53 n = (if bit_len n \<le> 53 then n else round_shift (bit_len n - 53) n)"

definition float_of_int :: "int \<Rightarrow> float64" where
  "float_of_int i = Fin (of_int (if i < 0 then - int (round53 (nat (- i))) else int (round53 (nat i))))"

text \<open>
  The conversion to \<^verbatim>\<open>int64\<close> drops the fraction. What it gives for a number out of range is up to
  the implementation: it is the argument \<open>other\<close>.
\<close>

definition trunc :: "rat \<Rightarrow> int" where
  "trunc x = (if x < 0 then - \<lfloor>- x\<rfloor> else \<lfloor>x\<rfloor>)"

definition int64_of_float :: "(float64 \<Rightarrow> 64 word) \<Rightarrow> float64 \<Rightarrow> 64 word" where
  "int64_of_float other x =
     (case x of
        Fin r \<Rightarrow> if - (2 ^ 63) \<le> trunc r \<and> trunc r < 2 ^ 63 then word_of_int (trunc r) else other x
      | _ \<Rightarrow> other x)"

section \<open>Dynamic values\<close>

text \<open>
  An instant (\<^verbatim>\<open>time.Time\<close>) is its number of nanoseconds. A typed slice carries the name of its
  type; \<open>Anys\<close> is \<^verbatim>\<open>[]any\<close> and \<open>ByteSlice\<close> is \<^verbatim>\<open>[]byte\<close>. A document has its \<^verbatim>\<open>Hidden\<close> flag, its fields and its status.
\<close>

datatype any =
    Nil_any
  | Bool bool
  | Int8 "8 word" | Int16 "16 word" | Int32 "32 word" | GoInt "64 word" | Int64 "64 word" | Uint64 "64 word"
  | Float32 float64 | Float64 float64
  | Str string
  | Time int
  | OptBool "bool option" | OptInt "64 word option" | OptFloat "float64 option" | OptStr "string option"
  | Anys "any list"
  | Slice string "any list"
  | ByteSlice bytes
  | Doc doc
  | Docs "doc list"
and doc = MkDoc (Hidden: bool) (Fields: "any list") (Status: byte)

text \<open>
  \<^verbatim>\<open>numbers.TryUpcast\<close>. The check that a \<^verbatim>\<open>uint64\<close> keeps its value compares it with itself
  converted twice.
\<close>

definition TryUpcast :: "any \<Rightarrow> any" where
  "TryUpcast n =
     (case n of
        Int8 nn \<Rightarrow> Int64 (scast nn)
      | Int16 nn \<Rightarrow> Int64 (scast nn)
      | Int32 nn \<Rightarrow> Int64 (scast nn)
      | GoInt nn \<Rightarrow> Int64 nn
      | Int64 nn \<Rightarrow> Int64 nn
      | Uint64 nn \<Rightarrow>
          (let nnn = (ucast nn :: 64 word) in if (ucast nnn :: 64 word) = nn then Int64 nnn else n)
      | Float32 nn \<Rightarrow> Float64 nn
      | Float64 nn \<Rightarrow> Float64 nn
      | _ \<Rightarrow> n)"

definition numbers_Equal :: "(float64 \<Rightarrow> 64 word) \<Rightarrow> any \<Rightarrow> any \<Rightarrow> bool" where
  "numbers_Equal other condition data =
     (case TryUpcast condition of
        Int64 ucv \<Rightarrow>
          (case TryUpcast data of
             Int64 udv \<Rightarrow> ucv = udv
           | Float64 udv \<Rightarrow>
               (let fucv = float_of_int (sint ucv) in f_eq fucv udv \<and> int64_of_float other fucv = ucv)
           | _ \<Rightarrow> False)
      | Float64 ucv \<Rightarrow>
          (case TryUpcast data of
             Float64 udv \<Rightarrow> f_eq ucv udv
           | Int64 udv \<Rightarrow>
               (let iucv = int64_of_float other ucv in iucv = udv \<and> f_eq (float_of_int (sint iucv)) ucv)
           | _ \<Rightarrow> False)
      | _ \<Rightarrow> False)"

text \<open>\<^verbatim>\<open>connor/time\<close>: equality of instants; \<open>parse\<close> is \<^verbatim>\<open>time.Parse\<close> with the layout RFC 3339.\<close>

definition time_Equal :: "(string \<Rightarrow> error + int) \<Rightarrow> any \<Rightarrow> any \<Rightarrow> bool" where
  "time_Equal parse condition data =
     (case condition of
        Time c \<Rightarrow>
          (case data of
             Time d \<Rightarrow> d = c
           | Str d \<Rightarrow> (case parse d of Inl _ \<Rightarrow> False | Inr dt \<Rightarrow> dt = c)
           | _ \<Rightarrow> False)
      | _ \<Rightarrow> False)"

text \<open>
  \<^verbatim>\<open>reflect.DeepEqual\<close> on two dynamic values: the same type and the same contents. A time is an
  instant here; \<^verbatim>\<open>reflect.DeepEqual\<close> also tells two times of one instant apart that have different
  locations or clock readings.
\<close>

primrec deep_equal :: "any \<Rightarrow> any \<Rightarrow> bool" and deep_equal_doc :: "doc \<Rightarrow> doc \<Rightarrow> bool" where
  "deep_equal Nil_any y = (y = Nil_any)"
| "deep_equal (Bool b) y = (y = Bool b)"
| "deep_equal (Int8 i) y = (y = Int8 i)"
| "deep_equal (Int16 i) y = (y = Int16 i)"
| "deep_equal (Int32 i) y = (y = Int32 i)"
| "deep_equal (GoInt i) y = (y = GoInt i)"
| "deep_equal (Int64 i) y = (y = Int64 i)"
| "deep_equal (Uint64 i) y = (y = Uint64 i)"
| "deep_equal (Float32 x) y = (case y of Float32 x' \<Rightarrow> f_eq x x' | _ \<Rightarrow> False)"
| "deep_equal (Float64 x) y = (case y of Float64 x' \<Rightarrow> f_eq x x' | _ \<Rightarrow> False)"
| "deep_equal (Str t) y = (y = Str t)"
| "deep_equal (Time t) y = (y = Time t)"
| "deep_equal (OptBool v) y = (y = OptBool v)"
| "deep_equal (OptInt v) y = (y = OptInt v)"
| "deep_equal (OptFloat v) y = (y = OptFloat v \<and> v \<noteq> Some NaN)"
| "deep_equal (OptStr v) y = (y = OptStr v)"
| "deep_equal (Anys xs) y =
     (case y of Anys ys \<Rightarrow> list_all2 (\<lambda>f y. f y) (map deep_equal xs) ys | _ \<Rightarrow> False)"
| "deep_equal (Slice t xs) y =
     (case y of
        Slice u ys \<Rightarrow> t = u \<and> list_all2 (\<lambda>f y. f y) (map deep_equal xs) ys
      | _ \<Rightarrow> False)"
| "deep_equal (ByteSlice b) y = (y = ByteSlice b)"
| "deep_equal (Doc x) y = (case y of Doc x' \<Rightarrow> deep_equal_doc x x' | _ \<Rightarrow> False)"
| "deep_equal (Docs xs) y =
     (case y of Docs ys \<Rightarrow> list_all2 (\<lambda>f y. f y) (map deep_equal_doc xs) ys | _ \<Rightarrow> False)"
| "deep_equal_doc (MkDoc h xs s) y =
     (Hidden y = h \<and> list_all2 (\<lambda>f y. f y) (map deep_equal xs) (Fields y) \<and> Status y = s)"

end
