(* ===== verification/Keys.thy ===== *)
theory Keys
  imports Go_Prelude
begin

text \<open>
  The keys of the database (\<^verbatim>\<open>core/key.go\<close>): the key structs, their textual form, the two
  parsers, the flag and field setters, and the end of a key's prefix range. A CID and
  \<^verbatim>\<open>ds.NewKey\<close> are third-party: a CID is a value of the type variable \<open>'c\<close> (\<open>None\<close> is
  \<^verbatim>\<open>cid.Undef\<close>) with its textual form and decoder given by a \<open>cid_ops\<close> record, and the key
  constructor of the datastore package is the argument \<open>NewKey\<close> of the \<open>ToDS\<close> functions.
\<close>

section \<open>Key structs\<close>

record 'c cid_ops =
  cid_String :: "'c \<Rightarrow> string"
  cid_Decode :: "string \<Rightarrow> error + 'c"
  cid_Bytes :: "'c \<Rightarrow> bytes"

text \<open>
  What the sources rely on of the CID package: decoding inverts the textual form, the textual
  form is a non-empty base-encoded word (no slash), and the binary form identifies the CID.
\<close>

definition cid_laws :: "('c, 'x) cid_ops_scheme \<Rightarrow> bool" where
  "cid_laws C \<longleftrightarrow>
     (\<forall>c. cid_Decode C (cid_String C c) = Inr c \<and> cid_String C c \<noteq> [] \<and>
        CHR ''/'' \<notin> set (cid_String C c)) \<and> inj (cid_Bytes C)"

definition KeyMin :: bytes where
  "KeyMin = []"

definition KeyMax :: bytes where
  "KeyMax = [0xff, 0xff]"

type_synonym InstanceType = string

definition ValueKey :: InstanceType where
  "ValueKey = ''v''"

definition PriorityKey :: InstanceType where
  "PriorityKey = ''p''"

definition DeletedKey :: InstanceType where
  "DeletedKey = ''d''"

definition COLLECTION :: string where
  "COLLECTION = ''/collection/names''"

definition COLLECTION_SCHEMA :: string where
  "COLLECTION_SCHEMA = ''/collection/schema''"

definition COLLECTION_SCHEMA_VERSION :: string where
  "COLLECTION_SCHEMA_VERSION = ''/collection/version''"

definition SEQ :: string where
  "SEQ = ''/seq''"

definition PRIMARY_KEY :: string where
  "PRIMARY_KEY = ''/pk''"

definition REPLICATOR :: string where
  "REPLICATOR = ''/replicator/id''"

definition P2P_COLLECTION :: string where
  "P2P_COLLECTION = ''/p2p/collection''"

lemmas instance_defs = ValueKey_def PriorityKey_def DeletedKey_def

record DataStoreKey =
  dk_CollectionID :: string
  dk_InstanceType :: InstanceType
  dk_DocKey :: string
  dk_FieldId :: string

record PrimaryDataStoreKey =
  pk_CollectionId :: string
  pk_DocKey :: string

record 'c HeadStoreKey =
  hk_DocKey :: string
  hk_FieldId :: string
  hk_Cid :: "'c option"

text \<open>
  The keys of the system store. Each source struct has one string field; the datatype is the union
  of the structs that implement the \<^verbatim>\<open>Key\<close> interface over that store.
\<close>

datatype SystemKey =
    CollectionKey string
  | CollectionSchemaKey string
  | CollectionSchemaVersionKey string
  | P2PCollectionKey string
  | SequenceKey string
  | ReplicatorKey string

section \<open>Constructors and setters\<close>

definition empty_DataStoreKey :: DataStoreKey where
  "empty_DataStoreKey =
     \<lparr>dk_CollectionID = [], dk_InstanceType = [], dk_DocKey = [], dk_FieldId = []\<rparr>"

definition NewDataStoreKey :: "string \<Rightarrow> error + DataStoreKey" where
  "NewDataStoreKey key =
     (if key = [] then Inl ErrEmptyKey
      else
        (let elements = split_on (CHR ''/'') (TrimPrefix key ''/'');
             numberOfElements = length elements
         in if numberOfElements < 3 \<or> numberOfElements > 4 then Inl ErrInvalidKey
            else Inr \<lparr>dk_CollectionID = elements ! 0,
                      dk_InstanceType = elements ! 1,
                      dk_DocKey = elements ! 2,
                      dk_FieldId = (if numberOfElements = 4 then elements ! 3 else [])\<rparr>))"

definition MustNewDataStoreKey :: "string \<Rightarrow> error + DataStoreKey" where
  "MustNewDataStoreKey key = (case NewDataStoreKey key of Inl _ \<Rightarrow> Inl GoPanic | Inr k \<Rightarrow> Inr k)"

definition DataStoreKeyFromDocKey :: "string \<Rightarrow> DataStoreKey" where
  "DataStoreKeyFromDocKey dockey = empty_DataStoreKey\<lparr>dk_DocKey := dockey\<rparr>"

definition NewHeadStoreKey :: "'c cid_ops \<Rightarrow> string \<Rightarrow> error + 'c HeadStoreKey" where
  "NewHeadStoreKey C key =
     (let elements = split_on (CHR ''/'') key
      in if length elements \<noteq> 4 then Inl ErrInvalidKey
         else (case cid_Decode C (elements ! 3) of
                 Inl err \<Rightarrow> Inl err
               | Inr c \<Rightarrow> Inr \<lparr>hk_DocKey = elements ! 1, hk_FieldId = elements ! 2, hk_Cid = Some c\<rparr>))"

definition NewCollectionKey :: "string \<Rightarrow> SystemKey" where
  "NewCollectionKey name = CollectionKey name"

definition NewCollectionSchemaKey :: "string \<Rightarrow> SystemKey" where
  "NewCollectionSchemaKey schemaId = CollectionSchemaKey schemaId"

definition NewCollectionSchemaVersionKey :: "string \<Rightarrow> SystemKey" where
  "NewCollectionSchemaVersionKey schemaVersionId = CollectionSchemaVersionKey schemaVersionId"

definition NewSequenceKey :: "string \<Rightarrow> SystemKey" where
  "NewSequenceKey name = SequenceKey name"

definition NewP2PCollectionKey :: "string \<Rightarrow> SystemKey" where
  "NewP2PCollectionKey collectionID = P2PCollectionKey collectionID"

definition NewReplicatorKey :: "string \<Rightarrow> SystemKey" where
  "NewReplicatorKey i = ReplicatorKey i"

definition NewP2PCollectionKeyFromString :: "string \<Rightarrow> error + SystemKey" where
  "NewP2PCollectionKeyFromString key =
     (let keyArr = split_on (CHR ''/'') key
      in if length keyArr \<noteq> 4 then Inl (Wrapped key ErrInvalidKey)
         else Inr (NewP2PCollectionKey (keyArr ! 3)))"

definition WithValueFlag :: "DataStoreKey \<Rightarrow> DataStoreKey" where
  "WithValueFlag k = k\<lparr>dk_InstanceType := ValueKey\<rparr>"

definition WithPriorityFlag :: "DataStoreKey \<Rightarrow> DataStoreKey" where
  "WithPriorityFlag k = k\<lparr>dk_InstanceType := PriorityKey\<rparr>"

definition WithDeletedFlag :: "DataStoreKey \<Rightarrow> DataStoreKey" where
  "WithDeletedFlag k = k\<lparr>dk_InstanceType := DeletedKey\<rparr>"

definition WithDocKey :: "DataStoreKey \<Rightarrow> string \<Rightarrow> DataStoreKey" where
  "WithDocKey k docKey = k\<lparr>dk_DocKey := docKey\<rparr>"

definition WithInstanceInfo :: "DataStoreKey \<Rightarrow> DataStoreKey \<Rightarrow> DataStoreKey" where
  "WithInstanceInfo k key =
     k\<lparr>dk_DocKey := dk_DocKey key, dk_FieldId := dk_FieldId key,
       dk_InstanceType := dk_InstanceType key\<rparr>"

definition WithFieldId :: "DataStoreKey \<Rightarrow> string \<Rightarrow> DataStoreKey" where
  "WithFieldId k fieldId = k\<lparr>dk_FieldId := fieldId\<rparr>"

definition ToHeadStoreKey :: "DataStoreKey \<Rightarrow> 'c HeadStoreKey" where
  "ToHeadStoreKey k = \<lparr>hk_DocKey = dk_DocKey k, hk_FieldId = dk_FieldId k, hk_Cid = None\<rparr>"

definition Head_WithDocKey :: "'c HeadStoreKey \<Rightarrow> string \<Rightarrow> 'c HeadStoreKey" where
  "Head_WithDocKey k docKey = k\<lparr>hk_DocKey := docKey\<rparr>"

definition WithCid :: "'c HeadStoreKey \<Rightarrow> 'c \<Rightarrow> 'c HeadStoreKey" where
  "WithCid k c = k\<lparr>hk_Cid := Some c\<rparr>"

definition Head_WithFieldId :: "'c HeadStoreKey \<Rightarrow> string \<Rightarrow> 'c HeadStoreKey" where
  "Head_WithFieldId k fieldId = k\<lparr>hk_FieldId := fieldId\<rparr>"

definition ToPrimaryDataStoreKey :: "DataStoreKey \<Rightarrow> PrimaryDataStoreKey" where
  "ToPrimaryDataStoreKey k = \<lparr>pk_CollectionId = dk_CollectionID k, pk_DocKey = dk_DocKey k\<rparr>"

definition ToDataStoreKey :: "PrimaryDataStoreKey \<Rightarrow> DataStoreKey" where
  "ToDataStoreKey k =
     empty_DataStoreKey\<lparr>dk_CollectionID := pk_CollectionId k, dk_DocKey := pk_DocKey k\<rparr>"

definition DataStoreKey_Equal :: "DataStoreKey \<Rightarrow> DataStoreKey \<Rightarrow> bool" where
  "DataStoreKey_Equal k other \<longleftrightarrow>
     dk_CollectionID k = dk_CollectionID other \<and> dk_DocKey k = dk_DocKey other \<and>
     dk_FieldId k = dk_FieldId other \<and> dk_InstanceType k = dk_InstanceType other"

section \<open>Textual form\<close>

text \<open>The recurring step \<^verbatim>\<open>if part != "" { result = result + "/" + part }\<close>.\<close>

definition add_part :: "string \<Rightarrow> string \<Rightarrow> string" where
  "add_part result part = (if part \<noteq> [] then result @ ''/'' @ part else result)"

definition ToString :: "DataStoreKey \<Rightarrow> string" where
  "ToString k =
     add_part (add_part (add_part (add_part [] (dk_CollectionID k)) (dk_InstanceType k))
       (dk_DocKey k)) (dk_FieldId k)"

definition Primary_ToString :: "PrimaryDataStoreKey \<Rightarrow> string" where
  "Primary_ToString k = add_part (add_part [] (pk_CollectionId k) @ PRIMARY_KEY) (pk_DocKey k)"

definition Head_ToString :: "'c cid_ops \<Rightarrow> 'c HeadStoreKey \<Rightarrow> string" where
  "Head_ToString C k =
     (let result = add_part (add_part [] (hk_DocKey k)) (hk_FieldId k)
      in case hk_Cid k of None \<Rightarrow> result | Some c \<Rightarrow> result @ ''/'' @ cid_String C c)"

fun System_ToString :: "SystemKey \<Rightarrow> string" where
  "System_ToString (CollectionKey n) = add_part COLLECTION n"
| "System_ToString (CollectionSchemaKey n) = add_part COLLECTION_SCHEMA n"
| "System_ToString (CollectionSchemaVersionKey n) = add_part COLLECTION_SCHEMA_VERSION n"
| "System_ToString (P2PCollectionKey n) = add_part P2P_COLLECTION n"
| "System_ToString (SequenceKey n) = add_part SEQ n"
| "System_ToString (ReplicatorKey n) = add_part REPLICATOR n"

definition Bytes :: "DataStoreKey \<Rightarrow> bytes" where
  "Bytes k = to_bytes (ToString k)"

definition Primary_Bytes :: "PrimaryDataStoreKey \<Rightarrow> bytes" where
  "Primary_Bytes k = to_bytes (Primary_ToString k)"

definition Head_Bytes :: "'c cid_ops \<Rightarrow> 'c HeadStoreKey \<Rightarrow> bytes" where
  "Head_Bytes C k = to_bytes (Head_ToString C k)"

definition System_Bytes :: "SystemKey \<Rightarrow> bytes" where
  "System_Bytes k = to_bytes (System_ToString k)"

definition ToDS :: "(string \<Rightarrow> string) \<Rightarrow> DataStoreKey \<Rightarrow> string" where
  "ToDS NewKey k = NewKey (ToString k)"

definition Primary_ToDS :: "(string \<Rightarrow> string) \<Rightarrow> PrimaryDataStoreKey \<Rightarrow> string" where
  "Primary_ToDS NewKey k = NewKey (Primary_ToString k)"

definition Head_ToDS :: "(string \<Rightarrow> string) \<Rightarrow> 'c cid_ops \<Rightarrow> 'c HeadStoreKey \<Rightarrow> string" where
  "Head_ToDS NewKey C k = NewKey (Head_ToString C k)"

definition System_ToDS :: "(string \<Rightarrow> string) \<Rightarrow> SystemKey \<Rightarrow> string" where
  "System_ToDS NewKey k = NewKey (System_ToString k)"

section \<open>Prefix ranges and field ids\<close>

text \<open>The loop of \<^verbatim>\<open>bytesPrefixEnd\<close>, counting \<open>i\<close> down from \<open>len(end)\<close>; \<open>Suc i\<close> handles index \<open>i\<close>.\<close>

fun bytesPrefixEnd_loop :: "bytes \<Rightarrow> bytes \<Rightarrow> nat \<Rightarrow> bytes" where
  "bytesPrefixEnd_loop b e 0 = b"
| "bytesPrefixEnd_loop b e (Suc i) =
     (let e' = e[i := e ! i + 1]
      in if e' ! i \<noteq> 0 then take (Suc i) e' else bytesPrefixEnd_loop b e' i)"

definition bytesPrefixEnd :: "bytes \<Rightarrow> bytes" where
  "bytesPrefixEnd b = bytesPrefixEnd_loop b b (length b)"

definition string_prefix_end :: "string \<Rightarrow> string" where
  "string_prefix_end s = of_bytes (bytesPrefixEnd (to_bytes s))"

definition PrefixEnd :: "DataStoreKey \<Rightarrow> DataStoreKey" where
  "PrefixEnd k =
     (if dk_FieldId k \<noteq> [] then k\<lparr>dk_FieldId := string_prefix_end (dk_FieldId k)\<rparr>
      else if dk_DocKey k \<noteq> [] then k\<lparr>dk_DocKey := string_prefix_end (dk_DocKey k)\<rparr>
      else if dk_InstanceType k \<noteq> [] then k\<lparr>dk_InstanceType := string_prefix_end (dk_InstanceType k)\<rparr>
      else if dk_CollectionID k \<noteq> [] then k\<lparr>dk_CollectionID := string_prefix_end (dk_CollectionID k)\<rparr>
      else k)"

definition FieldID :: "DataStoreKey \<Rightarrow> error + u32" where
  "FieldID k =
     (case atoi (dk_FieldId k) of
        None \<Rightarrow> Inl ErrFailedToGetFieldIdOfKey
      | Some fieldID \<Rightarrow> Inr (word_of_int fieldID))"

section \<open>Round trips\<close>

text \<open>A key part that the textual form can carry: non-empty and without the separator.\<close>

definition key_part :: "string \<Rightarrow> bool" where
  "key_part p \<longleftrightarrow> p \<noteq> [] \<and> CHR ''/'' \<notin> set p"

definition wf_key :: "DataStoreKey \<Rightarrow> bool" where
  "wf_key k \<longleftrightarrow> key_part (dk_CollectionID k) \<and> key_part (dk_InstanceType k) \<and>
     key_part (dk_DocKey k) \<and> CHR ''/'' \<notin> set (dk_FieldId k)"

lemma TrimPrefix_slash [simp]: "TrimPrefix (CHR ''/'' # s) ''/'' = s"
  by (simp add: TrimPrefix_def HasPrefix_def)

lemma split_on_slash_Cons [simp]: "split_on c (c # s) = [] # split_on c s"
  by simp

lemma parse_print: "wf_key k \<Longrightarrow> NewDataStoreKey (ToString k) = Inr k"
  by (cases "dk_FieldId k = []")
    (auto simp: NewDataStoreKey_def ToString_def add_part_def wf_key_def key_part_def Let_def)

lemma ToString_inj: "wf_key k \<Longrightarrow> wf_key k' \<Longrightarrow> ToString k = ToString k' \<longleftrightarrow> k = k'"
  by (metis parse_print sum.inject(2))

text \<open>Parsing a string that the parser accepts and that has no empty part, and printing it again.\<close>

lemma split_on_join:
  "split_on c s = ws \<Longrightarrow> concat (map (\<lambda>w. c # w) ws) = c # s"
proof (induction s arbitrary: ws)
  case Nil
  then show ?case by auto
next
  case (Cons a s)
  then show ?case
    by (cases "split_on c s") (auto split: if_splits)
qed

lemma head_parse_print:
  assumes "cid_laws C" and "key_part (hk_DocKey k)" and "key_part (hk_FieldId k)"
    and "hk_Cid k = Some c"
  shows "NewHeadStoreKey C (Head_ToString C k) = Inr k"
  using assms
  by (auto simp: NewHeadStoreKey_def Head_ToString_def add_part_def cid_laws_def key_part_def Let_def)

section \<open>Namespaces of the system store\<close>

lemmas namespace_defs = COLLECTION_def COLLECTION_SCHEMA_def COLLECTION_SCHEMA_VERSION_def SEQ_def
  REPLICATOR_def P2P_COLLECTION_def

lemma System_ToString_inj: "System_ToString j = System_ToString k \<longleftrightarrow> j = k"
  by (cases j; cases k) (auto simp: add_part_def namespace_defs split: if_splits)

lemma p2p_key_round_trip:
  "key_part n \<Longrightarrow>
     NewP2PCollectionKeyFromString (System_ToString (P2PCollectionKey n)) = Inr (P2PCollectionKey n)"
  by (simp add: NewP2PCollectionKeyFromString_def add_part_def key_part_def P2P_COLLECTION_def
      NewP2PCollectionKey_def Let_def)

section \<open>The prefix range\<close>

lemma ff_eq: "(0xff :: byte) = - 1" "(- 1 :: byte) + 1 = 0"
  by simp_all

lemma bytesPrefixEnd_loop_carry:
  "bytesPrefixEnd_loop b (q @ 0xff # t) (Suc (length q)) = bytesPrefixEnd_loop b (q @ 0 # t) (length q)"
  unfolding ff_eq by (simp add: Let_def ff_eq)

lemma bytesPrefixEnd_loop_spec:
  assumes "x \<noteq> 0xff"
  shows "bytesPrefixEnd_loop b (p @ x # replicate n 0xff @ t) (length p + Suc n) = p @ [x + 1]"
proof (induction n arbitrary: t)
  case 0
  have "x + 1 \<noteq> 0"
    using assms eq_neg_iff_add_eq_0 [of x 1] by auto
  then show ?case by (simp add: Let_def)
next
  case (Suc n)
  have split: "p @ x # replicate (Suc n) 0xff @ t = (p @ x # replicate n 0xff) @ 0xff # t"
    by (simp add: replicate_app_Cons_same)
  have len: "length p + Suc (Suc n) = Suc (length (p @ x # replicate n (0xff :: byte)))"
    by simp
  show ?case
    using Suc.IH [of "0 # t"] by (simp only: split len bytesPrefixEnd_loop_carry) simp
qed

lemma bytesPrefixEnd_spec:
  "x \<noteq> 0xff \<Longrightarrow> bytesPrefixEnd (p @ x # replicate n 0xff) = p @ [x + 1]"
  using bytesPrefixEnd_loop_spec [of x "p @ x # replicate n 0xff" p n "[]"]
  by (simp add: bytesPrefixEnd_def)

text \<open>Every byte string is of one of the two shapes the loop distinguishes.\<close>

lemma trailing_ff_cases:
  obtains (max) n where "b = replicate n (0xff :: byte)"
  | (inc) p x n where "x \<noteq> 0xff" and "b = p @ x # replicate n 0xff"
proof (cases "\<forall>y \<in> set b. y = 0xff")
  case True
  then show ?thesis using max [of "length b"] by (metis replicate_length_same)
next
  case False
  then obtain p x q where "b = p @ x # q" and "x \<noteq> 0xff" and "\<forall>y \<in> set q. y = 0xff"
    using split_list_last_prop [of b "\<lambda>y. y \<noteq> 0xff"] by blast
  then show ?thesis using inc [of x p "length q"] by (metis replicate_length_same)
qed

lemma le_max_byte: "x \<le> (0xff :: byte)"
  unfolding ff_eq by (rule word_n1_ge)

lemma ge_replicate_ff_prefix: "replicate n (0xff :: byte) \<le> z \<Longrightarrow> HasPrefix z (replicate n 0xff)"
proof (induction n arbitrary: z)
  case 0
  then show ?case by (simp add: HasPrefix_def)
next
  case (Suc n)
  then obtain a z' where z: "z = a # z'" by (cases z) auto
  with Suc.prems have "a = 0xff" using le_max_byte [of a] by auto
  with z Suc show ?case by (simp add: HasPrefix_def)
qed

lemma inc_less: "x \<noteq> (0xff :: byte) \<Longrightarrow> x < x + 1"
proof -
  assume "x \<noteq> 0xff"
  then have "x < 0xff" using le_max_byte [of x] by (simp add: order_less_le)
  then show ?thesis by (simp add: word_less_nat_alt unat_word_ariths(1))
qed

lemma less_inc_iff: "x \<noteq> (0xff :: byte) \<Longrightarrow> y < x + 1 \<longleftrightarrow> y \<le> x"
  using inc_less [of x] by (metis add.commute inc_le le_less_trans not_less word_le_less_eq)

text \<open>
  The interval from a byte string (inclusive) to its prefix end (exclusive) holds exactly the
  strings that start with it, unless it consists of \<open>0xff\<close> bytes only.
\<close>

lemma bytesPrefixEnd_range:
  assumes "\<exists>y \<in> set b. y \<noteq> 0xff"
  shows "b \<le> s \<and> s < bytesPrefixEnd b \<longleftrightarrow> HasPrefix s b"
proof -
  obtain p x n where x: "x \<noteq> 0xff" and b: "b = p @ x # replicate n 0xff"
    using assms by (cases b rule: trailing_ff_cases) auto
  have e: "bytesPrefixEnd b = p @ [x + 1]" using x b bytesPrefixEnd_spec by simp
  show ?thesis
  proof
    assume s: "b \<le> s \<and> s < bytesPrefixEnd b"
    then obtain y where y: "s = p @ y" using b e by (metis between_appendE less_imp_le)
    with s b e have *: "x # replicate n 0xff \<le> y" "y < [x + 1]" by auto
    then obtain a z where az: "y = a # z" by (cases y) auto
    with * x have "a = x" and "replicate n 0xff \<le> z" by (auto simp: less_inc_iff)
    then have "HasPrefix z (replicate n 0xff)" by (simp add: ge_replicate_ff_prefix)
    with \<open>a = x\<close> y az b show "HasPrefix s b" by (auto simp: HasPrefix_iff)
  next
    assume "HasPrefix s b"
    then obtain r where "s = b @ r" by (auto simp: HasPrefix_iff)
    then show "b \<le> s \<and> s < bytesPrefixEnd b"
      using b e x inc_less [of x] append_less_append(2) [of b "[]" r] by auto
  qed
qed

text \<open>The part of a key that \<^verbatim>\<open>PrefixEnd\<close> advances, and the text before it.\<close>

definition last_part :: "DataStoreKey \<Rightarrow> string" where
  "last_part k =
     (if dk_FieldId k \<noteq> [] then dk_FieldId k
      else if dk_DocKey k \<noteq> [] then dk_DocKey k
      else if dk_InstanceType k \<noteq> [] then dk_InstanceType k
      else dk_CollectionID k)"

definition before_last :: "DataStoreKey \<Rightarrow> string" where
  "before_last k =
     (if dk_FieldId k \<noteq> [] then ToString (k\<lparr>dk_FieldId := []\<rparr>)
      else if dk_DocKey k \<noteq> [] then ToString (k\<lparr>dk_DocKey := []\<rparr>)
      else if dk_InstanceType k \<noteq> [] then ToString (k\<lparr>dk_InstanceType := []\<rparr>)
      else [])"

definition not_max :: "string \<Rightarrow> bool" where
  "not_max s \<longleftrightarrow> (\<exists>c \<in> set s. byte_of_char c \<noteq> 0xff)"

lemma string_prefix_end_range:
  assumes "not_max p"
  shows "p \<le> s \<and> s < string_prefix_end p \<longleftrightarrow> HasPrefix s p"
proof -
  have "\<exists>y \<in> set (to_bytes p). y \<noteq> 0xff"
    using assms by (auto simp: not_max_def to_bytes_def)
  from bytesPrefixEnd_range [OF this, of "to_bytes s"] show ?thesis
    by (metis HasPrefix_to_bytes string_prefix_end_def to_bytes_le_iff to_bytes_less_iff to_bytes_of_bytes)
qed

lemma string_prefix_end_ne: "not_max p \<Longrightarrow> string_prefix_end p \<noteq> []"
  using string_prefix_end_range [of p p] by (auto simp: HasPrefix_def)

lemma ToString_last_part:
  "last_part k \<noteq> [] \<Longrightarrow> ToString k = before_last k @ ''/'' @ last_part k"
  by (auto simp: last_part_def before_last_def ToString_def add_part_def)

lemma ToString_PrefixEnd:
  "not_max (last_part k) \<Longrightarrow>
     ToString (PrefixEnd k) = before_last k @ ''/'' @ string_prefix_end (last_part k)"
  using string_prefix_end_ne [of "last_part k"]
  by (auto simp: last_part_def before_last_def ToString_def add_part_def PrefixEnd_def not_max_def)

lemma append_range_prefix:
  fixes q :: "'a::linorder list"
  assumes "\<And>t. a \<le> t \<and> t < b \<longleftrightarrow> HasPrefix t a"
  shows "q @ a \<le> s \<and> s < q @ b \<longleftrightarrow> HasPrefix s (q @ a)"
proof
  assume s: "q @ a \<le> s \<and> s < q @ b"
  then obtain t where "s = q @ t" by (metis between_appendE less_imp_le)
  with s assms [of t] show "HasPrefix s (q @ a)" by (auto simp: HasPrefix_iff)
next
  assume "HasPrefix s (q @ a)"
  then obtain r where "s = q @ a @ r" by (auto simp: HasPrefix_iff)
  with assms [of "a @ r"] show "q @ a \<le> s \<and> s < q @ b" by simp
qed

lemma PrefixEnd_prefix:
  assumes "not_max (last_part k)"
  shows "ToString k \<le> s \<and> s < ToString (PrefixEnd k) \<longleftrightarrow> HasPrefix s (ToString k)"
proof -
  have "last_part k \<noteq> []" using assms by (auto simp: not_max_def)
  with append_range_prefix [OF string_prefix_end_range [OF assms], of "before_last k @ ''/''" s]
  show ?thesis by (simp add: ToString_PrefixEnd [OF assms] ToString_last_part)
qed

section \<open>Properties\<close>

text \<open>
  C22. A datastore key whose collection, instance and document parts are non-empty and whose parts
  hold no separator is what \<^verbatim>\<open>NewDataStoreKey\<close> reads back from its textual form; so two such
  keys with one textual form are \<^verbatim>\<open>Equal\<close>.
\<close>

theorem datastore_key_round_trip:
  assumes "wf_key k"
  shows "NewDataStoreKey (ToString k) = Inr k \<and>
    (\<forall>j. wf_key j \<longrightarrow> (ToString j = ToString k \<longleftrightarrow> DataStoreKey_Equal j k))"
  using assms parse_print [OF assms] ToString_inj [of _ k] by (auto simp: DataStoreKey_Equal_def)

theorem datastore_key_round_trip_witness:
  "let k = \<lparr>dk_CollectionID = ''1'', dk_InstanceType = ''v'', dk_DocKey = ''bae'', dk_FieldId = ''2''\<rparr>
   in wf_key k \<and> NewDataStoreKey (ToString k) = Inr k"
  using datastore_key_round_trip
    [of "\<lparr>dk_CollectionID = ''1'', dk_InstanceType = ''v'', dk_DocKey = ''bae'', dk_FieldId = ''2''\<rparr>"]
  by (simp add: wf_key_def key_part_def)

text \<open>
  C32. The head-store key of a document field with a defined CID is what \<^verbatim>\<open>NewHeadStoreKey\<close> reads
  back from its textual form.
\<close>

theorem head_key_round_trip:
  assumes "cid_laws C" and "key_part d" and "key_part f"
  shows "NewHeadStoreKey C (Head_ToString C (WithCid (Head_WithFieldId (Head_WithDocKey k d) f) c)) =
    Inr (WithCid (Head_WithFieldId (Head_WithDocKey k d) f) c)"
  by (rule head_parse_print [OF assms(1)])
    (simp_all add: assms Head_WithDocKey_def Head_WithFieldId_def WithCid_def)

theorem head_key_round_trip_witness:
  "NewHeadStoreKey
      \<lparr>cid_String = (\<lambda>n. format_uint n), cid_Decode = (\<lambda>s. Inr (digits_value s)),
       cid_Bytes = (\<lambda>n. replicate n 0)\<rparr> ''/bae/C/7'' =
     Inr \<lparr>hk_DocKey = ''bae'', hk_FieldId = ''C'', hk_Cid = Some (7 :: nat)\<rparr>"
proof -
  let ?C = "\<lparr>cid_String = (\<lambda>n. format_uint n), cid_Decode = (\<lambda>s. Inr (digits_value s)),
       cid_Bytes = (\<lambda>n. replicate n 0)\<rparr>"
  have "cid_laws ?C"
    by (auto simp: cid_laws_def intro!: injI dest: arg_cong [where f = length])
  moreover have "format_uint 7 = ''7''" by code_simp
  moreover have "key_part ''bae''" and "key_part ''C''" by (simp_all add: key_part_def)
  ultimately show ?thesis
    using head_key_round_trip [of ?C "''bae''" "''C''" "\<lparr>hk_DocKey = [], hk_FieldId = [], hk_Cid = None\<rparr>" 7]
    by (simp add: Head_ToString_def Head_WithDocKey_def Head_WithFieldId_def WithCid_def add_part_def)
qed

text \<open>
  C23. The textual form of the system store's keys is injective across all key kinds and all names:
  a collection, schema, version, sequence, replicator or P2P entry never overwrites another.
\<close>

theorem system_keys_disjoint: "System_ToString j = System_ToString k \<longleftrightarrow> j = k"
  by (rule System_ToString_inj)

text \<open>
  C24. The keys from a key (inclusive) to its \<^verbatim>\<open>PrefixEnd\<close> (exclusive) are exactly those that
  start with its textual form, when the part it advances is not made of \<open>0xff\<close> bytes only.
\<close>

theorem PrefixEnd_range:
  assumes "not_max (last_part k)"
  shows "ToString k \<le> s \<and> s < ToString (PrefixEnd k) \<longleftrightarrow> HasPrefix s (ToString k)"
  by (rule PrefixEnd_prefix [OF assms])

theorem PrefixEnd_range_witness:
  "let k = \<lparr>dk_CollectionID = ''1'', dk_InstanceType = ''v'', dk_DocKey = ''bae'', dk_FieldId = []\<rparr>
   in ''/1/v/bae/2'' < ToString (PrefixEnd k) \<and> ToString k \<le> ''/1/v/bae/2''"
  using PrefixEnd_range
    [of "\<lparr>dk_CollectionID = ''1'', dk_InstanceType = ''v'', dk_DocKey = ''bae'', dk_FieldId = []\<rparr>"
        "''/1/v/bae/2''"]
  by (simp add: not_max_def last_part_def HasPrefix_def ToString_def add_part_def byte_of_char_def)

text \<open>
  C33. A field key built from a 32-bit field id (the decimal form the collection writes) yields that
  id from \<^verbatim>\<open>FieldID\<close>.
\<close>

theorem FieldID_round_trip: "FieldID (WithFieldId k (format_uint (unat (i :: u32)))) = Inr i"
proof -
  have "unat i < 2 ^ LENGTH(32)"
    by (rule unsigned_less)
  then have "unat i < 2 ^ 63" by simp
  then show ?thesis
    by (simp add: FieldID_def WithFieldId_def atoi_format_uint)
qed

end
