(* ===== verification/Stores.thy ===== *)
theory Stores
  imports Keys
begin

text \<open>
  The key-value store interface \<^verbatim>\<open>datastore.DSReaderWriter\<close> (\<^verbatim>\<open>datastore/store.go\<close>) through
  which the CRDTs, the Merkle clock and the system catalogue reach their data. As a Go interface
  value carries its methods, a store is a record of operations over a state \<open>'s\<close>. The locale
  \<open>kv_store\<close> is the contract a client relies on: the operations act on a partial function from keys
  to values, the store's \<open>view\<close>, as long as the state is usable (\<open>ok\<close>).
\<close>

section \<open>Queries and the interface\<close>

text \<open>The fields of \<^verbatim>\<open>dsq.Query\<close> and \<^verbatim>\<open>dsq.Entry\<close> that the sources set and read.\<close>

record Query =
  q_Prefix :: string
  q_KeysOnly :: bool

record Entry =
  e_Key :: string
  e_Value :: bytes
  e_Size :: nat

record 's DSReaderWriter =
  ds_Get :: "string \<Rightarrow> ('s, bytes) act"
  ds_Has :: "string \<Rightarrow> ('s, bool) act"
  ds_GetSize :: "string \<Rightarrow> ('s, nat) act"
  ds_Put :: "string \<Rightarrow> bytes \<Rightarrow> ('s, unit) act"
  ds_Delete :: "string \<Rightarrow> ('s, unit) act"
  ds_Query :: "Query \<Rightarrow> ('s, Entry list) act"

text \<open>
  A datastore key as \<^verbatim>\<open>ds.NewKey\<close> leaves it: a slash before every part and no part that path
  cleaning would remove. The root key \<^verbatim>\<open>/\<close> is not among them.
\<close>

definition clean_part :: "string \<Rightarrow> bool" where
  "clean_part p \<longleftrightarrow> key_part p \<and> p \<noteq> ''.'' \<and> p \<noteq> ''..''"

definition clean_key :: "string \<Rightarrow> bool" where
  "clean_key s \<longleftrightarrow>
     (case split_on (CHR ''/'') s of
        r # p # q \<Rightarrow> r = [] \<and> list_all clean_part (p # q)
      | _ \<Rightarrow> False)"

text \<open>
  What the sources rely on of the datastore package: \<^verbatim>\<open>ds.NewKey\<close> leaves a clean key as it is
  and turns the empty string into the root key; \<^verbatim>\<open>dsq.NaiveQueryApply\<close> keeps, for a clean
  prefix, the entries strictly below that prefix, in order, and for the zero query all of them.
\<close>

definition newkey_laws :: "(string \<Rightarrow> string) \<Rightarrow> bool" where
  "newkey_laws NewKey \<longleftrightarrow> (\<forall>s. clean_key s \<longrightarrow> NewKey s = s) \<and> NewKey [] = ''/''"

definition below :: "string \<Rightarrow> string \<Rightarrow> bool" where
  "below p k \<longleftrightarrow> HasPrefix k (p @ ''/'')"

definition query_laws :: "(Query \<Rightarrow> Entry list \<Rightarrow> Entry list) \<Rightarrow> bool" where
  "query_laws NaiveQueryApply \<longleftrightarrow>
     (\<forall>q es. clean_key (q_Prefix q) \<longrightarrow>
        NaiveQueryApply q es = filter (\<lambda>e. below (q_Prefix q) (e_Key e)) es) \<and>
     (\<forall>es. NaiveQueryApply \<lparr>q_Prefix = [], q_KeysOnly = False\<rparr> es = es)"

lemma clean_key_iff:
  "clean_key s \<longleftrightarrow> (\<exists>p q. split_on (CHR ''/'') s = [] # p # q \<and> (\<forall>x \<in> set (p # q). clean_part x))"
  by (auto simp: clean_key_def list_all_iff split: list.splits)

lemma clean_key_ne: "clean_key k \<Longrightarrow> k \<noteq> []"
  unfolding clean_key_iff by (cases k) simp_all

lemma clean_key_not_root: "clean_key k \<Longrightarrow> k \<noteq> ''/''"
proof
  assume "clean_key k" and "k = ''/''"
  then obtain p q where "[[], []] = [] # p # q" and "clean_part p"
    by (simp add: clean_key_iff)
  then show False
    by (simp add: clean_part_def key_part_def)
qed

lemma NewKey_clean: "newkey_laws NewKey \<Longrightarrow> clean_key k \<Longrightarrow> NewKey k = k"
  by (simp add: newkey_laws_def)

lemma split_on_parts:
  "key_part p \<Longrightarrow> split_on (CHR ''/'') (p @ CHR ''/'' # t) = p # split_on (CHR ''/'') t"
  by (simp add: key_part_def)

lemma split_on_append: "split_on c (s @ c # t) = split_on c s @ split_on c t"
proof (induction s)
  case (Cons a s)
  then show ?case by (cases "split_on c s") auto
qed simp

lemma clean_key_slash: "clean_key k \<Longrightarrow> \<exists>t. k = CHR ''/'' # t"
  by (cases k) (auto simp: clean_key_iff split: if_splits list.splits)

lemma clean_key_append:
  assumes "clean_key p"
  shows "clean_key (p @ CHR ''/'' # t) \<longleftrightarrow> clean_key (CHR ''/'' # t)"
proof -
  obtain a q where "split_on (CHR ''/'') p = [] # a # q" "list_all clean_part (a # q)"
    using assms by (auto simp: clean_key_iff list_all_iff)
  then have "clean_key (p @ CHR ''/'' # t) \<longleftrightarrow> list_all clean_part (split_on (CHR ''/'') t)"
    by (simp add: clean_key_def split_on_append)
  then show ?thesis by (cases "split_on (CHR ''/'') t") (auto simp: clean_key_def)
qed

lemma clean_key_concat: "clean_key p \<Longrightarrow> clean_key k \<Longrightarrow> clean_key (p @ k)"
  using clean_key_slash clean_key_append by blast

lemma clean_key_Cons:
  "clean_part p \<Longrightarrow> clean_key (CHR ''/'' # p)"
  "clean_part p \<Longrightarrow> clean_key t \<Longrightarrow> clean_key (CHR ''/'' # p @ t)"
proof -
  assume p: "clean_part p"
  then show "clean_key (CHR ''/'' # p)"
    by (auto simp: clean_key_iff clean_part_def key_part_def)
  assume "clean_key t"
  then obtain x y where *: "split_on (CHR ''/'') t = [] # x # y" "\<forall>z \<in> set (x # y). clean_part z"
    by (auto simp: clean_key_iff)
  from * obtain t' where t: "t = CHR ''/'' # t'" "split_on (CHR ''/'') t' = x # y"
    by (cases t) (auto split: if_splits list.splits)
  with p * have "split_on (CHR ''/'') (CHR ''/'' # p @ t) = [] # p # x # y"
    by (simp add: clean_part_def key_part_def)
  with p * show "clean_key (CHR ''/'' # p @ t)"
    unfolding clean_key_iff by (intro exI [of _ p] exI [of _ "x # y"]) simp
qed

section \<open>The contract\<close>

locale kv_store =
  fixes D :: "'s DSReaderWriter"
    and view :: "'s \<Rightarrow> string \<Rightarrow> bytes option"
    and ok :: "'s \<Rightarrow> bool"
  assumes Get: "ok s \<Longrightarrow> clean_key k \<Longrightarrow>
      \<exists>s'. ds_Get D k s = ((case view s k of None \<Rightarrow> Inl ErrNotFound | Some v \<Rightarrow> Inr v), s') \<and>
        ok s' \<and> view s' = view s"
    and Has: "ok s \<Longrightarrow> clean_key k \<Longrightarrow>
      \<exists>s'. ds_Has D k s = (Inr (view s k \<noteq> None), s') \<and> ok s' \<and> view s' = view s"
    and GetSize: "ok s \<Longrightarrow> clean_key k \<Longrightarrow>
      \<exists>s'. ds_GetSize D k s = ((case view s k of None \<Rightarrow> Inl ErrNotFound | Some v \<Rightarrow> Inr (length v)), s') \<and>
        ok s' \<and> view s' = view s"
    and Put: "ok s \<Longrightarrow> clean_key k \<Longrightarrow>
      \<exists>s'. ds_Put D k v s = (Inr (), s') \<and> ok s' \<and> view s' = (view s)(k \<mapsto> v)"
    and Delete: "ok s \<Longrightarrow> clean_key k \<Longrightarrow>
      \<exists>s'. ds_Delete D k s = (Inr (), s') \<and> ok s' \<and> view s' = (view s)(k := None)"
    and Query: "ok s \<Longrightarrow> clean_key p \<Longrightarrow>
      \<exists>es s'. ds_Query D \<lparr>q_Prefix = p, q_KeysOnly = False\<rparr> s = (Inr es, s') \<and>
        ok s' \<and> view s' = view s \<and> distinct (map e_Key es) \<and>
        (\<forall>k v. (k, v) \<in> set (map (\<lambda>e. (e_Key e, e_Value e)) es) \<longleftrightarrow> view s k = Some v \<and> below p k)"
    and Clean: "ok s \<Longrightarrow> view s k = Some v \<Longrightarrow> clean_key k"
begin

text \<open>The laws as rules that step an action: the client proofs run a store action by rewriting.\<close>

lemma GetE:
  assumes "ok s" and "clean_key k"
  obtains s' where "ds_Get D k s = ((case view s k of None \<Rightarrow> Inl ErrNotFound | Some v \<Rightarrow> Inr v), s')"
    and "ok s'" and "view s' = view s"
  using Get [OF assms] by blast

lemma HasE:
  assumes "ok s" and "clean_key k"
  obtains s' where "ds_Has D k s = (Inr (view s k \<noteq> None), s')" and "ok s'" and "view s' = view s"
  using Has [OF assms] by blast

lemma PutE:
  assumes "ok s" and "clean_key k"
  obtains s' where "ds_Put D k v s = (Inr (), s')" and "ok s'" and "view s' = (view s)(k \<mapsto> v)"
  using Put [OF assms] by blast

lemma DeleteE:
  assumes "ok s" and "clean_key k"
  obtains s' where "ds_Delete D k s = (Inr (), s')" and "ok s'" and "view s' = (view s)(k := None)"
  using Delete [OF assms] by blast

end

end
