(* ===== verification/Crdt.thy ===== *)
theory Crdt
  imports Stores
begin

text \<open>
  The replicated data types of \<^verbatim>\<open>core/crdt\<close>: the last-writer-wins register of a field and the
  composite of a document, both kept in a key-value store. A delta of a register carries a priority
  and a value; merging keeps the greater pair. Merging a composite delta marks the document as
  existing or deleted; a deletion moves the values of the document's fields to their deleted keys.
\<close>

section \<open>Deltas\<close>

record LWWRegDelta =
  lw_SchemaVersionID :: string
  lw_Priority :: u64
  lw_Data :: bytes
  lw_DocKey :: bytes
  lw_FieldName :: string

record 'c DAGLink =
  dl_Name :: string
  dl_Cid :: 'c

text \<open>A \<^verbatim>\<open>client.DocumentStatus\<close> is a byte; its zero value is neither of the named ones.\<close>

type_synonym DocumentStatus = byte

definition Active :: DocumentStatus where
  "Active = 1"

definition Deleted :: DocumentStatus where
  "Deleted = 2"

definition IsDeleted :: "DocumentStatus \<Rightarrow> bool" where
  "IsDeleted s \<longleftrightarrow> s > 1"

record 'c CompositeDAGDelta =
  cd_SchemaVersionID :: string
  cd_Priority :: u64
  cd_Data :: bytes
  cd_DocKey :: bytes
  cd_SubDAGs :: "'c DAGLink list"
  cd_Status :: DocumentStatus
  cd_FieldName :: string

text \<open>The deltas that implement \<^verbatim>\<open>core.Delta\<close>.\<close>

datatype 'c Delta = LWWDelta LWWRegDelta | CompositeDelta "'c CompositeDAGDelta"

fun GetPriority :: "'c Delta \<Rightarrow> u64" where
  "GetPriority (LWWDelta d) = lw_Priority d"
| "GetPriority (CompositeDelta d) = cd_Priority d"

fun SetPriority :: "u64 \<Rightarrow> 'c Delta \<Rightarrow> 'c Delta" where
  "SetPriority prio (LWWDelta d) = LWWDelta (d\<lparr>lw_Priority := prio\<rparr>)"
| "SetPriority prio (CompositeDelta d) = CompositeDelta (d\<lparr>cd_Priority := prio\<rparr>)"

fun Delta_Value :: "'c Delta \<Rightarrow> bytes" where
  "Delta_Value (LWWDelta d) = lw_Data d"
| "Delta_Value (CompositeDelta d) = cd_Data d"

text \<open>
  The CBOR codec is third-party: its encoder and decoder for the two structs the deltas are written
  as, which for a composite leaves the links out.
\<close>

record CompositeWire =
  cw_SchemaVersionID :: string
  cw_Priority :: u64
  cw_Data :: bytes
  cw_DocKey :: bytes
  cw_Status :: byte
  cw_FieldName :: string

record codec_ops =
  enc_lww :: "LWWRegDelta \<Rightarrow> error + bytes"
  dec_lww :: "bytes \<Rightarrow> error + LWWRegDelta"
  enc_comp :: "CompositeWire \<Rightarrow> error + bytes"
  dec_comp :: "bytes \<Rightarrow> error + CompositeWire"

definition codec_laws :: "codec_ops \<Rightarrow> bool" where
  "codec_laws K \<longleftrightarrow> (\<forall>x. \<exists>b. enc_lww K x = Inr b \<and> dec_lww K b = Inr x) \<and>
     (\<forall>x. \<exists>b. enc_comp K x = Inr b \<and> dec_comp K b = Inr x)"

fun Marshal :: "codec_ops \<Rightarrow> 'c Delta \<Rightarrow> error + bytes" where
  "Marshal K (LWWDelta d) = enc_lww K d"
| "Marshal K (CompositeDelta d) =
     enc_comp K \<lparr>cw_SchemaVersionID = cd_SchemaVersionID d, cw_Priority = cd_Priority d, cw_Data = cd_Data d,
       cw_DocKey = cd_DocKey d, cw_Status = cd_Status d, cw_FieldName = cd_FieldName d\<rparr>"

text \<open>
  The nodes of the Merkle DAG come from the IPLD packages: \<open>'n\<close> is the type of protobuf nodes and
  the operations are those the sources call. A node of another kind is \<open>OtherNode\<close>.
\<close>

record ('c, 'n) dag_ops =
  dag_NodeWithData :: "bytes \<Rightarrow> 'n"
  dag_SetCidBuilder :: "'n \<Rightarrow> error + 'n"
  dag_AddRawLink :: "string \<Rightarrow> 'c \<Rightarrow> 'n \<Rightarrow> error + 'n"
  dag_Data :: "'n \<Rightarrow> bytes"
  dag_Links :: "'n \<Rightarrow> 'c DAGLink list"
  dag_Cid :: "'n \<Rightarrow> 'c"
  dag_RawData :: "'n \<Rightarrow> bytes"

datatype 'n ipld_node = ProtoNode 'n | OtherNode

section \<open>The base of the register\<close>

record 's baseCRDT =
  bc_store :: "'s DSReaderWriter"
  bc_key :: DataStoreKey

definition newBaseCRDT :: "'s DSReaderWriter \<Rightarrow> DataStoreKey \<Rightarrow> 's baseCRDT" where
  "newBaseCRDT store key = \<lparr>bc_store = store, bc_key = key\<rparr>"

definition setPriority :: "(string \<Rightarrow> string) \<Rightarrow> 's baseCRDT \<Rightarrow> DataStoreKey \<Rightarrow> u64 \<Rightarrow> ('s, unit) act" where
  "setPriority NewKey base key priority =
     (let buf = put_uvarint priority
      in if length buf = 0 then fail ErrEncodingPriority
         else ds_Put (bc_store base) (ToDS NewKey (WithPriorityFlag key)) buf)"

definition getPriority :: "(string \<Rightarrow> string) \<Rightarrow> 's baseCRDT \<Rightarrow> DataStoreKey \<Rightarrow> ('s, u64) act" where
  "getPriority NewKey base key =
     atry (ds_Get (bc_store base) (ToDS NewKey (WithPriorityFlag key)))
       (\<lambda>err. if errors_Is err ErrNotFound then ret 0 else fail err)
       (\<lambda>pbuf. case uvarint pbuf of (prio, num) \<Rightarrow> if num \<le> 0 then fail ErrDecodingPriority else ret prio)"

section \<open>The last-writer-wins register\<close>

record 's LWWRegister =
  reg_base :: "'s baseCRDT"
  reg_schemaVersionId :: string
  reg_fieldName :: string

definition NewLWWRegister :: "'s DSReaderWriter \<Rightarrow> string \<Rightarrow> DataStoreKey \<Rightarrow> string \<Rightarrow> 's LWWRegister" where
  "NewLWWRegister store schemaVersionId key fieldName =
     \<lparr>reg_base = newBaseCRDT store key, reg_schemaVersionId = schemaVersionId, reg_fieldName = fieldName\<rparr>"

abbreviation reg_store :: "'s LWWRegister \<Rightarrow> 's DSReaderWriter" where
  "reg_store reg \<equiv> bc_store (reg_base reg)"

abbreviation reg_key :: "'s LWWRegister \<Rightarrow> DataStoreKey" where
  "reg_key reg \<equiv> bc_key (reg_base reg)"

definition Reg_Value :: "(string \<Rightarrow> string) \<Rightarrow> 's LWWRegister \<Rightarrow> ('s, bytes) act" where
  "Reg_Value NewKey reg =
     abind (ds_Get (reg_store reg) (ToDS NewKey (WithValueFlag (reg_key reg))))
       (\<lambda>buf. if buf = [] then fail GoPanic else ret (tl buf))"

definition Reg_Set :: "'s LWWRegister \<Rightarrow> bytes \<Rightarrow> LWWRegDelta" where
  "Reg_Set reg value =
     \<lparr>lw_SchemaVersionID = reg_schemaVersionId reg, lw_Priority = 0, lw_Data = value,
      lw_DocKey = to_bytes (dk_DocKey (reg_key reg)), lw_FieldName = reg_fieldName reg\<rparr>"

definition Reg_ID :: "'s LWWRegister \<Rightarrow> string" where
  "Reg_ID reg = ToString (reg_key reg)"

definition ObjectMarker :: byte where
  "ObjectMarker = 0xff"

definition DeletedObjectMarker :: byte where
  "DeletedObjectMarker = 0xfe"

definition LWW_REGISTER :: byte where
  "LWW_REGISTER = 1"

text \<open>The end of \<^verbatim>\<open>setValue\<close>: the value with its type byte, then the priority.\<close>

definition storeValue :: "(string \<Rightarrow> string) \<Rightarrow> 's LWWRegister \<Rightarrow> DataStoreKey \<Rightarrow> bytes \<Rightarrow> u64 \<Rightarrow> ('s, unit) act" where
  "storeValue NewKey reg key val priority =
     atry (ds_Put (reg_store reg) (ToDS NewKey key) (LWW_REGISTER # val))
       (\<lambda>err. fail (Wrapped ''failed to store value'' err))
       (\<lambda>_. setPriority NewKey (reg_base reg) (reg_key reg) priority)"

definition setValue_at ::
    "(string \<Rightarrow> string) \<Rightarrow> 's LWWRegister \<Rightarrow> bytes \<Rightarrow> u64 \<Rightarrow> u64 \<Rightarrow> bytes \<Rightarrow> ('s, unit) act" where
  "setValue_at NewKey reg val priority curPrio marker =
     (let valueK = WithValueFlag (reg_key reg);
          key = (if marker = [DeletedObjectMarker] then WithDeletedFlag valueK else valueK);
          compare = (\<lambda>curValue.
            if go_compare (if length curValue > 0 then tl curValue else curValue) val \<ge> 0 then ret ()
            else storeValue NewKey reg key val priority)
      in if priority < curPrio then ret ()
         else if priority = curPrio
           then atry (ds_Get (reg_store reg) (ToDS NewKey key)) (\<lambda>_. compare []) compare
         else storeValue NewKey reg key val priority)"

definition setValue :: "(string \<Rightarrow> string) \<Rightarrow> 's LWWRegister \<Rightarrow> bytes \<Rightarrow> u64 \<Rightarrow> ('s, unit) act" where
  "setValue NewKey reg val priority =
     atry (getPriority NewKey (reg_base reg) (reg_key reg))
       (\<lambda>err. fail (Wrapped ''failed to get priority'' err))
       (\<lambda>curPrio.
          atry (ds_Get (reg_store reg) (Primary_ToDS NewKey (ToPrimaryDataStoreKey (reg_key reg))))
            (\<lambda>err. if \<not> errors_Is err ErrNotFound then fail err
                   else setValue_at NewKey reg val priority curPrio [])
            (\<lambda>marker. setValue_at NewKey reg val priority curPrio marker))"

definition Reg_Merge :: "(string \<Rightarrow> string) \<Rightarrow> 's LWWRegister \<Rightarrow> 'c Delta \<Rightarrow> ('s, unit) act" where
  "Reg_Merge NewKey reg delta =
     (case delta of
        LWWDelta d \<Rightarrow> setValue NewKey reg (lw_Data d) (lw_Priority d)
      | _ \<Rightarrow> fail ErrMismatchedMergeType)"

definition Reg_DeltaDecode :: "codec_ops \<Rightarrow> ('c, 'n) dag_ops \<Rightarrow> 'n ipld_node \<Rightarrow> error + 'c Delta" where
  "Reg_DeltaDecode K G node =
     (case node of
        OtherNode \<Rightarrow> Inl (ErrNamed ''unexpected type'')
      | ProtoNode n \<Rightarrow> (case dec_lww K (dag_Data G n) of Inl err \<Rightarrow> Inl err | Inr d \<Rightarrow> Inr (LWWDelta d)))"

section \<open>The composite\<close>

record 's CompositeDAG =
  comp_store :: "'s DSReaderWriter"
  comp_key :: DataStoreKey
  comp_schemaVersionId :: string
  comp_fieldName :: string

definition NewCompositeDAG :: "'s DSReaderWriter \<Rightarrow> string \<Rightarrow> DataStoreKey \<Rightarrow> string \<Rightarrow> 's CompositeDAG" where
  "NewCompositeDAG store schemaVersionId key fieldName =
     \<lparr>comp_store = store, comp_key = key, comp_schemaVersionId = schemaVersionId, comp_fieldName = fieldName\<rparr>"

definition Comp_ID :: "'s CompositeDAG \<Rightarrow> string" where
  "Comp_ID c = ToString (comp_key c)"

definition Comp_Value :: "'s CompositeDAG \<Rightarrow> ('s, bytes) act" where
  "Comp_Value c = ret []"

text \<open>\<^verbatim>\<open>sort.Slice\<close> by the textual form of the CID, as an insertion sort.\<close>

definition Comp_Set :: "'c cid_ops \<Rightarrow> 's CompositeDAG \<Rightarrow> bytes \<Rightarrow> 'c DAGLink list \<Rightarrow> 'c CompositeDAGDelta" where
  "Comp_Set C c patch links =
     \<lparr>cd_SchemaVersionID = comp_schemaVersionId c, cd_Priority = 0, cd_Data = patch,
      cd_DocKey = to_bytes (dk_DocKey (comp_key c)),
      cd_SubDAGs = sort_key (\<lambda>l. cid_String C (dl_Cid l)) links, cd_Status = 0,
      cd_FieldName = comp_fieldName c\<rparr>"

text \<open>The loop of \<^verbatim>\<open>deleteWithPrefix\<close> over the entries of the query.\<close>

fun delete_entries :: "(string \<Rightarrow> string) \<Rightarrow> 's CompositeDAG \<Rightarrow> Entry list \<Rightarrow> ('s, unit) act" where
  "delete_entries NewKey c [] = ret ()"
| "delete_entries NewKey c (e # es) =
     (case NewDataStoreKey (e_Key e) of
        Inl err \<Rightarrow> fail err
      | Inr dsKey \<Rightarrow>
          abind (if dk_InstanceType dsKey = ValueKey
                 then ds_Put (comp_store c) (ToDS NewKey (WithDeletedFlag dsKey)) (e_Value e) else ret ())
            (\<lambda>_. abind (ds_Delete (comp_store c) (ToDS NewKey dsKey))
              (\<lambda>_. delete_entries NewKey c es)))"

definition deleteWithPrefix :: "(string \<Rightarrow> string) \<Rightarrow> 's CompositeDAG \<Rightarrow> DataStoreKey \<Rightarrow> ('s, unit) act" where
  "deleteWithPrefix NewKey c key =
     (let entries =
        atry (ds_Query (comp_store c) \<lparr>q_Prefix = ToString key, q_KeysOnly = False\<rparr>)
          (\<lambda>_. fail GoPanic) (delete_entries NewKey c)
      in atry (ds_Get (comp_store c) (ToDS NewKey key))
           (\<lambda>err. if \<not> errors_Is err ErrNotFound then fail err else entries)
           (\<lambda>val. abind (ds_Put (comp_store c) (ToDS NewKey (WithDeletedFlag (comp_key c))) val)
              (\<lambda>_. abind (ds_Delete (comp_store c) (ToDS NewKey key)) (\<lambda>_. entries))))"

definition Comp_Merge :: "(string \<Rightarrow> string) \<Rightarrow> 's CompositeDAG \<Rightarrow> 'c Delta \<Rightarrow> ('s, unit) act" where
  "Comp_Merge NewKey c delta =
     (let primary = Primary_ToDS NewKey (ToPrimaryDataStoreKey (comp_key c));
          ensure = abind (ds_Has (comp_store c) primary)
            (\<lambda>exists. if \<not> exists then ds_Put (comp_store c) primary [ObjectMarker] else ret ())
      in case delta of
           CompositeDelta d \<Rightarrow>
             if IsDeleted (cd_Status d) then
               abind (ds_Put (comp_store c) primary [DeletedObjectMarker])
                 (\<lambda>_. deleteWithPrefix NewKey c (WithFieldId (WithValueFlag (comp_key c)) []))
             else ensure
         | LWWDelta _ \<Rightarrow> ensure)"

definition Comp_DeltaDecode :: "codec_ops \<Rightarrow> ('c, 'n) dag_ops \<Rightarrow> 'n ipld_node \<Rightarrow> error + 'c Delta" where
  "Comp_DeltaDecode K G node =
     (case node of
        OtherNode \<Rightarrow> Inl (ErrNamed ''unexpected type'')
      | ProtoNode n \<Rightarrow>
          (case dec_comp K (dag_Data G n) of
             Inl err \<Rightarrow> Inl err
           | Inr w \<Rightarrow>
               Inr (CompositeDelta
                 \<lparr>cd_SchemaVersionID = cw_SchemaVersionID w, cd_Priority = cw_Priority w, cd_Data = cw_Data w,
                  cd_DocKey = cw_DocKey w,
                  cd_SubDAGs = filter (\<lambda>link. dl_Name link \<noteq> ''head'') (dag_Links G n),
                  cd_Status = cw_Status w, cd_FieldName = cw_FieldName w\<rparr>)))"

end
