(* ===== verification/Document.thy ===== *)
theory Document
  imports Crdt "HOL-Library.Product_Lexorder"
begin

text \<open>
  A document on a store: the keys it occupies, the abstract document its readers see, and the proof
  that the register's and the composite's merges, run on any store that keeps the contract
  \<open>kv_store\<close>, refine operations on the abstract document that commute and are idempotent.
\<close>

section \<open>The keys of a document\<close>

definition ikey :: "DataStoreKey \<Rightarrow> string \<Rightarrow> string \<Rightarrow> string" where
  "ikey k i f = ToString (k\<lparr>dk_InstanceType := i, dk_FieldId := f\<rparr>)"

abbreviation vkey :: "DataStoreKey \<Rightarrow> string \<Rightarrow> string" where "vkey k \<equiv> ikey k ValueKey"
abbreviation pkey :: "DataStoreKey \<Rightarrow> string \<Rightarrow> string" where "pkey k \<equiv> ikey k PriorityKey"
abbreviation dkey :: "DataStoreKey \<Rightarrow> string \<Rightarrow> string" where "dkey k \<equiv> ikey k DeletedKey"

definition mkey :: "DataStoreKey \<Rightarrow> string" where
  "mkey k = Primary_ToString (ToPrimaryDataStoreKey k)"

definition doc_wf :: "DataStoreKey \<Rightarrow> bool" where
  "doc_wf k \<longleftrightarrow> clean_part (dk_CollectionID k) \<and> clean_part (dk_DocKey k)"

lemma clean_partD: "clean_part p \<Longrightarrow> p \<noteq> []" "clean_part p \<Longrightarrow> CHR ''/'' \<notin> set p" "clean_part p \<Longrightarrow> key_part p"
  by (simp_all add: clean_part_def key_part_def)

lemma ikey_parts:
  "doc_wf k \<Longrightarrow> clean_part i \<Longrightarrow>
     ikey k i f = ''/'' @ dk_CollectionID k @ ''/'' @ i @ ''/'' @ dk_DocKey k @ (if f = [] then [] else ''/'' @ f)"
  by (auto simp: ikey_def ToString_def add_part_def doc_wf_def dest: clean_partD)

lemma mkey_ikey: "doc_wf k \<Longrightarrow> mkey k = ikey k ''pk'' []"
  by (auto simp: ikey_def mkey_def ToString_def Primary_ToString_def ToPrimaryDataStoreKey_def PRIMARY_KEY_def
      add_part_def doc_wf_def dest: clean_partD)

lemma clean_instances [simp]: "clean_part ValueKey" "clean_part PriorityKey" "clean_part DeletedKey" "clean_part ''pk''"
  by (simp_all add: clean_part_def key_part_def instance_defs)

lemma ikey_clean: "doc_wf k \<Longrightarrow> clean_part i \<Longrightarrow> f = [] \<or> clean_part f \<Longrightarrow> clean_key (ikey k i f)"
  by (auto simp: ikey_parts doc_wf_def intro!: clean_key_Cons(2) intro: clean_key_Cons(1))

lemma ikey_wf: "doc_wf k \<Longrightarrow> clean_part i \<Longrightarrow> f = [] \<or> clean_part f \<Longrightarrow> wf_key (k\<lparr>dk_InstanceType := i, dk_FieldId := f\<rparr>)"
  by (auto simp: wf_key_def doc_wf_def clean_part_def key_part_def)

lemma ikey_inj:
  assumes "doc_wf k" and "clean_part i" and "clean_part i'" and "f = [] \<or> clean_part f" and "f' = [] \<or> clean_part f'"
  shows "ikey k i f = ikey k i' f' \<longleftrightarrow> i = i' \<and> f = f'"
  using ToString_inj [OF ikey_wf [OF assms(1,2,4)] ikey_wf [OF assms(1,3,5)]]
  by (cases k) (auto simp: ikey_def)

lemma ikey_parse:
  "doc_wf k \<Longrightarrow> clean_part i \<Longrightarrow> f = [] \<or> clean_part f \<Longrightarrow>
     NewDataStoreKey (ikey k i f) = Inr (k\<lparr>dk_InstanceType := i, dk_FieldId := f\<rparr>)"
  unfolding ikey_def by (intro parse_print ikey_wf)

lemma ikey_below: "doc_wf k \<Longrightarrow> clean_part i \<Longrightarrow> clean_part f \<Longrightarrow> below (ikey k i []) (ikey k i f)"
  by (auto simp: ikey_parts below_def HasPrefix_iff dest: clean_partD)

lemma below_ikey:
  assumes "doc_wf k" and "clean_part i" and "clean_part j" and "f = [] \<or> clean_part f" and "below (ikey k i []) (ikey k j f)"
  shows "i = j \<and> f \<noteq> []"
proof -
  have s: "split_on (CHR ''/'') (p @ CHR ''/'' # t) = p # split_on (CHR ''/'') t" if "clean_part p" for p t
    using clean_partD(2) [OF that] by simp
  obtain r where "ikey k j f = ikey k i [] @ ''/'' @ r" using assms(5) by (auto simp: below_def HasPrefix_iff)
  then have "split_on (CHR ''/'') (ikey k j f) = split_on (CHR ''/'') (ikey k i [] @ ''/'' @ r)" by simp
  then show ?thesis
    using assms(1-4) clean_partD(2) [of "dk_DocKey k"] 
    by (auto simp: ikey_parts doc_wf_def s not_sym [OF split_on_ne] split: if_splits)
qed

lemma instances_distinct [simp]:
  "ValueKey \<noteq> PriorityKey" "ValueKey \<noteq> DeletedKey" "PriorityKey \<noteq> ValueKey" "PriorityKey \<noteq> DeletedKey"
  "DeletedKey \<noteq> ValueKey" "DeletedKey \<noteq> PriorityKey"
  "ValueKey \<noteq> ''pk''" "PriorityKey \<noteq> ''pk''" "DeletedKey \<noteq> ''pk''" "''pk'' \<noteq> ValueKey" "''pk'' \<noteq> PriorityKey" "''pk'' \<noteq> DeletedKey"
  by (simp_all add: instance_defs)

section \<open>The abstract document\<close>

text \<open>
  A document as its readers see it: its marker and, for every field, the priority and value of the
  register. The value of a field of a deleted document is at the field's deleted key.
\<close>

type_synonym adoc = "bytes option \<times> (string \<Rightarrow> u64 \<times> bytes)"

definition marked_deleted :: "DataStoreKey \<Rightarrow> (string \<Rightarrow> bytes option) \<Rightarrow> bool" where
  "marked_deleted k w \<longleftrightarrow> w (mkey k) = Some [DeletedObjectMarker]"

definition tkey :: "DataStoreKey \<Rightarrow> (string \<Rightarrow> bytes option) \<Rightarrow> string \<Rightarrow> string" where
  "tkey k w f = (if marked_deleted k w then dkey k f else vkey k f)"

definition stored_prio :: "DataStoreKey \<Rightarrow> (string \<Rightarrow> bytes option) \<Rightarrow> string \<Rightarrow> u64" where
  "stored_prio k w f = (case w (pkey k f) of None \<Rightarrow> 0 | Some b \<Rightarrow> fst (uvarint b))"

definition stored_value :: "DataStoreKey \<Rightarrow> (string \<Rightarrow> bytes option) \<Rightarrow> string \<Rightarrow> bytes" where
  "stored_value k w f = (case w (tkey k w f) of None \<Rightarrow> [] | Some b \<Rightarrow> tl b)"

definition abs_doc :: "DataStoreKey \<Rightarrow> (string \<Rightarrow> bytes option) \<Rightarrow> adoc" where
  "abs_doc k w = (w (mkey k), \<lambda>f. if clean_part f then (stored_prio k w f, stored_value k w f) else (0, []))"

definition doc_inv :: "DataStoreKey \<Rightarrow> (string \<Rightarrow> bytes option) \<Rightarrow> bool" where
  "doc_inv k w \<longleftrightarrow>
     (\<forall>f b. clean_part f \<longrightarrow> w (pkey k f) = Some b \<longrightarrow> snd (uvarint b) > 0) \<and>
     w (mkey k) \<in> {None, Some [ObjectMarker], Some [DeletedObjectMarker]} \<and>
     w (vkey k []) = None \<and>
     (\<forall>x. below (vkey k []) x \<longrightarrow> w x \<noteq> None \<longrightarrow> (\<exists>f. clean_part f \<and> x = vkey k f)) \<and>
     (\<forall>f. clean_part f \<longrightarrow> w ((if marked_deleted k w then vkey else dkey) k f) = None)"

definition lww :: "u64 \<times> bytes \<Rightarrow> u64 \<times> bytes \<Rightarrow> u64 \<times> bytes" where
  "lww cur new = (if fst new < fst cur \<or> fst new = fst cur \<and> snd new \<le> snd cur then cur else new)"

datatype 'c doc_op = FieldDelta string LWWRegDelta | DocDelta "'c CompositeDAGDelta"

fun apply_op :: "'c doc_op \<Rightarrow> adoc \<Rightarrow> adoc" where
  "apply_op (FieldDelta f d) (m, fs) = (m, fs(f := lww (fs f) (lw_Priority d, lw_Data d)))"
| "apply_op (DocDelta c) (m, fs) =
     (if IsDeleted (cd_Status c) then Some [DeletedObjectMarker]
      else case m of None \<Rightarrow> Some [ObjectMarker] | Some b \<Rightarrow> Some b, fs)"

text \<open>The same operations as the sources perform them on a store.\<close>

fun run_op :: "(string \<Rightarrow> string) \<Rightarrow> 's DSReaderWriter \<Rightarrow> DataStoreKey \<Rightarrow> string \<Rightarrow> 'c doc_op \<Rightarrow> ('s, unit) act" where
  "run_op NewKey D k sv (FieldDelta f d) =
     Reg_Merge NewKey (NewLWWRegister D sv (WithFieldId k f) (lw_FieldName d)) (LWWDelta d :: 'c Delta)"
| "run_op NewKey D k sv (DocDelta c) = Comp_Merge NewKey (NewCompositeDAG D sv k (cd_FieldName c)) (CompositeDelta c)"

fun run_ops :: "(string \<Rightarrow> string) \<Rightarrow> 's DSReaderWriter \<Rightarrow> DataStoreKey \<Rightarrow> string \<Rightarrow> 'c doc_op list \<Rightarrow> ('s, unit) act" where
  "run_ops NewKey D k sv [] = ret ()"
| "run_ops NewKey D k sv (op # ops) = abind (run_op NewKey D k sv op) (\<lambda>_. run_ops NewKey D k sv ops)"

fun op_clean :: "'c doc_op \<Rightarrow> bool" where
  "op_clean (FieldDelta f d) \<longleftrightarrow> clean_part f"
| "op_clean (DocDelta c) \<longleftrightarrow> True"


section \<open>Merging a field delta\<close>

lemma abs_doc_field:
  "clean_part f \<Longrightarrow> snd (abs_doc k w) f = (stored_prio k w f, stored_value k w f)"
  by (simp add: abs_doc_def)

text \<open>What a successful write of a field does to the store's contents.\<close>

definition write_field :: "DataStoreKey \<Rightarrow> (string \<Rightarrow> bytes option) \<Rightarrow> string \<Rightarrow> u64 \<times> bytes \<Rightarrow> string \<Rightarrow> bytes option" where
  "write_field k w f pv = w(tkey k w f \<mapsto> LWW_REGISTER # snd pv, pkey k f \<mapsto> put_uvarint (fst pv))"

definition merge_field :: "DataStoreKey \<Rightarrow> (string \<Rightarrow> bytes option) \<Rightarrow> string \<Rightarrow> u64 \<times> bytes \<Rightarrow> string \<Rightarrow> bytes option" where
  "merge_field k w f pv =
     (if lww (stored_prio k w f, stored_value k w f) pv = (stored_prio k w f, stored_value k w f) then w
      else write_field k w f pv)"

lemma tkey_cases: "tkey k w f = vkey k f \<or> tkey k w f = dkey k f"
  by (simp add: tkey_def)

lemma doc_keys_distinct:
  assumes "doc_wf k" and "clean_part f" and "clean_part g"
  shows "tkey k w f \<noteq> pkey k g" "pkey k g \<noteq> tkey k w f" "tkey k w f \<noteq> mkey k" "mkey k \<noteq> tkey k w f"
    "pkey k f \<noteq> mkey k" "mkey k \<noteq> pkey k f"
    "vkey k f = vkey k g \<longleftrightarrow> f = g" "dkey k f = dkey k g \<longleftrightarrow> f = g" "pkey k f = pkey k g \<longleftrightarrow> f = g"
    "vkey k f \<noteq> dkey k g" "dkey k f \<noteq> vkey k g" "vkey k f \<noteq> vkey k []" "dkey k f \<noteq> vkey k []" "pkey k f \<noteq> vkey k []"
    "vkey k f \<noteq> pkey k g" "dkey k f \<noteq> pkey k g" "pkey k f \<noteq> vkey k g" "pkey k f \<noteq> dkey k g"
    "vkey k f \<noteq> mkey k" "dkey k f \<noteq> mkey k" "mkey k \<noteq> vkey k []"
  using assms by (auto simp: tkey_def mkey_ikey ikey_inj dest: clean_partD(1))

lemma write_field_inv:
  assumes k: "doc_wf k" and f: "clean_part f" and inv: "doc_inv k w"
  shows "doc_inv k (write_field k w f pv)"
    and "abs_doc k (write_field k w f pv) = (fst (abs_doc k w), (snd (abs_doc k w))(f := pv))"
proof -
  let ?w = "write_field k w f pv"
  note D = doc_keys_distinct [OF k]
  have m: "?w (mkey k) = w (mkey k)" using D(3-6) [OF f f] by (simp add: write_field_def)
  then have del: "marked_deleted k ?w = marked_deleted k w" and t: "tkey k ?w g = tkey k w g" for g
    by (simp_all add: marked_deleted_def tkey_def)
  have prio: "?w (pkey k g) = (if g = f then Some (put_uvarint (fst pv)) else w (pkey k g))" if "clean_part g" for g
    using D(1,2,9) [OF f that] D(9) [OF that f] by (auto simp: write_field_def)
  have val: "?w (tkey k w g) = (if g = f then Some (LWW_REGISTER # snd pv) else w (tkey k w g))" if "clean_part g" for g
    using D(1,2,7,8) [OF f that] D(1,2,7,8) [OF that f] D(1,2) [OF f f] by (auto simp: write_field_def tkey_def)
  show "abs_doc k ?w = (fst (abs_doc k w), (snd (abs_doc k w))(f := pv))"
    using m prio val f uvarint_put_uvarint [of "fst pv" "[]"]
    by (auto simp: abs_doc_def stored_prio_def stored_value_def t fun_eq_iff)
  have other: "?w ((if marked_deleted k w then vkey else dkey) k g) = None" if "clean_part g" for g
    using D [OF f that] D [OF that f] D [OF f f] inv that by (auto simp: write_field_def tkey_def doc_inv_def)
  have "\<exists>g. clean_part g \<and> x = vkey k g" if "below (vkey k []) x" "?w x \<noteq> None" for x
  proof -
    have "x \<noteq> pkey k f" "x \<noteq> dkey k f"
      using that(1) below_ikey [OF k, of ValueKey PriorityKey f] below_ikey [OF k, of ValueKey DeletedKey f] f by auto
    then have "x = vkey k f \<or> w x \<noteq> None" using that(2) by (auto simp: write_field_def tkey_def split: if_splits)
    then show ?thesis using inv that(1) f by (auto simp: doc_inv_def)
  qed
  moreover have "?w (vkey k []) = w (vkey k [])"
    using D(12,13,14) [OF f f] by (auto simp: write_field_def tkey_def)
  moreover have "0 < snd (uvarint b)" if "clean_part g" "?w (pkey k g) = Some b" for g b
    using that prio inv uvarint_put_uvarint [of "fst pv" "[]"] put_uvarint_ne [of "fst pv"]
    by (auto simp: doc_inv_def split: if_splits)
  ultimately show "doc_inv k ?w"
    using m other inv unfolding doc_inv_def del by simp
qed

lemma merge_field_spec:
  assumes k: "doc_wf k" and f: "clean_part f" and inv: "doc_inv k w"
  shows "doc_inv k (merge_field k w f pv)"
    and "abs_doc k (merge_field k w f pv) = (fst (abs_doc k w), (snd (abs_doc k w))(f := lww (snd (abs_doc k w) f) pv))"
proof -
  define c where "c = (stored_prio k w f, stored_value k w f)"
  have c: "snd (abs_doc k w) f = c" unfolding c_def by (rule abs_doc_field [OF f])
  have merge: "merge_field k w f pv = (if lww c pv = c then w else write_field k w f pv)"
    by (simp add: merge_field_def c_def)
  show "doc_inv k (merge_field k w f pv)" using write_field_inv(1) [OF assms] inv by (simp add: merge)
  show "abs_doc k (merge_field k w f pv) = (fst (abs_doc k w), (snd (abs_doc k w))(f := lww (snd (abs_doc k w) f) pv))"
  proof (cases "lww c pv = c")
    case True
    then show ?thesis by (simp add: merge c fun_upd_idem)
  next
    case False
    then have "lww c pv = pv" by (simp add: lww_def split: if_splits)
    with False show ?thesis by (simp add: merge c write_field_inv(2) [OF assms])
  qed
qed

lemma ToDS_keys:
  assumes "newkey_laws NewKey" and "doc_wf k" and "f = [] \<or> clean_part f"
  shows "ToDS NewKey (WithPriorityFlag (WithFieldId k f)) = pkey k f"
    and "ToDS NewKey (WithValueFlag (WithFieldId k f)) = vkey k f"
    and "ToDS NewKey (WithDeletedFlag (WithValueFlag (WithFieldId k f))) = dkey k f"
    and "Primary_ToDS NewKey (ToPrimaryDataStoreKey (WithFieldId k f)) = mkey k"
    and "Primary_ToDS NewKey (ToPrimaryDataStoreKey k) = mkey k"
proof -
  have "clean_key (ikey k i f)" if "clean_part i" for i using ikey_clean assms(2,3) that by blast
  then have "NewKey (ikey k i f) = ikey k i f" if "clean_part i" for i using NewKey_clean [OF assms(1)] that by blast
  then show "ToDS NewKey (WithPriorityFlag (WithFieldId k f)) = pkey k f"
    "ToDS NewKey (WithValueFlag (WithFieldId k f)) = vkey k f"
    "ToDS NewKey (WithDeletedFlag (WithValueFlag (WithFieldId k f))) = dkey k f"
    by (cases k; simp add: ToDS_def WithPriorityFlag_def WithValueFlag_def WithDeletedFlag_def WithFieldId_def ikey_def)+
  have "clean_key (mkey k)" using ikey_clean [OF assms(2)] by (simp add: mkey_ikey [OF assms(2)])
  then show "Primary_ToDS NewKey (ToPrimaryDataStoreKey k) = mkey k"
    "Primary_ToDS NewKey (ToPrimaryDataStoreKey (WithFieldId k f)) = mkey k"
    using NewKey_clean [OF assms(1)] by (simp_all add: Primary_ToDS_def mkey_def ToPrimaryDataStoreKey_def WithFieldId_def)
qed

text \<open>Values moved from the value keys of a document's fields to their deleted keys.\<close>

definition moved :: "DataStoreKey \<Rightarrow> Entry list \<Rightarrow> (string \<Rightarrow> bytes option) \<Rightarrow> (string \<Rightarrow> bytes option) \<Rightarrow> bool" where
  "moved k es w w' \<longleftrightarrow>
     (\<forall>f. clean_part f \<longrightarrow> w' (vkey k f) = (if vkey k f \<in> e_Key ` set es then None else w (vkey k f)) \<and>
        w' (dkey k f) = (case map_of (map (\<lambda>e. (e_Key e, e_Value e)) es) (vkey k f) of
                           Some v \<Rightarrow> Some v | None \<Rightarrow> w (dkey k f))) \<and>
     (\<forall>x. (\<forall>f. clean_part f \<longrightarrow> x \<noteq> vkey k f \<and> x \<noteq> dkey k f) \<longrightarrow> w' x = w x)"

lemma moved_Cons:
  assumes k: "doc_wf k" and g: "clean_part g" "e_Key e = vkey k g" and new: "vkey k g \<notin> e_Key ` set es"
    and es: "moved k es (w(dkey k g \<mapsto> e_Value e, vkey k g := None)) w'"
  shows "moved k (e # es) w w'"
proof -
  let ?m = "\<lambda>es. map_of (map (\<lambda>e. (e_Key e, e_Value e)) es)"
  have none: "?m es (vkey k g) = None"
    using new by (auto simp: map_of_eq_None_iff comp_def)
  have "w' (vkey k f) = (if vkey k f \<in> e_Key ` set (e # es) then None else w (vkey k f)) \<and>
      w' (dkey k f) = (case ?m (e # es) (vkey k f) of Some v \<Rightarrow> Some v | None \<Rightarrow> w (dkey k f))" if f: "clean_part f" for f
  proof (cases "f = g")
    case True
    with es f g none doc_keys_distinct(10,11) [OF k g(1) g(1)] show ?thesis by (simp add: moved_def)
  next
    case False
    with es f g doc_keys_distinct(7,8,10,11) [OF k f g(1)] show ?thesis
      by (simp add: moved_def split: option.splits)
  qed
  moreover have "w' x = w x" if "\<forall>f. clean_part f \<longrightarrow> x \<noteq> vkey k f \<and> x \<noteq> dkey k f" for x
    using es that g(1) by (auto simp: moved_def)
  ultimately show ?thesis by (simp only: moved_def) blast
qed

text \<open>A whole document moved: what a deletion does to the store's contents.\<close>

definition doc_deleted :: "DataStoreKey \<Rightarrow> (string \<Rightarrow> bytes option) \<Rightarrow> (string \<Rightarrow> bytes option) \<Rightarrow> bool" where
  "doc_deleted k w w' \<longleftrightarrow>
     (\<forall>f. clean_part f \<longrightarrow> w' (vkey k f) = None \<and>
        w' (dkey k f) = (case w (vkey k f) of Some v \<Rightarrow> Some v | None \<Rightarrow> w (dkey k f))) \<and>
     w' (mkey k) = Some [DeletedObjectMarker] \<and>
     (\<forall>x. x \<noteq> mkey k \<longrightarrow> (\<forall>f. clean_part f \<longrightarrow> x \<noteq> vkey k f \<and> x \<noteq> dkey k f) \<longrightarrow> w' x = w x)"

lemma moved_all:
  assumes k: "doc_wf k"
    and es: "\<forall>x v. (x, v) \<in> set (map (\<lambda>e. (e_Key e, e_Value e)) es) \<longleftrightarrow> w x = Some v \<and> below (vkey k []) x"
    and dist: "distinct (map e_Key es)" and mv: "moved k es (w(mkey k \<mapsto> [DeletedObjectMarker])) w'"
  shows "doc_deleted k w w'"
proof -
  let ?m = "map (\<lambda>e. (e_Key e, e_Value e)) es"
  have m: "map_of ?m (vkey k f) = w (vkey k f)" if "clean_part f" for f
  proof (cases "w (vkey k f)")
    case None
    then have "(vkey k f, v) \<notin> set ?m" for v
      unfolding es [rule_format] by simp
    then have "vkey k f \<notin> fst ` set ?m" by (simp only: image_iff) (metis prod.collapse)
    then show ?thesis using None by (metis map_of_eq_None_iff)
  next
    case (Some v)
    then have "(vkey k f, v) \<in> set ?m" using es ikey_below [OF k _ that] by simp
    then show ?thesis using Some dist by (simp add: comp_def map_of_is_SomeI)
  qed
  have dom: "vkey k f \<in> e_Key ` set es \<longleftrightarrow> w (vkey k f) \<noteq> None" if "clean_part f" for f
    using m [OF that] map_of_eq_None_iff [of ?m "vkey k f"] by (auto simp: image_image)
  have "mkey k \<noteq> vkey k f \<and> mkey k \<noteq> dkey k f" if "clean_part f" for f
    using doc_keys_distinct(19,20) [OF k that that] by simp
  then have "w' (mkey k) = Some [DeletedObjectMarker]" using mv by (simp add: moved_def)
  moreover have "w' (vkey k f) = None \<and> w' (dkey k f) = (case w (vkey k f) of Some v \<Rightarrow> Some v | None \<Rightarrow> w (dkey k f))"
    if "clean_part f" for f
    using mv that m [OF that] dom [OF that] doc_keys_distinct(19,20) [OF k that that]
    by (simp add: moved_def split: option.splits)
  moreover have "w' x = w x" if "x \<noteq> mkey k" "\<forall>f. clean_part f \<longrightarrow> x \<noteq> vkey k f \<and> x \<noteq> dkey k f" for x
    using mv that by (simp add: moved_def)
  ultimately show ?thesis by (simp only: doc_deleted_def) blast
qed

lemma doc_deleted_spec:
  assumes k: "doc_wf k" and inv: "doc_inv k w" and del: "doc_deleted k w w'"
  shows "doc_inv k w' \<and> abs_doc k w' = (Some [DeletedObjectMarker], snd (abs_doc k w))"
proof -
  have m: "w' (mkey k) = Some [DeletedObjectMarker]" "marked_deleted k w'"
    using del by (simp_all add: doc_deleted_def marked_deleted_def)
  have p: "w' (pkey k f) = w (pkey k f)" if "clean_part f" for f
    using del doc_keys_distinct [OF k that] that by (simp add: doc_deleted_def)
  have v0: "w' (vkey k []) = w (vkey k [])"
  proof -
    have "vkey k [] \<noteq> mkey k" "clean_part f \<Longrightarrow> vkey k [] \<noteq> vkey k f \<and> vkey k [] \<noteq> dkey k f" for f
      using doc_keys_distinct(12,13) [OF k, of f f] doc_keys_distinct(21) [OF k clean_instances(1) clean_instances(1)] by auto
    then show ?thesis using del by (simp add: doc_deleted_def)
  qed
  have v: "w' (vkey k f) = None" "w' (dkey k f) = (case w (vkey k f) of Some v \<Rightarrow> Some v | None \<Rightarrow> w (dkey k f))"
    if "clean_part f" for f
    using del that by (simp_all add: doc_deleted_def)
  have val: "stored_value k w' f = stored_value k w f" if "clean_part f" for f
    using v [OF that] inv that m(2)
    by (auto simp: stored_value_def tkey_def doc_inv_def split: option.splits)
  have "\<exists>f. clean_part f \<and> x = vkey k f" if "below (vkey k []) x" "w' x \<noteq> None" for x
  proof -
    have "x \<noteq> mkey k" "clean_part f \<Longrightarrow> x \<noteq> dkey k f" for f
      using that(1) below_ikey [OF k, of ValueKey "''pk''" "[]"] below_ikey [OF k, of ValueKey DeletedKey f]
      by (auto simp: mkey_ikey [OF k])
    then have "(\<exists>f. clean_part f \<and> x = vkey k f) \<or> w' x = w x"
      using del unfolding doc_deleted_def by blast
    then show ?thesis using inv that by (auto simp: doc_inv_def)
  qed
  then have "doc_inv k w'"
    using inv m p v0 v by (simp add: doc_inv_def)
  moreover have "abs_doc k w' = (Some [DeletedObjectMarker], snd (abs_doc k w))"
    using m p val by (auto simp: abs_doc_def stored_prio_def fun_eq_iff)
  ultimately show ?thesis by simp
qed

lemma doc_ensured_spec:
  assumes k: "doc_wf k" and inv: "doc_inv k w"
  defines "w' \<equiv> if w (mkey k) = None then w(mkey k \<mapsto> [ObjectMarker]) else w"
  shows "doc_inv k w' \<and>
    abs_doc k w' = (case fst (abs_doc k w) of None \<Rightarrow> Some [ObjectMarker] | Some b \<Rightarrow> Some b, snd (abs_doc k w))"
proof (cases "w (mkey k)")
  case None
  have del: "\<not> marked_deleted k w" "\<not> marked_deleted k w'"
    using None by (simp_all add: marked_deleted_def w'_def ObjectMarker_def DeletedObjectMarker_def)
  have p: "w' (pkey k f) = w (pkey k f)" "w' (vkey k f) = w (vkey k f)" "w' (dkey k f) = w (dkey k f)" if "clean_part f" for f
    using doc_keys_distinct(5,19,20) [OF k that that] by (simp_all add: w'_def)
  have v0: "w' (vkey k []) = w (vkey k [])"
    using doc_keys_distinct(21) [OF k clean_instances(1) clean_instances(1)] by (auto simp: w'_def)
  have "w' x = w x" if "below (vkey k []) x" for x
    using that below_ikey [OF k, of ValueKey "''pk''" "[]"] by (auto simp: mkey_ikey [OF k] w'_def)
  then have "doc_inv k w'"
    using inv p v0 del None by (auto simp: doc_inv_def w'_def)
  moreover have "abs_doc k w' = (Some [ObjectMarker], snd (abs_doc k w))"
    using None p del by (auto simp: abs_doc_def stored_prio_def stored_value_def tkey_def fun_eq_iff w'_def)
  ultimately show ?thesis using None by (simp add: abs_doc_def)
qed (simp_all add: inv w'_def abs_doc_def)

lemma newBaseCRDT_simps [simp]: "bc_key (newBaseCRDT D k) = k" "bc_store (newBaseCRDT D k) = D"
  by (simp_all add: newBaseCRDT_def)

context kv_store
begin

text \<open>The register's operations on any store that keeps the contract.\<close>

lemma getPriority_spec:
  assumes "ok s" and N: "newkey_laws NewKey" and k: "doc_wf k" and f: "clean_part f" and inv: "doc_inv k (view s)"
  obtains s' where "getPriority NewKey (newBaseCRDT D (WithFieldId k f)) (WithFieldId k f) s = (Inr (stored_prio k (view s) f), s')"
    and "ok s'" and "view s' = view s"
proof -
  note key = ToDS_keys(1) [OF N k disjI2 [OF f]]
  have "clean_key (pkey k f)" using ikey_clean [OF k _ disjI2 [OF f]] by simp
  then obtain s' where "ds_Get D (pkey k f) s = ((case view s (pkey k f) of None \<Rightarrow> Inl ErrNotFound | Some v \<Rightarrow> Inr v), s')"
    and "ok s'" and "view s' = view s"
    using GetE [OF assms(1)] by metis
  moreover from this inv f have "getPriority NewKey (newBaseCRDT D (WithFieldId k f)) (WithFieldId k f) s = (Inr (stored_prio k (view s) f), s')"
    by (auto simp: getPriority_def newBaseCRDT_def key atry_def stored_prio_def doc_inv_def split: option.splits prod.splits)
  ultimately show thesis using that by blast
qed

lemma storeValue_spec:
  assumes "ok s" and N: "newkey_laws NewKey" and k: "doc_wf k" and f: "clean_part f"
    and key: "ToDS NewKey key = tkey k (view s) f"
  obtains s' where "storeValue NewKey (NewLWWRegister D sv (WithFieldId k f) n) key v p s = (Inr (), s')"
    and "ok s'" and "view s' = write_field k (view s) f (p, v)"
proof -
  have t: "clean_key (tkey k (view s) f)" using ikey_clean [OF k _ disjI2 [OF f]] by (simp add: tkey_def)
  obtain s1 where 1: "ds_Put D (tkey k (view s) f) (LWW_REGISTER # v) s = (Inr (), s1)" "ok s1"
    "view s1 = (view s)(tkey k (view s) f \<mapsto> LWW_REGISTER # v)"
    using PutE [OF assms(1) t] by metis
  have "clean_key (pkey k f)" using ikey_clean [OF k _ disjI2 [OF f]] by simp
  from PutE [OF 1(2) this, of "put_uvarint p"] obtain s2 where 2: "ds_Put D (pkey k f) (put_uvarint p) s1 = (Inr (), s2)"
    "ok s2" "view s2 = (view s1)(pkey k f \<mapsto> put_uvarint p)"
    by metis
  have "storeValue NewKey (NewLWWRegister D sv (WithFieldId k f) n) key v p s = (Inr (), s2)"
    using 1(1) 2(1) ToDS_keys(1) [OF N k disjI2 [OF f]] put_uvarint_ne [of p]
    by (simp add: storeValue_def setPriority_def NewLWWRegister_def newBaseCRDT_def key atry_def Let_def)
  with 1 2 that show thesis by (simp add: write_field_def)
qed

lemma setValue_at_spec:
  assumes "ok s" and N: "newkey_laws NewKey" and k: "doc_wf k" and f: "clean_part f"
    and marker: "(marker = [DeletedObjectMarker]) = marked_deleted k (view s)"
  obtains s' where "setValue_at NewKey (NewLWWRegister D sv (WithFieldId k f) n) v p (stored_prio k (view s) f) marker s = (Inr (), s')"
    and "ok s'" and "view s' = merge_field k (view s) f (p, v)"
proof -
  let ?reg = "NewLWWRegister D sv (WithFieldId k f) n"
  let ?cur = "stored_prio k (view s) f" and ?val = "stored_value k (view s) f"
  let ?key = "if marker = [DeletedObjectMarker] then WithDeletedFlag (WithValueFlag (WithFieldId k f)) else WithValueFlag (WithFieldId k f)"
  have key: "ToDS NewKey ?key = tkey k (view s) f"
    using ToDS_keys(2,3) [OF N k disjI2 [OF f]] marker by (simp add: tkey_def)
  have t: "clean_key (tkey k (view s) f)" using ikey_clean [OF k _ disjI2 [OF f]] by (simp add: tkey_def)
  have reg: "reg_key ?reg = WithFieldId k f" "reg_store ?reg = D" by (simp_all add: NewLWWRegister_def newBaseCRDT_def)
  have stepwise: "setValue_at NewKey ?reg v p ?cur marker s =
      (if p < ?cur then (Inr (), s)
       else if p = ?cur then
         atry (ds_Get D (tkey k (view s) f)) (\<lambda>_. if go_compare [] v \<ge> 0 then ret () else storeValue NewKey ?reg ?key v p)
           (\<lambda>c. if go_compare (if length c > 0 then tl c else c) v \<ge> 0 then ret () else storeValue NewKey ?reg ?key v p) s
       else storeValue NewKey ?reg ?key v p s)"
    using key by (simp add: setValue_at_def reg Let_def cong: if_cong)
  consider (low) "p < ?cur" | (eq) "p = ?cur" | (high) "?cur < p" by fastforce
  then show thesis
  proof cases
    case low
    then show thesis using that [of s] assms(1) by (simp add: stepwise merge_field_def lww_def)
  next
    case high
    obtain s' where "storeValue NewKey ?reg ?key v p s = (Inr (), s')" "ok s'" "view s' = write_field k (view s) f (p, v)"
      using storeValue_spec [OF assms(1) N k f key] by metis
    moreover have "\<not> p < ?cur" "p \<noteq> ?cur" using high by auto
    ultimately show thesis using that [of s'] by (simp add: stepwise merge_field_def lww_def)
  next
    case eq
    obtain s1 where 1: "ds_Get D (tkey k (view s) f) s = ((case view s (tkey k (view s) f) of None \<Rightarrow> Inl ErrNotFound | Some v \<Rightarrow> Inr v), s1)"
      "ok s1" "view s1 = view s"
      using GetE [OF assms(1) t] by metis
    have "setValue_at NewKey ?reg v p ?cur marker s = (if v \<le> ?val then (Inr (), s1) else storeValue NewKey ?reg ?key v p s1)"
      unfolding stepwise using eq 1(1) by (auto simp: atry_def go_compare_nonneg stored_value_def split: option.splits)
    moreover obtain s2 where "storeValue NewKey ?reg ?key v p s1 = (Inr (), s2)" "ok s2" "view s2 = write_field k (view s) f (p, v)"
      using storeValue_spec [OF 1(2) N k f, of ?key] key 1(3) by metis
    moreover have "v \<noteq> ?val" if "\<not> v \<le> ?val" using that by auto
    ultimately show thesis
      using that [of s1] that [of s2] 1(2,3) eq by (cases "v \<le> ?val") (simp_all add: merge_field_def lww_def)
  qed
qed

lemma field_merge_spec:
  assumes "ok s" and N: "newkey_laws NewKey" and k: "doc_wf k" and f: "clean_part f" and inv: "doc_inv k (view s)"
  obtains s' where "Reg_Merge NewKey (NewLWWRegister D sv (WithFieldId k f) n) (LWWDelta d) s = (Inr (), s')"
    and "ok s'" and "view s' = merge_field k (view s) f (lw_Priority d, lw_Data d)"
proof -
  let ?reg = "NewLWWRegister D sv (WithFieldId k f) n"
  have base: "reg_base ?reg = newBaseCRDT D (WithFieldId k f)" "reg_key ?reg = WithFieldId k f" "reg_store ?reg = D"
    by (simp_all add: NewLWWRegister_def newBaseCRDT_def)
  obtain s1 where 1: "getPriority NewKey (newBaseCRDT D (WithFieldId k f)) (WithFieldId k f) s = (Inr (stored_prio k (view s) f), s1)"
    "ok s1" "view s1 = view s"
    using getPriority_spec [OF assms] by metis
  have "clean_key (mkey k)" using ikey_clean [OF k] by (simp add: mkey_ikey [OF k])
  then obtain s2 where 2: "ds_Get D (mkey k) s1 = ((case view s (mkey k) of None \<Rightarrow> Inl ErrNotFound | Some v \<Rightarrow> Inr v), s2)"
    "ok s2" "view s2 = view s"
    using GetE [OF 1(2)] 1(3) by metis
  define marker where "marker = (case view s (mkey k) of None \<Rightarrow> [] | Some m \<Rightarrow> m)"
  have m: "(marker = [DeletedObjectMarker]) = marked_deleted k (view s2)"
    using 2(3) by (auto simp: marker_def marked_deleted_def split: option.splits)
  obtain s' where 3: "setValue_at NewKey ?reg (lw_Data d) (lw_Priority d) (stored_prio k (view s2) f) marker s2 = (Inr (), s')"
    "ok s'" "view s' = merge_field k (view s2) f (lw_Priority d, lw_Data d)"
    using setValue_at_spec [OF 2(2) N k f m] by metis
  have "Reg_Merge NewKey ?reg (LWWDelta d) s = (Inr (), s')"
    using 1(1) 2(1,3) 3(1) ToDS_keys(4) [OF N k disjI2 [OF f]]
    by (simp add: Reg_Merge_def setValue_def base atry_def marker_def split: option.splits)
  with 2(3) 3 that show thesis by simp
qed

text \<open>The loop of a deletion: every entry goes from its value key to its deleted key.\<close>

lemma delete_entries_spec:
  assumes "ok s" and N: "newkey_laws NewKey" and k: "doc_wf k" and c: "comp_store c = D"
    and es: "\<forall>e \<in> set es. \<exists>f. clean_part f \<and> e_Key e = vkey k f" and "distinct (map e_Key es)"
  shows "\<exists>s'. delete_entries NewKey c es s = (Inr (), s') \<and> ok s' \<and> moved k es (view s) (view s')"
  using assms(1,5,6)
proof (induction es arbitrary: s)
  case Nil
  then show ?case by (simp add: moved_def)
next
  case (Cons e es)
  obtain g where g: "clean_part g" "e_Key e = vkey k g" using Cons.prems(2) by auto
  have clean: "clean_key (vkey k g)" "clean_key (dkey k g)" using ikey_clean [OF k] g(1) by auto
  obtain s1 where 1: "ds_Put D (dkey k g) (e_Value e) s = (Inr (), s1)" "ok s1" "view s1 = (view s)(dkey k g \<mapsto> e_Value e)"
    using PutE [OF Cons.prems(1) clean(2)] by metis
  obtain s2 where 2: "ds_Delete D (vkey k g) s1 = (Inr (), s2)" "ok s2" "view s2 = (view s1)(vkey k g := None)"
    using DeleteE [OF 1(2) clean(1)] by metis
  have keys: "NewDataStoreKey (e_Key e) = Inr (k\<lparr>dk_InstanceType := ValueKey, dk_FieldId := g\<rparr>)"
    "ToDS NewKey (k\<lparr>dk_InstanceType := ValueKey, dk_FieldId := g\<rparr>) = vkey k g"
    "ToDS NewKey (WithDeletedFlag (k\<lparr>dk_InstanceType := ValueKey, dk_FieldId := g\<rparr>)) = dkey k g"
    using ikey_parse [OF k, of ValueKey g] NewKey_clean [OF N clean(1)] NewKey_clean [OF N clean(2)] g
    by (cases k; simp add: ToDS_def ikey_def WithDeletedFlag_def)+
  have run: "delete_entries NewKey c (e # es) s = delete_entries NewKey c es s2"
    using 1(1) 2(1) by (simp add: keys c abind_def)
  obtain s' where s': "delete_entries NewKey c es s2 = (Inr (), s')" "ok s'" "moved k es (view s2) (view s')"
    using Cons.IH [OF 2(2)] Cons.prems by auto
  have "vkey k g \<notin> e_Key ` set es" using Cons.prems(3) g(2) by auto
  moreover have "moved k es ((view s)(dkey k g \<mapsto> e_Value e, vkey k g := None)) (view s')"
    using s'(3) 1(3) 2(3) by simp
  ultimately have "moved k (e # es) (view s) (view s')" by (rule moved_Cons [OF k g])
  with run s'(1,2) show ?case by auto
qed

lemma doc_delete_spec:
  assumes "ok s" and N: "newkey_laws NewKey" and k: "doc_wf k" and inv: "doc_inv k (view s)"
    and "IsDeleted (cd_Status c)"
  shows "\<exists>s'. Comp_Merge NewKey (NewCompositeDAG D sv k n) (CompositeDelta c) s = (Inr (), s') \<and> ok s' \<and>
    doc_deleted k (view s) (view s')"
proof -
  let ?c = "NewCompositeDAG D sv k n"
  have store: "comp_store ?c = D" "comp_key ?c = k" by (simp_all add: NewCompositeDAG_def)
  have clean: "clean_key (mkey k)" "clean_key (vkey k [])" using ikey_clean [OF k] by (simp_all add: mkey_ikey [OF k])
  have vk: "WithFieldId (WithValueFlag k) [] = k\<lparr>dk_InstanceType := ValueKey, dk_FieldId := []\<rparr>"
    by (simp add: WithFieldId_def WithValueFlag_def)
  have key: "ToDS NewKey (WithFieldId (WithValueFlag k) []) = vkey k []" "ToString (WithFieldId (WithValueFlag k) []) = vkey k []"
    using NewKey_clean [OF N clean(2)] by (simp_all add: ToDS_def vk ikey_def)
  obtain s1 where 1: "ds_Put D (mkey k) [DeletedObjectMarker] s = (Inr (), s1)" "ok s1"
    "view s1 = (view s)(mkey k \<mapsto> [DeletedObjectMarker])"
    using PutE [OF assms(1) clean(1)] by metis
  have "view s1 (vkey k []) = None" using inv 1(3) doc_keys_distinct(21) [OF k clean_instances(1) clean_instances(1)] by (simp add: doc_inv_def)
  then obtain s2 where 2: "ds_Get D (vkey k []) s1 = (Inl ErrNotFound, s2)" "ok s2" "view s2 = view s1"
    using GetE [OF 1(2) clean(2)] by auto
  obtain es s3 where 3: "ds_Query D \<lparr>q_Prefix = vkey k [], q_KeysOnly = False\<rparr> s2 = (Inr es, s3)" "ok s3" "view s3 = view s2"
    and dist: "distinct (map e_Key es)"
    and es: "\<forall>x v. (x, v) \<in> set (map (\<lambda>e. (e_Key e, e_Value e)) es) \<longleftrightarrow> view s2 x = Some v \<and> below (vkey k []) x"
    using Query [OF 2(2) clean(2)] by blast
  have es': "\<forall>x v. (x, v) \<in> set (map (\<lambda>e. (e_Key e, e_Value e)) es) \<longleftrightarrow> view s x = Some v \<and> below (vkey k []) x"
  proof -
    have "x \<noteq> mkey k" if "below (vkey k []) x" for x
      using below_ikey [OF k, of ValueKey "''pk''" "[]"] that by (auto simp: mkey_ikey [OF k])
    then show ?thesis using es 1(3) 2(3) by auto
  qed
  have "\<exists>f. clean_part f \<and> e_Key e = vkey k f" if "e \<in> set es" for e
  proof -
    have "(e_Key e, e_Value e) \<in> set (map (\<lambda>e. (e_Key e, e_Value e)) es)" using that by auto
    with es' have "view s (e_Key e) \<noteq> None" "below (vkey k []) (e_Key e)" by auto
    then show ?thesis using inv by (auto simp: doc_inv_def)
  qed
  then obtain s4 where 4: "delete_entries NewKey ?c es s3 = (Inr (), s4)" "ok s4" "moved k es (view s3) (view s4)"
    using delete_entries_spec [OF 3(2) N k store(1) _ dist] by blast
  have "Comp_Merge NewKey ?c (CompositeDelta c) s = (Inr (), s4)"
    using assms(5) 1(1) 2(1) 3(1) 4(1) ToDS_keys(5) [OF N k disjI1 [OF refl]]
    by (simp add: Comp_Merge_def deleteWithPrefix_def store key abind_def atry_def Let_def)
  moreover have "doc_deleted k (view s) (view s4)"
    using moved_all [OF k es' dist] 4(3) 1(3) 2(3) 3(3) by simp
  ultimately show ?thesis using 4(2) by blast
qed

lemma doc_ensure_spec:
  assumes "ok s" and N: "newkey_laws NewKey" and k: "doc_wf k" and "\<not> IsDeleted (cd_Status c)"
  shows "\<exists>s'. Comp_Merge NewKey (NewCompositeDAG D sv k n) (CompositeDelta c) s = (Inr (), s') \<and> ok s' \<and>
    view s' = (if view s (mkey k) = None then (view s)(mkey k \<mapsto> [ObjectMarker]) else view s)"
proof -
  let ?c = "NewCompositeDAG D sv k n"
  have store: "comp_store ?c = D" "comp_key ?c = k" by (simp_all add: NewCompositeDAG_def)
  have clean: "clean_key (mkey k)" using ikey_clean [OF k] by (simp add: mkey_ikey [OF k])
  obtain s1 where 1: "ds_Has D (mkey k) s = (Inr (view s (mkey k) \<noteq> None), s1)" "ok s1" "view s1 = view s"
    using HasE [OF assms(1) clean] by metis
  obtain s2 where 2: "ds_Put D (mkey k) [ObjectMarker] s1 = (Inr (), s2)" "ok s2" "view s2 = (view s1)(mkey k \<mapsto> [ObjectMarker])"
    using PutE [OF 1(2) clean] by metis
  show ?thesis
    using assms(4) 1 2 ToDS_keys(5) [OF N k disjI1 [OF refl]]
    by (cases "view s (mkey k)") (simp_all add: Comp_Merge_def store abind_def Let_def)
qed

lemma doc_merge_refines:
  assumes "ok s" and N: "newkey_laws NewKey" and k: "doc_wf k" and inv: "doc_inv k (view s)"
  shows "\<exists>s'. Comp_Merge NewKey (NewCompositeDAG D sv k n) (CompositeDelta c) s = (Inr (), s') \<and> ok s' \<and>
    doc_inv k (view s') \<and> abs_doc k (view s') = apply_op (DocDelta c) (abs_doc k (view s))"
proof (cases "IsDeleted (cd_Status c)")
  case True
  from doc_delete_spec [OF assms(1) N k inv this] obtain s' where
    "Comp_Merge NewKey (NewCompositeDAG D sv k n) (CompositeDelta c) s = (Inr (), s')" "ok s'"
    "doc_deleted k (view s) (view s')"
    by metis
  with True doc_deleted_spec [OF k inv this(3)] show ?thesis
    by (cases "abs_doc k (view s)") auto
next
  case False
  from doc_ensure_spec [OF assms(1) N k this] obtain s' where
    "Comp_Merge NewKey (NewCompositeDAG D sv k n) (CompositeDelta c) s = (Inr (), s')" "ok s'"
    "view s' = (if view s (mkey k) = None then (view s)(mkey k \<mapsto> [ObjectMarker]) else view s)"
    by metis
  with False doc_ensured_spec [OF k inv] show ?thesis
    by (cases "abs_doc k (view s)") auto
qed

text \<open>Every operation on a document refines the operation on the abstract document.\<close>

lemma run_op_refines:
  fixes op :: "'c doc_op"
  assumes "ok s" and N: "newkey_laws NewKey" and k: "doc_wf k" and inv: "doc_inv k (view s)" and "op_clean op"
  shows "\<exists>s'. run_op NewKey D k sv op s = (Inr (), s') \<and> ok s' \<and> doc_inv k (view s') \<and>
    abs_doc k (view s') = apply_op op (abs_doc k (view s))"
proof (cases op)
  case (FieldDelta f d)
  then have f: "clean_part f" using assms(5) by simp
  obtain s' where "Reg_Merge NewKey (NewLWWRegister D sv (WithFieldId k f) (lw_FieldName d)) (LWWDelta d :: 'c Delta) s = (Inr (), s')"
    "ok s'" "view s' = merge_field k (view s) f (lw_Priority d, lw_Data d)"
    using field_merge_spec [OF assms(1) N k f inv] by metis
  with FieldDelta merge_field_spec [OF k f inv, of "(lw_Priority d, lw_Data d)"] show ?thesis
    by (cases "abs_doc k (view s)") auto
next
  case (DocDelta c)
  then show ?thesis using doc_merge_refines [OF assms(1) N k inv] by simp
qed

lemma run_ops_refine:
  fixes ops :: "'c doc_op list"
  assumes "ok s" and N: "newkey_laws NewKey" and k: "doc_wf k" and "doc_inv k (view s)" and "\<forall>op \<in> set ops. op_clean op"
  shows "\<exists>s'. run_ops NewKey D k sv ops s = (Inr (), s') \<and> ok s' \<and> doc_inv k (view s') \<and>
    abs_doc k (view s') = fold apply_op ops (abs_doc k (view s))"
  using assms(1,4,5)
proof (induction ops arbitrary: s)
  case (Cons op ops)
  obtain s1 where 1: "run_op NewKey D k sv op s = (Inr (), s1)" "ok s1" "doc_inv k (view s1)"
    "abs_doc k (view s1) = apply_op op (abs_doc k (view s))"
    using run_op_refines [OF Cons.prems(1) N k Cons.prems(2)] Cons.prems(3) by (metis list.set_intros(1))
  with Cons.IH [OF 1(2,3)] Cons.prems(3) show ?case by (auto simp: abind_def)
qed simp

text \<open>What a reader of a live document's field gets.\<close>

lemma Reg_Value_spec:
  assumes "ok s" and N: "newkey_laws NewKey" and k: "doc_wf k" and f: "clean_part f" and "\<not> marked_deleted k (view s)"
    and "view s (vkey k f) = Some (LWW_REGISTER # v)"
  shows "fst (Reg_Value NewKey (NewLWWRegister D sv (WithFieldId k f) n) s) = Inr (stored_value k (view s) f)"
proof -
  have "clean_key (vkey k f)" using ikey_clean [OF k _ disjI2 [OF f]] by simp
  then obtain s1 where "ds_Get D (vkey k f) s = (Inr (LWW_REGISTER # v), s1)"
    using GetE [OF assms(1)] assms(6) by (metis option.simps(5))
  then show ?thesis
    using assms(5,6) ToDS_keys(2) [OF N k disjI2 [OF f]]
    by (simp add: Reg_Value_def NewLWWRegister_def abind_def stored_value_def tkey_def)
qed

end

section \<open>Convergence\<close>

text \<open>The register keeps the greater pair in the lexicographic order on priorities and values.\<close>

lemma lww_max: "lww c a = max c a"
proof -
  have "a \<le> c \<longleftrightarrow> fst a < fst c \<or> fst a = fst c \<and> snd a \<le> snd c"
    by (cases a; cases c) (auto simp: less_eq_prod_def)
  then show ?thesis unfolding lww_def by (metis max.absorb1 max.absorb2 nle_le)
qed

lemma lww_commute: "lww (lww c a) b = lww (lww c b) a"
  unfolding lww_max by (simp only: max.assoc max.commute [of a b])

lemma lww_idem: "lww (lww c a) a = lww c a"
  unfolding lww_max by (rule max.right_idem)

lemma apply_op_commute: "apply_op a (apply_op b d) = apply_op b (apply_op a d)"
proof (cases d)
  case (Pair m fs)
  show ?thesis
  proof (cases a)
    case a: (FieldDelta f x)
    show ?thesis
    proof (cases b)
      case (FieldDelta g y)
      with a Pair show ?thesis by (cases "f = g") (simp_all add: lww_commute fun_upd_twist)
    qed (simp add: a Pair)
  next
    case a: (DocDelta c)
    show ?thesis by (cases b) (simp_all add: a Pair split: option.splits)
  qed
qed

lemma apply_op_idem: "apply_op a (apply_op a d) = apply_op a d"
  by (cases a; cases d) (auto simp: lww_idem split: option.splits)

interpretation doc_ops: comp_fun_idem apply_op
proof
  show "apply_op b \<circ> apply_op a = apply_op a \<circ> apply_op b" for a b :: "'c doc_op"
    by (rule ext, unfold comp_apply) (rule apply_op_commute)
  show "apply_op a \<circ> apply_op a = apply_op a" for a :: "'c doc_op"
    by (rule ext, unfold comp_apply) (rule apply_op_idem)
qed

lemma apply_ops_set: "set ops = set ops' \<Longrightarrow> fold apply_op ops d = fold apply_op ops' d"
  unfolding doc_ops.fold_set_fold [symmetric] by simp

context kv_store
begin

text \<open>Merging a list of deltas of one field into a live document.\<close>

lemma field_deltas_spec:
  fixes ds :: "LWWRegDelta list"
  assumes "ok s" and N: "newkey_laws NewKey" and k: "doc_wf k" and f: "clean_part f" and "doc_inv k (view s)"
    and "\<not> marked_deleted k (view s)" and "\<forall>d \<in> set ds. 0 < lw_Priority d"
    and "(view s (vkey k f) = None \<and> view s (pkey k f) = None \<and> ds \<noteq> []) \<or> (\<exists>v. view s (vkey k f) = Some (LWW_REGISTER # v))"
  shows "\<exists>s' v. run_ops NewKey D k sv (map (FieldDelta f) ds :: 'c doc_op list) s = (Inr (), s') \<and> ok s' \<and>
    \<not> marked_deleted k (view s') \<and> view s' (vkey k f) = Some (LWW_REGISTER # v) \<and>
    (stored_prio k (view s') f, stored_value k (view s') f) =
      fold (\<lambda>d c. lww c (lw_Priority d, lw_Data d)) ds (stored_prio k (view s) f, stored_value k (view s) f)"
  using assms(1,5-)
proof (induction ds arbitrary: s)
  case Nil
  then show ?case by (auto intro: exI [of _ s])
next
  case (Cons d ds)
  let ?pv = "(lw_Priority d, lw_Data d)" and ?cur = "(stored_prio k (view s) f, stored_value k (view s) f)"
  obtain s1 where 1: "Reg_Merge NewKey (NewLWWRegister D sv (WithFieldId k f) (lw_FieldName d)) (LWWDelta d :: 'c Delta) s = (Inr (), s1)"
    "ok s1" "view s1 = merge_field k (view s) f ?pv"
    using field_merge_spec [OF Cons.prems(1) N k f Cons.prems(2)] by metis
  note M = merge_field_spec [OF k f Cons.prems(2), of ?pv, folded 1(3)]
  have del: "\<not> marked_deleted k (view s1)"
    using M(2) Cons.prems(3) by (auto simp: abs_doc_def marked_deleted_def)
  have reg: "(stored_prio k (view s1) f, stored_value k (view s1) f) = lww ?cur ?pv"
    using M(2) abs_doc_field [OF f, of k "view s1"] abs_doc_field [OF f, of k "view s"] by simp
  have "\<exists>v. view s1 (vkey k f) = Some (LWW_REGISTER # v)"
  proof (cases "lww ?cur ?pv = ?cur")
    case True
    have "view s (vkey k f) \<noteq> None"
    proof
      assume "view s (vkey k f) = None"
      with Cons.prems(5) have "stored_prio k (view s) f = 0" by (auto simp: stored_prio_def)
      with True Cons.prems(4) show False by (auto simp: lww_def split: if_splits)
    qed
    with True 1(3) Cons.prems(5) show ?thesis by (auto simp: merge_field_def)
  next
    case False
    then show ?thesis
      using 1(3) Cons.prems(3) doc_keys_distinct(15) [OF k f f] by (auto simp: merge_field_def write_field_def tkey_def)
  qed
  with Cons.IH [OF 1(2) M(1) del] Cons.prems(4) obtain s' v where
    "run_ops NewKey D k sv (map (FieldDelta f) ds :: 'c doc_op list) s1 = (Inr (), s')" "ok s'"
    "\<not> marked_deleted k (view s')" "view s' (vkey k f) = Some (LWW_REGISTER # v)"
    "(stored_prio k (view s') f, stored_value k (view s') f) =
      fold (\<lambda>d c. lww c (lw_Priority d, lw_Data d)) ds (stored_prio k (view s1) f, stored_value k (view s1) f)"
    by auto
  with 1(1) reg show ?case by (auto simp: abind_def)
qed

lemma deleted_field_hidden:
  assumes "ok s" and N: "newkey_laws NewKey" and k: "doc_wf k" and f: "clean_part f" and "doc_inv k (view s)"
    and "marked_deleted k (view s)"
  shows "fst (Reg_Value NewKey (NewLWWRegister D sv (WithFieldId k f) n) s) = Inl ErrNotFound"
proof -
  have "clean_key (vkey k f)" using ikey_clean [OF k _ disjI2 [OF f]] by simp
  moreover have "view s (vkey k f) = None" using assms(5,6) f by (auto simp: doc_inv_def)
  ultimately obtain s1 where "ds_Get D (vkey k f) s = (Inl ErrNotFound, s1)"
    using GetE [OF assms(1)] by (metis option.simps(4))
  then show ?thesis
    using ToDS_keys(2) [OF N k disjI2 [OF f]] by (simp add: Reg_Value_def NewLWWRegister_def abind_def)
qed

end

lemma fold_lww_Max:
  assumes "xs \<noteq> []" and "\<forall>x \<in> set xs. c \<le> g x"
  shows "fold (\<lambda>x c. lww c (g x)) xs c = Max (g ` set xs)"
proof -
  have "fold (\<lambda>x c. lww c (g x)) xs c = Max (insert c (g ` set xs))"
  proof -
    have "fold (\<lambda>x c. lww c (g x)) xs c = fold max (map g xs) c"
      by (induction xs arbitrary: c) (simp_all add: lww_max max.commute)
    also have "\<dots> = Max (set (c # map g xs))" by (rule Max.set_eq_fold [symmetric])
    finally show ?thesis by simp
  qed
  also have "\<dots> = Max (g ` set xs)"
  proof -
    have "c \<le> Max (g ` set xs)"
    proof -
      have "c \<le> g (hd xs)" using assms by simp
      also have "g (hd xs) \<le> Max (g ` set xs)" using assms(1) by (intro Max_ge) simp_all
      finally show ?thesis .
    qed
    then show ?thesis using assms(1) by (simp add: max_absorb2)
  qed
  finally show ?thesis .
qed

lemma deletion_sticks:
  "fst d = Some [DeletedObjectMarker] \<or> (\<exists>c. DocDelta c \<in> set ops \<and> IsDeleted (cd_Status c)) \<Longrightarrow>
     fst (fold apply_op ops d) = Some [DeletedObjectMarker]"
proof (induction ops arbitrary: d)
  case (Cons op ops)
  have "fst (apply_op op d) = Some [DeletedObjectMarker] \<or> (\<exists>c. DocDelta c \<in> set ops \<and> IsDeleted (cd_Status c))"
    using Cons.prems by (cases op; cases d) auto
  from Cons.IH [OF this] show ?case by simp
qed simp

end
