(* ===== verification/MultiStore.thy ===== *)
theory MultiStore
  imports Stores
begin

text \<open>
  The layer between a datastore transaction and the components that use it
  (\<^verbatim>\<open>datastore/wrappedStore.go\<close>, \<^verbatim>\<open>multi.go\<close>, \<^verbatim>\<open>blockstore.go\<close>, \<^verbatim>\<open>dag.go\<close>,
  \<^verbatim>\<open>txn.go\<close>, \<^verbatim>\<open>concurrent_txn.go\<close>): a store that prefixes its keys, the four stores a
  multistore makes of one root, the block store, and the transaction with its callbacks. A prefixed
  store again follows the store contract, with the part of the root's view below its prefix, so
  everything proved of a client holds on every layer.
\<close>

section \<open>What is used of the datastore package\<close>

text \<open>
  \<^verbatim>\<open>ds.NewKey\<close>, \<^verbatim>\<open>ds.Key.ChildString\<close>, the two methods of \<^verbatim>\<open>ktds.PrefixTransform\<close> (first
  argument: its prefix) and \<^verbatim>\<open>dsq.NaiveQueryApply\<close>.
\<close>

record ds_ops =
  pk_NewKey :: "string \<Rightarrow> string"
  pk_ChildString :: "string \<Rightarrow> string \<Rightarrow> string"
  pt_ConvertKey :: "string \<Rightarrow> string \<Rightarrow> string"
  pt_InvertKey :: "string \<Rightarrow> string \<Rightarrow> string"
  pk_NaiveQueryApply :: "Query \<Rightarrow> Entry list \<Rightarrow> Entry list"

definition ds_laws :: "ds_ops \<Rightarrow> bool" where
  "ds_laws L \<longleftrightarrow> newkey_laws (pk_NewKey L) \<and> query_laws (pk_NaiveQueryApply L) \<and>
     (\<forall>p k. clean_key p \<longrightarrow> clean_key k \<longrightarrow>
        pk_ChildString L p k = p @ k \<and> pt_ConvertKey L p k = p @ k \<and> pt_InvertKey L p (p @ k) = k)"

section \<open>The prefixed store\<close>

record 's wrappedStore =
  ws_prefix :: string
  ws_store :: "'s DSReaderWriter"

definition Wrapped_Get :: "ds_ops \<Rightarrow> 's wrappedStore \<Rightarrow> string \<Rightarrow> ('s, bytes) act" where
  "Wrapped_Get L w key = ds_Get (ws_store w) (pt_ConvertKey L (ws_prefix w) key)"

definition Wrapped_Has :: "ds_ops \<Rightarrow> 's wrappedStore \<Rightarrow> string \<Rightarrow> ('s, bool) act" where
  "Wrapped_Has L w key = ds_Has (ws_store w) (pt_ConvertKey L (ws_prefix w) key)"

definition Wrapped_GetSize :: "ds_ops \<Rightarrow> 's wrappedStore \<Rightarrow> string \<Rightarrow> ('s, nat) act" where
  "Wrapped_GetSize L w key = ds_GetSize (ws_store w) (pt_ConvertKey L (ws_prefix w) key)"

definition Wrapped_Put :: "ds_ops \<Rightarrow> 's wrappedStore \<Rightarrow> string \<Rightarrow> bytes \<Rightarrow> ('s, unit) act" where
  "Wrapped_Put L w key value = ds_Put (ws_store w) (pt_ConvertKey L (ws_prefix w) key) value"

definition Wrapped_Delete :: "ds_ops \<Rightarrow> 's wrappedStore \<Rightarrow> string \<Rightarrow> ('s, unit) act" where
  "Wrapped_Delete L w key = ds_Delete (ws_store w) (pt_ConvertKey L (ws_prefix w) key)"

text \<open>
  \<^verbatim>\<open>prepareQuery\<close> on the fields of a query that the sources set: the child query carries
  everything with the prefix converted, the naive query stays the zero value.
\<close>

definition prepareQuery :: "ds_ops \<Rightarrow> 's wrappedStore \<Rightarrow> Query \<Rightarrow> Query \<times> Query" where
  "prepareQuery L w q =
     (\<lparr>q_Prefix = [], q_KeysOnly = False\<rparr>,
      q\<lparr>q_Prefix := pt_ConvertKey L (ws_prefix w) (pk_NewKey L (q_Prefix q))\<rparr>)"

definition Wrapped_Query :: "ds_ops \<Rightarrow> 's wrappedStore \<Rightarrow> Query \<Rightarrow> ('s, Entry list) act" where
  "Wrapped_Query L w q =
     (case prepareQuery L w q of (nq, cq) \<Rightarrow>
        abind (ds_Query (ws_store w) cq)
          (\<lambda>cqr. ret (pk_NaiveQueryApply L nq
             (map (\<lambda>r. r\<lparr>e_Key := pt_InvertKey L (ws_prefix w) (e_Key r)\<rparr>) cqr))))"

definition prefixed :: "ds_ops \<Rightarrow> 's DSReaderWriter \<Rightarrow> string \<Rightarrow> 's DSReaderWriter" where
  "prefixed L root p =
     (let w = \<lparr>ws_prefix = p, ws_store = root\<rparr>
      in \<lparr>ds_Get = Wrapped_Get L w, ds_Has = Wrapped_Has L w, ds_GetSize = Wrapped_GetSize L w,
          ds_Put = Wrapped_Put L w, ds_Delete = Wrapped_Delete L w, ds_Query = Wrapped_Query L w\<rparr>)"

section \<open>The block store\<close>

text \<open>
  Third-party operations on CIDs and blocks: \<^verbatim>\<open>Cid.Defined\<close>, the datastore key of a CID's hash
  (\<^verbatim>\<open>dshelp.MultihashToDsKey\<close>), \<^verbatim>\<open>Cid.Prefix().Sum\<close> and \<^verbatim>\<open>blocks.NewBlockWithCid\<close>. A block is
  an interface value with its two methods.
\<close>

record 'c Block =
  blk_Cid :: 'c
  blk_RawData :: bytes

record 'c block_ops =
  bo_Defined :: "'c \<Rightarrow> bool"
  bo_DsKey :: "'c \<Rightarrow> string"
  bo_Sum :: "'c \<Rightarrow> bytes \<Rightarrow> error + 'c"
  bo_NewBlockWithCid :: "bytes \<Rightarrow> 'c \<Rightarrow> error + 'c Block"

definition block_laws :: "'c block_ops \<Rightarrow> bool" where
  "block_laws H \<longleftrightarrow> (\<forall>c. clean_key (bo_DsKey H c)) \<and>
     (\<forall>b c. bo_NewBlockWithCid H b c = Inr \<lparr>blk_Cid = c, blk_RawData = b\<rparr>)"

record 's bstore =
  bs_store :: "'s DSReaderWriter"
  bs_rehash :: bool

definition NewBlockstore :: "'s DSReaderWriter \<Rightarrow> 's bstore" where
  "NewBlockstore store = \<lparr>bs_store = store, bs_rehash = False\<rparr>"

definition HashOnRead :: "bool \<Rightarrow> 's bstore \<Rightarrow> 's bstore" where
  "HashOnRead enabled bs = bs\<lparr>bs_rehash := enabled\<rparr>"

definition ipld_ErrNotFound :: error where
  "ipld_ErrNotFound = ErrExternal ''ipld: could not find node''"

definition ErrHashMismatch :: error where
  "ErrHashMismatch = ErrNamed ''block in storage has different hash than requested''"

definition lift_sum :: "error + 'a \<Rightarrow> ('s, 'a) act" where
  "lift_sum r = (case r of Inl e \<Rightarrow> fail e | Inr a \<Rightarrow> ret a)"

definition bs_Get :: "'c block_ops \<Rightarrow> 's bstore \<Rightarrow> 'c \<Rightarrow> ('s, 'c Block) act" where
  "bs_Get H bs k =
     (if \<not> bo_Defined H k then fail ipld_ErrNotFound
      else atry (ds_Get (bs_store bs) (bo_DsKey H k))
        (\<lambda>err. if errors_Is err ErrNotFound then fail ipld_ErrNotFound else fail err)
        (\<lambda>bdata.
           if bs_rehash bs then
             (case bo_Sum H k bdata of
                Inl err \<Rightarrow> fail err
              | Inr rbcid \<Rightarrow>
                  if rbcid \<noteq> k then fail ErrHashMismatch else lift_sum (bo_NewBlockWithCid H bdata rbcid))
           else lift_sum (bo_NewBlockWithCid H bdata k)))"

definition bs_Put :: "'c block_ops \<Rightarrow> 's bstore \<Rightarrow> 'c Block \<Rightarrow> ('s, unit) act" where
  "bs_Put H bs block =
     (let k = bo_DsKey H (blk_Cid block); put = ds_Put (bs_store bs) k (blk_RawData block)
      in atry (ds_Has (bs_store bs) k) (\<lambda>_. put) (\<lambda>exists. if exists then ret () else put))"

fun bs_PutMany :: "'c block_ops \<Rightarrow> 's bstore \<Rightarrow> 'c Block list \<Rightarrow> ('s, unit) act" where
  "bs_PutMany H bs [] = ret ()"
| "bs_PutMany H bs (b # blocks) =
     (let k = bo_DsKey H (blk_Cid b);
          put = abind (ds_Put (bs_store bs) k (blk_RawData b)) (\<lambda>_. bs_PutMany H bs blocks)
      in atry (ds_Has (bs_store bs) k) (\<lambda>_. put)
           (\<lambda>exists. if exists then bs_PutMany H bs blocks else put))"

definition bs_Has :: "'c block_ops \<Rightarrow> 's bstore \<Rightarrow> 'c \<Rightarrow> ('s, bool) act" where
  "bs_Has H bs k = ds_Has (bs_store bs) (bo_DsKey H k)"

definition bs_GetSize :: "'c block_ops \<Rightarrow> 's bstore \<Rightarrow> 'c \<Rightarrow> ('s, nat) act" where
  "bs_GetSize H bs k =
     atry (ds_GetSize (bs_store bs) (bo_DsKey H k))
       (\<lambda>err. if errors_Is err ErrNotFound then fail ipld_ErrNotFound else fail err) ret"

definition bs_DeleteBlock :: "'c block_ops \<Rightarrow> 's bstore \<Rightarrow> 'c \<Rightarrow> ('s, unit) act" where
  "bs_DeleteBlock H bs k = ds_Delete (bs_store bs) (bo_DsKey H k)"

record 's dagStore =
  ds_Blockstore :: "'s bstore"
  ds_store :: "'s DSReaderWriter"

definition NewDAGStore :: "'s DSReaderWriter \<Rightarrow> 's dagStore" where
  "NewDAGStore store = \<lparr>ds_Blockstore = NewBlockstore store, ds_store = store\<rparr>"

section \<open>The multistore\<close>

definition rootStoreKey :: "ds_ops \<Rightarrow> string" where
  "rootStoreKey L = pk_NewKey L ''/db''"

definition systemStoreKey :: "ds_ops \<Rightarrow> string" where
  "systemStoreKey L = pk_ChildString L (rootStoreKey L) ''/system''"

definition dataStoreKey :: "ds_ops \<Rightarrow> string" where
  "dataStoreKey L = pk_ChildString L (rootStoreKey L) ''/data''"

definition headStoreKey :: "ds_ops \<Rightarrow> string" where
  "headStoreKey L = pk_ChildString L (rootStoreKey L) ''/heads''"

definition blockStoreKey :: "ds_ops \<Rightarrow> string" where
  "blockStoreKey L = pk_ChildString L (rootStoreKey L) ''/blocks''"

record 's multistore =
  Rootstore :: "'s DSReaderWriter"
  Datastore_of :: "'s DSReaderWriter"
  Headstore :: "'s DSReaderWriter"
  Systemstore :: "'s DSReaderWriter"
  DAGstore :: "'s dagStore"

definition MultiStoreFrom :: "ds_ops \<Rightarrow> 's DSReaderWriter \<Rightarrow> 's multistore" where
  "MultiStoreFrom L rootstore =
     (let block = prefixed L rootstore (blockStoreKey L)
      in \<lparr>Rootstore = rootstore, Datastore_of = prefixed L rootstore (dataStoreKey L),
          Headstore = prefixed L rootstore (headStoreKey L), Systemstore = prefixed L rootstore (systemStoreKey L),
          DAGstore = NewDAGStore block\<rparr>)"

section \<open>Transactions with callbacks\<close>

text \<open>
  A \<^verbatim>\<open>ds.Txn\<close> and a \<^verbatim>\<open>ds.TxnDatastore\<close> as interface values over the state \<open>'s\<close>; the first method
  of the latter is there when the datastore also implements \<^verbatim>\<open>IterableTxnDatastore\<close>. A callback
  is a function on the state.
\<close>

record 's ds_Txn =
  tx_store :: "'s DSReaderWriter"
  tx_Commit :: "('s, unit) act"
  tx_Discard :: "'s \<Rightarrow> 's"

record 's TxnDatastore =
  td_NewIterableTransaction :: "(bool \<Rightarrow> ('s, 's ds_Txn) act) option"
  td_NewTransaction :: "bool \<Rightarrow> ('s, 's ds_Txn) act"

record 's Txn =
  txn_t :: "'s ds_Txn"
  txn_ms :: "'s multistore"
  successFns :: "('s \<Rightarrow> 's) list"
  errorFns :: "('s \<Rightarrow> 's) list"

definition NewTxnFrom :: "ds_ops \<Rightarrow> 's TxnDatastore \<Rightarrow> bool \<Rightarrow> ('s, 's Txn) act" where
  "NewTxnFrom L rootstore readonly =
     (let mk = (\<lambda>rootTxn. ret \<lparr>txn_t = rootTxn, txn_ms = MultiStoreFrom L (tx_store rootTxn),
                                successFns = [], errorFns = []\<rparr>)
      in case td_NewIterableTransaction rootstore of
           Some new \<Rightarrow> abind (new readonly) mk
         | None \<Rightarrow> abind (td_NewTransaction rootstore readonly) mk)"

definition OnSuccess :: "('s \<Rightarrow> 's) option \<Rightarrow> 's Txn \<Rightarrow> 's Txn" where
  "OnSuccess fn t = (case fn of None \<Rightarrow> t | Some f \<Rightarrow> t\<lparr>successFns := successFns t @ [f]\<rparr>)"

definition OnError :: "('s \<Rightarrow> 's) option \<Rightarrow> 's Txn \<Rightarrow> 's Txn" where
  "OnError fn t = (case fn of None \<Rightarrow> t | Some f \<Rightarrow> t\<lparr>errorFns := errorFns t @ [f]\<rparr>)"

definition runErrorFns :: "'s Txn \<Rightarrow> 's \<Rightarrow> 's" where
  "runErrorFns t s = fold (\<lambda>fn. fn) (errorFns t) s"

definition runSuccessFns :: "'s Txn \<Rightarrow> 's \<Rightarrow> 's" where
  "runSuccessFns t s = fold (\<lambda>fn. fn) (successFns t) s"

definition Commit :: "'s Txn \<Rightarrow> ('s, unit) act" where
  "Commit t s =
     (case tx_Commit (txn_t t) s of
        (Inl err, s') \<Rightarrow> (Inl err, runErrorFns t s')
      | (Inr _, s') \<Rightarrow> (Inr (), runSuccessFns t s'))"

definition Discard :: "'s Txn \<Rightarrow> 's \<Rightarrow> 's" where
  "Discard t = tx_Discard (txn_t t)"

section \<open>A prefixed store is a store\<close>

text \<open>The part of a view below a prefix.\<close>

definition sub_view :: "string \<Rightarrow> (string \<Rightarrow> bytes option) \<Rightarrow> string \<Rightarrow> bytes option" where
  "sub_view P view k = (if clean_key k then view (P @ k) else None)"

lemma sub_view_upd: "clean_key k \<Longrightarrow> sub_view P (view(P @ k := v)) = (sub_view P view)(k := v)"
  by (rule ext) (simp add: sub_view_def)

lemma sub_view_other: "P @ k \<noteq> P' @ k' \<Longrightarrow> clean_key k' \<Longrightarrow> sub_view P' (view(P @ k := v)) k' = sub_view P' view k'"
  by (simp add: sub_view_def)

lemma ds_lawsD:
  assumes "ds_laws L"
  shows "newkey_laws (pk_NewKey L)" and "query_laws (pk_NaiveQueryApply L)"
    and "clean_key p \<Longrightarrow> clean_key k \<Longrightarrow> pk_ChildString L p k = p @ k"
    and "clean_key p \<Longrightarrow> clean_key k \<Longrightarrow> pt_ConvertKey L p k = p @ k"
    and "clean_key p \<Longrightarrow> clean_key k \<Longrightarrow> pt_InvertKey L p (p @ k) = k"
  using assms by (simp_all add: ds_laws_def)

lemmas prefixed_defs = prefixed_def Let_def Wrapped_Get_def Wrapped_Has_def Wrapped_GetSize_def
  Wrapped_Put_def Wrapped_Delete_def Wrapped_Query_def prepareQuery_def

context kv_store
begin

lemma prefixed_ops:
  assumes "ds_laws L" and "clean_key P" and "clean_key k"
  shows "ds_Get (prefixed L D P) k = ds_Get D (P @ k)" and "ds_Has (prefixed L D P) k = ds_Has D (P @ k)"
    and "ds_GetSize (prefixed L D P) k = ds_GetSize D (P @ k)"
    and "ds_Put (prefixed L D P) k v = ds_Put D (P @ k) v" and "ds_Delete (prefixed L D P) k = ds_Delete D (P @ k)"
  using assms by (simp_all add: prefixed_defs ds_lawsD)

lemma below_prefixed:
  assumes "clean_key P" and "clean_key p" and "clean_key x"
  shows "below (P @ p) x \<longleftrightarrow> (\<exists>k. x = P @ k \<and> clean_key k \<and> below p k)"
proof
  assume "below (P @ p) x"
  then obtain r where x: "x = P @ p @ CHR ''/'' # r" by (auto simp: below_def HasPrefix_iff)
  obtain t where t: "p = CHR ''/'' # t" using assms(2) clean_key_slash by blast
  have "clean_key (p @ CHR ''/'' # r)"
    using assms clean_key_append [OF assms(1), of "t @ CHR ''/'' # r"] unfolding x t by simp
  then show "\<exists>k. x = P @ k \<and> clean_key k \<and> below p k"
    by (intro exI [of _ "p @ CHR ''/'' # r"]) (simp add: x below_def HasPrefix_def)
next
  assume "\<exists>k. x = P @ k \<and> clean_key k \<and> below p k"
  then show "below (P @ p) x" by (auto simp: below_def HasPrefix_iff)
qed

lemma prefixed_Query:
  assumes "ok s" and L: "ds_laws L" and P: "clean_key P" and p: "clean_key p"
  shows "\<exists>es s'. ds_Query (prefixed L D P) \<lparr>q_Prefix = p, q_KeysOnly = False\<rparr> s = (Inr es, s') \<and>
    ok s' \<and> view s' = view s \<and> distinct (map e_Key es) \<and>
    (\<forall>k v. (k, v) \<in> set (map (\<lambda>e. (e_Key e, e_Value e)) es) \<longleftrightarrow> sub_view P (view s) k = Some v \<and> below p k)"
proof -
  have pre: "pt_ConvertKey L P (pk_NewKey L p) = P @ p"
    using L P p by (simp add: ds_lawsD NewKey_clean)
  obtain es s' where q: "ds_Query D \<lparr>q_Prefix = P @ p, q_KeysOnly = False\<rparr> s = (Inr es, s')"
    and s': "ok s'" "view s' = view s" and dist: "distinct (map e_Key es)"
    and mem: "\<forall>k v. (k, v) \<in> set (map (\<lambda>e. (e_Key e, e_Value e)) es) \<longleftrightarrow> view s k = Some v \<and> below (P @ p) k"
    using Query [OF assms(1) clean_key_concat [OF P p]] by blast
  let ?inv = "\<lambda>r. r\<lparr>e_Key := pt_InvertKey L P (e_Key r)\<rparr>"
  have key: "\<exists>k. e_Key e = P @ k \<and> clean_key k \<and> below p k" if "e \<in> set es" for e
  proof -
    have "(e_Key e, e_Value e) \<in> set (map (\<lambda>e. (e_Key e, e_Value e)) es)" using that by auto
    then have "view s (e_Key e) = Some (e_Value e)" "below (P @ p) (e_Key e)" using mem by blast+
    then show ?thesis using below_prefixed [OF P p Clean [OF assms(1)]] by blast
  qed
  have key': "e_Key e = P @ pt_InvertKey L P (e_Key e) \<and> clean_key (pt_InvertKey L P (e_Key e)) \<and>
      below p (pt_InvertKey L P (e_Key e))" if "e \<in> set es" for e
    using key [OF that] ds_lawsD(5) [OF L P] by force
  have "distinct (map (\<lambda>e. P @ pt_InvertKey L P (e_Key e)) es)"
    using dist key' by (subst map_cong [OF refl, of es _ e_Key]) simp_all
  then have "distinct (map e_Key (map ?inv es))"
    by (simp add: distinct_map comp_def inj_on_def)
  moreover have "(k, v) \<in> set (map (\<lambda>e. (e_Key e, e_Value e)) (map ?inv es)) \<longleftrightarrow>
      sub_view P (view s) k = Some v \<and> below p k" for k v
  proof
    assume "(k, v) \<in> set (map (\<lambda>e. (e_Key e, e_Value e)) (map ?inv es))"
    then obtain e where e: "e \<in> set es" "k = pt_InvertKey L P (e_Key e)" "v = e_Value e" by auto
    then have "(P @ k, v) \<in> set (map (\<lambda>e. (e_Key e, e_Value e)) es)" using key' by force
    then have "view s (P @ k) = Some v" using mem by blast
    then show "sub_view P (view s) k = Some v \<and> below p k" using e key' by (simp add: sub_view_def)
  next
    assume "sub_view P (view s) k = Some v \<and> below p k"
    then have k: "clean_key k" "view s (P @ k) = Some v" "below p k" by (auto simp: sub_view_def split: if_splits)
    moreover have "below (P @ p) (P @ k)" using below_prefixed [OF P p clean_key_concat [OF P k(1)]] k by blast
    ultimately have "(P @ k, v) \<in> set (map (\<lambda>e. (e_Key e, e_Value e)) es)" using mem by blast
    then obtain e where "e \<in> set es" "e_Key e = P @ k" "e_Value e = v" by auto
    then show "(k, v) \<in> set (map (\<lambda>e. (e_Key e, e_Value e)) (map ?inv es))"
      using ds_lawsD(5) [OF L P k(1)] by (force intro!: image_eqI [of _ _ e])
  qed
  moreover have "ds_Query (prefixed L D P) \<lparr>q_Prefix = p, q_KeysOnly = False\<rparr> s = (Inr (map ?inv es), s')"
    using q ds_lawsD(2) [OF L] by (simp add: prefixed_defs abind_def pre query_laws_def)
  ultimately show ?thesis using s' by blast
qed

text \<open>
  What does not depend on the keys below the prefix (\<open>I\<close>) may be added to what is kept: that is how
  a client of one store is seen to leave the others alone.
\<close>

lemma prefixed_kv:
  assumes I: "\<And>w k x. I w \<Longrightarrow> I (w(P @ k := x))"
  shows "kv_store (prefixed L D P) (\<lambda>s. sub_view P (view s)) (\<lambda>s. ok s \<and> ds_laws L \<and> clean_key P \<and> I (view s))"
proof
  fix s k v assume "ok s \<and> ds_laws L \<and> clean_key P \<and> I (view s)" and k: "clean_key k"
  then have s: "ok s" and L: "ds_laws L" and P: "clean_key P" and Is: "I (view s)" by auto
  note o = prefixed_ops [OF L P k] and c = clean_key_concat [OF P k] and v = sub_view_upd [OF k]
  have sv: "sub_view P (view s) k = view s (P @ k)" using k by (simp add: sub_view_def)
  show "\<exists>s'. ds_Get (prefixed L D P) k s = ((case sub_view P (view s) k of None \<Rightarrow> Inl ErrNotFound | Some v \<Rightarrow> Inr v), s') \<and>
      (ok s' \<and> ds_laws L \<and> clean_key P \<and> I (view s')) \<and> sub_view P (view s') = sub_view P (view s)"
    using Get [OF s c] L P Is unfolding o sv by metis
  show "\<exists>s'. ds_Has (prefixed L D P) k s = (Inr (sub_view P (view s) k \<noteq> None), s') \<and>
      (ok s' \<and> ds_laws L \<and> clean_key P \<and> I (view s')) \<and> sub_view P (view s') = sub_view P (view s)"
    using Has [OF s c] L P Is unfolding o sv by metis
  show "\<exists>s'. ds_GetSize (prefixed L D P) k s = ((case sub_view P (view s) k of None \<Rightarrow> Inl ErrNotFound | Some v \<Rightarrow> Inr (length v)), s') \<and>
      (ok s' \<and> ds_laws L \<and> clean_key P \<and> I (view s')) \<and> sub_view P (view s') = sub_view P (view s)"
    using GetSize [OF s c] L P Is unfolding o sv by metis
  show "\<exists>s'. ds_Put (prefixed L D P) k v s = (Inr (), s') \<and> (ok s' \<and> ds_laws L \<and> clean_key P \<and> I (view s')) \<and>
      sub_view P (view s') = (sub_view P (view s))(k \<mapsto> v)"
    using Put [OF s c, of v] L P I [OF Is] v [of P "view s" "Some v"] unfolding o by metis
  show "\<exists>s'. ds_Delete (prefixed L D P) k s = (Inr (), s') \<and> (ok s' \<and> ds_laws L \<and> clean_key P \<and> I (view s')) \<and>
      sub_view P (view s') = (sub_view P (view s))(k := None)"
    using Delete [OF s c] L P I [OF Is] v [of P "view s" None] unfolding o by metis
next
  fix s p assume "ok s \<and> ds_laws L \<and> clean_key P \<and> I (view s)" and "clean_key p"
  then have L: "ds_laws L" "clean_key P" "I (view s)"
    and q: "\<exists>es s'. ds_Query (prefixed L D P) \<lparr>q_Prefix = p, q_KeysOnly = False\<rparr> s = (Inr es, s') \<and>
      ok s' \<and> view s' = view s \<and> distinct (map e_Key es) \<and>
      (\<forall>k v. (k, v) \<in> set (map (\<lambda>e. (e_Key e, e_Value e)) es) \<longleftrightarrow> sub_view P (view s) k = Some v \<and> below p k)"
    using prefixed_Query by simp_all
  show "\<exists>es s'. ds_Query (prefixed L D P) \<lparr>q_Prefix = p, q_KeysOnly = False\<rparr> s = (Inr es, s') \<and>
      (ok s' \<and> ds_laws L \<and> clean_key P \<and> I (view s')) \<and> sub_view P (view s') = sub_view P (view s) \<and> distinct (map e_Key es) \<and>
      (\<forall>k v. (k, v) \<in> set (map (\<lambda>e. (e_Key e, e_Value e)) es) \<longleftrightarrow> sub_view P (view s) k = Some v \<and> below p k)"
    using q by (elim ex_forward) (simp add: L)
next
  fix s k v assume "sub_view P (view s) k = Some v"
  then show "clean_key k" by (simp add: sub_view_def split: if_splits)
qed

end

section \<open>The four stores\<close>

lemma store_keys:
  assumes "ds_laws L"
  shows "systemStoreKey L = ''/db/system''" "dataStoreKey L = ''/db/data''"
    "headStoreKey L = ''/db/heads''" "blockStoreKey L = ''/db/blocks''"
proof -
  have c: "clean_key ''/db''" "clean_key ''/system''" "clean_key ''/data''" "clean_key ''/heads''" "clean_key ''/blocks''"
    by code_simp+
  then have "rootStoreKey L = ''/db''"
    using ds_lawsD(1) [OF assms] by (simp add: rootStoreKey_def NewKey_clean)
  then show "systemStoreKey L = ''/db/system''" "dataStoreKey L = ''/db/data''"
    "headStoreKey L = ''/db/heads''" "blockStoreKey L = ''/db/blocks''"
    using ds_lawsD(3) [OF assms c(1)] c
    by (simp_all add: systemStoreKey_def dataStoreKey_def headStoreKey_def blockStoreKey_def)
qed

lemma clean_store_keys: "clean_key ''/db/system''" "clean_key ''/db/data''" "clean_key ''/db/heads''" "clean_key ''/db/blocks''"
  by code_simp+

definition store_prefixes :: "string list" where
  "store_prefixes = [''/db/system'', ''/db/data'', ''/db/heads'', ''/db/blocks'']"

lemma sub_view_frame:
  assumes "P \<in> set store_prefixes" and "P' \<in> set store_prefixes" and "P \<noteq> P'"
  shows "sub_view P' (view(P @ k := v)) = sub_view P' view"
proof
  fix k'
  show "sub_view P' (view(P @ k := v)) k' = sub_view P' view k'"
    using assms by (auto simp: store_prefixes_def sub_view_def)
qed

section \<open>Blocks\<close>

lemma HashOnRead_ops [simp]:
  "bs_Put H (HashOnRead h bs) = bs_Put H bs" "bs_Has H (HashOnRead h bs) = bs_Has H bs"
  "bs_GetSize H (HashOnRead h bs) = bs_GetSize H bs" "bs_DeleteBlock H (HashOnRead h bs) = bs_DeleteBlock H bs"
  by (simp_all add: fun_eq_iff HashOnRead_def bs_Put_def bs_Has_def bs_GetSize_def bs_DeleteBlock_def)

text \<open>What storing a block does to a view: a block that is there already is kept.\<close>

definition put_block :: "'c block_ops \<Rightarrow> 'c Block \<Rightarrow> (string \<Rightarrow> bytes option) \<Rightarrow> string \<Rightarrow> bytes option" where
  "put_block H b w =
     (let k = bo_DsKey H (blk_Cid b) in if w k = None then w(k \<mapsto> blk_RawData b) else w)"

context kv_store
begin

lemma bs_Put_step:
  assumes "ok s" and "block_laws H"
  shows "\<exists>s'. bs_Put H (NewBlockstore D) b s = (Inr (), s') \<and> ok s' \<and>
    view s' = put_block H b (view s)"
proof -
  let ?k = "bo_DsKey H (blk_Cid b)"
  have k: "clean_key ?k" using assms(2) by (simp add: block_laws_def)
  obtain s1 where s1: "ds_Has D ?k s = (Inr (view s ?k \<noteq> None), s1)" "ok s1" "view s1 = view s"
    using HasE [OF assms(1) k] .
  obtain s2 where "ds_Put D ?k (blk_RawData b) s1 = (Inr (), s2)" "ok s2" "view s2 = (view s1)(?k \<mapsto> blk_RawData b)"
    using PutE [OF s1(2) k] .
  with s1 show ?thesis by (auto simp: bs_Put_def put_block_def NewBlockstore_def Let_def atry_def)
qed

lemma bs_Has_step:
  assumes "ok s" and "block_laws H"
  shows "\<exists>s'. bs_Has H (NewBlockstore D) c s = (Inr (view s (bo_DsKey H c) \<noteq> None), s') \<and> ok s' \<and> view s' = view s"
  using Has [OF assms(1), of "bo_DsKey H c"] assms(2)
  by (simp add: bs_Has_def NewBlockstore_def block_laws_def)

lemma bs_Get_step:
  assumes "ok s" and "block_laws H" and "bo_Defined H c"
  shows "\<exists>s'. bs_Get H (NewBlockstore D) c s = ((case view s (bo_DsKey H c) of None \<Rightarrow> Inl ipld_ErrNotFound
      | Some b \<Rightarrow> Inr \<lparr>blk_Cid = c, blk_RawData = b\<rparr>), s') \<and> ok s' \<and> view s' = view s"
proof -
  obtain s1 where "ds_Get D (bo_DsKey H c) s =
      ((case view s (bo_DsKey H c) of None \<Rightarrow> Inl ErrNotFound | Some v \<Rightarrow> Inr v), s1)" "ok s1" "view s1 = view s"
    using GetE [OF assms(1), of "bo_DsKey H c"] assms(2) by (auto simp: block_laws_def)
  with assms(2,3) show ?thesis
    by (auto simp: bs_Get_def atry_def NewBlockstore_def lift_sum_def block_laws_def split: option.splits)
qed

lemma bs_Delete_step:
  assumes "ok s" and "block_laws H"
  shows "\<exists>s'. bs_DeleteBlock H (NewBlockstore D) c s = (Inr (), s') \<and> ok s' \<and> view s' = (view s)(bo_DsKey H c := None)"
  using Delete [OF assms(1), of "bo_DsKey H c"] assms(2)
  by (simp add: bs_DeleteBlock_def NewBlockstore_def block_laws_def)

text \<open>What is read of a block, with the check of its hash on or off.\<close>

lemma bs_reads:
  assumes "ok s" and H: "block_laws H" and "bo_Defined H c"
  shows "fst (bs_Has H (NewBlockstore D) c s) = Inr (view s (bo_DsKey H c) \<noteq> None)"
    and "fst (bs_GetSize H (NewBlockstore D) c s) =
      (case view s (bo_DsKey H c) of None \<Rightarrow> Inl ipld_ErrNotFound | Some b \<Rightarrow> Inr (length b))"
    and "fst (bs_Get H (HashOnRead h (NewBlockstore D)) c s) =
      (case view s (bo_DsKey H c) of None \<Rightarrow> Inl ipld_ErrNotFound
       | Some b \<Rightarrow> if h then (case bo_Sum H c b of Inl err \<Rightarrow> Inl err
                              | Inr c' \<Rightarrow> if c' = c then Inr \<lparr>blk_Cid = c, blk_RawData = b\<rparr> else Inl ErrHashMismatch)
                  else Inr \<lparr>blk_Cid = c, blk_RawData = b\<rparr>)"
proof -
  let ?k = "bo_DsKey H c"
  have k: "clean_key ?k" using H by (simp add: block_laws_def)
  show "fst (bs_Has H (NewBlockstore D) c s) = Inr (view s ?k \<noteq> None)"
    using bs_Has_step [OF assms(1,2), of c] by auto
  obtain s1 where "ds_GetSize D ?k s = ((case view s ?k of None \<Rightarrow> Inl ErrNotFound | Some v \<Rightarrow> Inr (length v)), s1)"
    using GetSize [OF assms(1) k] by blast
  then show "fst (bs_GetSize H (NewBlockstore D) c s) =
      (case view s ?k of None \<Rightarrow> Inl ipld_ErrNotFound | Some b \<Rightarrow> Inr (length b))"
    by (auto simp: bs_GetSize_def NewBlockstore_def atry_def split: option.splits)
  obtain s2 where "ds_Get D ?k s = ((case view s ?k of None \<Rightarrow> Inl ErrNotFound | Some v \<Rightarrow> Inr v), s2)"
    using Get [OF assms(1) k] by blast
  then show "fst (bs_Get H (HashOnRead h (NewBlockstore D)) c s) =
      (case view s ?k of None \<Rightarrow> Inl ipld_ErrNotFound
       | Some b \<Rightarrow> if h then (case bo_Sum H c b of Inl err \<Rightarrow> Inl err
                              | Inr c' \<Rightarrow> if c' = c then Inr \<lparr>blk_Cid = c, blk_RawData = b\<rparr> else Inl ErrHashMismatch)
                  else Inr \<lparr>blk_Cid = c, blk_RawData = b\<rparr>)"
    using assms(3) H
    by (auto simp: bs_Get_def atry_def NewBlockstore_def HashOnRead_def lift_sum_def block_laws_def split: option.splits sum.splits)
qed

text \<open>Storing many blocks is storing them one by one.\<close>

lemma bs_PutMany_step:
  assumes "ok s" and "block_laws H"
  shows "\<exists>s'. bs_PutMany H (NewBlockstore D) bs s = (Inr (), s') \<and> ok s' \<and>
    view s' = fold (put_block H) bs (view s)"
  using assms(1)
proof (induction bs arbitrary: s)
  case (Cons b bs)
  let ?k = "bo_DsKey H (blk_Cid b)"
  have k: "clean_key ?k" using assms(2) by (simp add: block_laws_def)
  obtain s1 where s1: "ds_Has D ?k s = (Inr (view s ?k \<noteq> None), s1)" "ok s1" "view s1 = view s"
    using HasE [OF Cons.prems k] .
  obtain s2 where s2: "ds_Put D ?k (blk_RawData b) s1 = (Inr (), s2)" "ok s2" "view s2 = (view s1)(?k \<mapsto> blk_RawData b)"
    using PutE [OF s1(2) k] .
  show ?case
  proof (cases "view s ?k")
    case None
    then have "view s2 = put_block H b (view s)" using s1 s2 by (simp add: put_block_def)
    then show ?thesis
      using Cons.IH [OF s2(2)] None s1 s2 by (auto simp: NewBlockstore_def Let_def atry_def abind_def)
  next
    case (Some v)
    then have "view s1 = put_block H b (view s)" using s1 by (simp add: put_block_def)
    then show ?thesis
      using Cons.IH [OF s1(2)] Some s1 by (auto simp: NewBlockstore_def Let_def atry_def)
  qed
qed simp

end

end
