(* ===== verification/Clock.thy ===== *)
theory Clock
  imports Document MultiStore
begin

text \<open>
  The Merkle clock (\<^verbatim>\<open>merkle/clock\<close>): the set of current heads of a DAG in the head store, the
  making of a node from a delta and the heads, and the processing of a node, which merges its delta
  into a replicated data type and replaces the heads it links to. A local update is a new node above
  all heads, one higher than the highest of them.
\<close>

section \<open>Replicated data and the packages used\<close>

record ('s, 'c, 'n) ReplicatedData =
  rd_ID :: string
  rd_Merge :: "'c Delta \<Rightarrow> string \<Rightarrow> ('s, unit) act"
  rd_DeltaDecode :: "'n ipld_node \<Rightarrow> error + 'c Delta"
  rd_Value :: "('s, bytes) act"

text \<open>The operations of the datastore, CID, block, IPLD and CBOR packages.\<close>

record ('c, 'n) pkgs =
  x_ds :: ds_ops
  x_cid :: "'c cid_ops"
  x_block :: "'c block_ops"
  x_dag :: "('c, 'n) dag_ops"
  x_codec :: codec_ops

section \<open>The heads\<close>

record ('s, 'c) heads =
  hh_store :: "'s DSReaderWriter"
  hh_namespace :: "'c HeadStoreKey"

definition NewHeadSet :: "'s DSReaderWriter \<Rightarrow> 'c HeadStoreKey \<Rightarrow> ('s, 'c) heads" where
  "NewHeadSet store namespace = \<lparr>hh_store = store, hh_namespace = namespace\<rparr>"

definition heads_key :: "('c, 'n) pkgs \<Rightarrow> ('s, 'c) heads \<Rightarrow> 'c \<Rightarrow> string" where
  "heads_key X hh c = Head_ToDS (pk_NewKey (x_ds X)) (x_cid X) (WithCid (hh_namespace hh) c)"

definition heads_Write :: "('c, 'n) pkgs \<Rightarrow> ('s, 'c) heads \<Rightarrow> 'c \<Rightarrow> u64 \<Rightarrow> ('s, unit) act" where
  "heads_Write X hh c height = ds_Put (hh_store hh) (heads_key X hh c) (put_uvarint height)"

definition IsHead :: "('c, 'n) pkgs \<Rightarrow> ('s, 'c) heads \<Rightarrow> 'c \<Rightarrow> ('s, bool) act" where
  "IsHead X hh c = ds_Has (hh_store hh) (heads_key X hh c)"

definition heads_Replace :: "('c, 'n) pkgs \<Rightarrow> ('s, 'c) heads \<Rightarrow> 'c \<Rightarrow> 'c \<Rightarrow> u64 \<Rightarrow> ('s, unit) act" where
  "heads_Replace X hh old new height =
     abind (ds_Delete (hh_store hh) (heads_key X hh old)) (\<lambda>_. heads_Write X hh new height)"

text \<open>
  The loop of \<^verbatim>\<open>List\<close> over the query's results. \<^verbatim>\<open>NewHeadStoreKey\<close> always yields a defined CID.
\<close>

fun list_heads :: "'c cid_ops \<Rightarrow> Entry list \<Rightarrow> 'c list \<Rightarrow> u64 \<Rightarrow> error + ('c list \<times> u64)" where
  "list_heads C [] heads maxHeight = Inr (heads, maxHeight)"
| "list_heads C (r # rs) heads maxHeight =
     (case NewHeadStoreKey C (e_Key r) of
        Inl err \<Rightarrow> Inl err
      | Inr headKey \<Rightarrow>
          (case uvarint (e_Value r) of (height, n) \<Rightarrow>
             if n \<le> 0 then Inl ErrDecodingHeight
             else list_heads C rs (heads @ [the (hk_Cid headKey)]) (if height > maxHeight then height else maxHeight)))"

definition heads_List :: "('c, 'n) pkgs \<Rightarrow> ('s, 'c) heads \<Rightarrow> ('s, 'c list \<times> u64) act" where
  "heads_List X hh =
     abind (ds_Query (hh_store hh) \<lparr>q_Prefix = Head_ToString (x_cid X) (hh_namespace hh), q_KeysOnly = False\<rparr>)
       (\<lambda>results. abind (lift_sum (list_heads (x_cid X) results [] 0))
          (\<lambda>(heads, maxHeight). ret (sort_key (cid_Bytes (x_cid X)) heads, maxHeight)))"

section \<open>Nodes\<close>

text \<open>The two loops of \<^verbatim>\<open>makeNode\<close> add the same kind of link.\<close>

fun add_links :: "('c, 'n) dag_ops \<Rightarrow> 'c DAGLink list \<Rightarrow> 'n \<Rightarrow> error + 'n" where
  "add_links G [] nd = Inr nd"
| "add_links G (l # ls) nd =
     (case dag_AddRawLink G (dl_Name l) (dl_Cid l) nd of Inl err \<Rightarrow> Inl err | Inr nd' \<Rightarrow> add_links G ls nd')"

fun delta_links :: "'c Delta option \<Rightarrow> 'c DAGLink list" where
  "delta_links (Some (CompositeDelta d)) = cd_SubDAGs d"
| "delta_links _ = []"

definition makeNode :: "('c, 'n) pkgs \<Rightarrow> 'c Delta option \<Rightarrow> 'c list \<Rightarrow> error + 'n" where
  "makeNode X delta heads =
     (case (case delta of None \<Rightarrow> Inr [] | Some d \<Rightarrow> Marshal (x_codec X) d) of
        Inl err \<Rightarrow> Inl err
      | Inr data \<Rightarrow>
          (case dag_SetCidBuilder (x_dag X) (dag_NodeWithData (x_dag X) data) of
             Inl err \<Rightarrow> Inl err
           | Inr nd \<Rightarrow>
               (case add_links (x_dag X) (map (\<lambda>h. \<lparr>dl_Name = ''_head'', dl_Cid = h\<rparr>) heads) nd of
                  Inl err \<Rightarrow> Inl err
                | Inr nd' \<Rightarrow> add_links (x_dag X) (delta_links delta) nd')))"

text \<open>
  \<^verbatim>\<open>CrdtNodeGetter\<close>: an IPLD node getter with the delta decoder of a replicated data type. Both
  \<^verbatim>\<open>Get\<close> and \<^verbatim>\<open>GetMany\<close> come from the IPLD package.
\<close>

record ('s, 'c, 'n) CrdtNodeGetter =
  ng_Get :: "'c \<Rightarrow> ('s, 'n ipld_node) act"
  ng_GetMany :: "'c list \<Rightarrow> 's \<Rightarrow> (error + 'n ipld_node) list \<times> 's"
  ng_DeltaExtractor :: "'n ipld_node \<Rightarrow> error + 'c Delta"

definition ng_GetDelta :: "('s, 'c, 'n) CrdtNodeGetter \<Rightarrow> 'c \<Rightarrow> ('s, 'n ipld_node \<times> 'c Delta) act" where
  "ng_GetDelta ng c =
     abind (ng_Get ng c) (\<lambda>nd. abind (lift_sum (ng_DeltaExtractor ng nd)) (\<lambda>delta. ret (nd, delta)))"

definition ng_GetPriority :: "('s, 'c, 'n) CrdtNodeGetter \<Rightarrow> 'c \<Rightarrow> ('s, u64) act" where
  "ng_GetPriority ng c = abind (ng_GetDelta ng c) (\<lambda>(_, delta). ret (GetPriority delta))"

text \<open>The entries sent on the channel, in order.\<close>

definition ng_GetDeltas :: "('s, 'c, 'n) CrdtNodeGetter \<Rightarrow> 'c list \<Rightarrow> 's \<Rightarrow> (error + 'c Delta \<times> 'n ipld_node) list \<times> 's" where
  "ng_GetDeltas ng cids s =
     (case ng_GetMany ng cids s of (nodeOpts, s') \<Rightarrow>
        (map (\<lambda>nodeOpt. case nodeOpt of
             Inl err \<Rightarrow> Inl err
           | Inr node \<Rightarrow>
               (case ng_DeltaExtractor ng node of Inl err \<Rightarrow> Inl err | Inr delta \<Rightarrow> Inr (delta, node)))
           nodeOpts, s'))"

section \<open>The clock\<close>

record ('s, 'c, 'n) MerkleClock =
  mc_headstore :: "'s DSReaderWriter"
  mc_dagstore :: "'s dagStore"
  mc_headset :: "('s, 'c) heads"
  mc_crdt :: "('s, 'c, 'n) ReplicatedData"

definition NewMerkleClock ::
    "'s DSReaderWriter \<Rightarrow> 's dagStore \<Rightarrow> 'c HeadStoreKey \<Rightarrow> ('s, 'c, 'n) ReplicatedData \<Rightarrow> ('s, 'c, 'n) MerkleClock" where
  "NewMerkleClock headstore dagstore namespace crdt =
     \<lparr>mc_headstore = headstore, mc_dagstore = dagstore, mc_headset = NewHeadSet headstore namespace,
      mc_crdt = crdt\<rparr>"

text \<open>\<open>SetPriority\<close> changes the delta in place: the delta is passed on with its new priority.\<close>

definition putBlock ::
    "('c, 'n) pkgs \<Rightarrow> ('s, 'c, 'n) MerkleClock \<Rightarrow> 'c list \<Rightarrow> u64 \<Rightarrow> 'c Delta option \<Rightarrow> ('s, 'n) act" where
  "putBlock X mc heads height delta =
     (case makeNode X (map_option (SetPriority height) delta) heads of
        Inl err \<Rightarrow> fail (Wrapped ''error creating block'' err)
      | Inr node \<Rightarrow>
          atry (bs_Put (x_block X) (ds_Blockstore (mc_dagstore mc))
              \<lparr>blk_Cid = dag_Cid (x_dag X) node, blk_RawData = dag_RawData (x_dag X) node\<rparr>)
            (\<lambda>err. fail (Wrapped ''error writing block'' err)) (\<lambda>_. ret node))"

text \<open>The second loop of \<^verbatim>\<open>ProcessNode\<close>: the children collected so far come last.\<close>

fun process_links ::
    "('c, 'n) pkgs \<Rightarrow> ('s, 'c, 'n) MerkleClock \<Rightarrow> 'c \<Rightarrow> u64 \<Rightarrow> 'c DAGLink list \<Rightarrow> 'c list \<Rightarrow> ('s, 'c list) act" where
  "process_links X mc root rootPrio [] children = ret children"
| "process_links X mc root rootPrio (l # links) children =
     (let linkCid = dl_Cid l
      in atry (IsHead X (mc_headset mc) linkCid)
           (\<lambda>err. fail (Wrapped ''error checking if is head'' err))
           (\<lambda>isHead.
              if isHead then
                atry (heads_Replace X (mc_headset mc) linkCid root rootPrio)
                  (\<lambda>err. fail (Wrapped ''error replacing head'' err))
                  (\<lambda>_. process_links X mc root rootPrio links children)
              else
                atry (bs_Has (x_block X) (ds_Blockstore (mc_dagstore mc)) linkCid)
                  (\<lambda>err. fail (Wrapped ''error checking for known block '' err))
                  (\<lambda>known.
                     if known then
                       atry (heads_Write X (mc_headset mc) root rootPrio)
                         (\<lambda>_. process_links X mc root rootPrio links children)
                         (\<lambda>_. process_links X mc root rootPrio links children)
                     else process_links X mc root rootPrio links (children @ [linkCid]))))"

definition ProcessNode ::
    "('c, 'n) pkgs \<Rightarrow> ('s, 'c, 'n) MerkleClock \<Rightarrow> 'c \<Rightarrow> u64 \<Rightarrow> 'c Delta \<Rightarrow> 'n \<Rightarrow> ('s, 'c list) act" where
  "ProcessNode X mc root rootPrio delta node =
     atry (rd_Merge (mc_crdt mc) delta (bo_DsKey (x_block X) (dag_Cid (x_dag X) node)))
       (\<lambda>err. fail (Wrapped ''error merging delta'' err))
       (\<lambda>_. let links = dag_Links (x_dag X) node;
                hasHeads = list_ex (\<lambda>l. dl_Name l = ''_head'') links
             in atry (if hasHeads then ret () else heads_Write X (mc_headset mc) root rootPrio)
                  (\<lambda>err. fail (Wrapped ''error adding head'' err))
                  (\<lambda>_. process_links X mc root rootPrio links []))"

definition AddDAGNode ::
    "('c, 'n) pkgs \<Rightarrow> ('s, 'c, 'n) MerkleClock \<Rightarrow> 'c Delta \<Rightarrow> ('s, 'n \<times> 'c Delta) act" where
  "AddDAGNode X mc delta =
     atry (heads_List X (mc_headset mc))
       (\<lambda>err. fail (Wrapped ''error getting heads'' err))
       (\<lambda>(heads, maxHeight).
          let height = maxHeight + 1; delta' = SetPriority height delta
          in abind (putBlock X mc heads height (Some delta'))
               (\<lambda>nd. abind (ProcessNode X mc (dag_Cid (x_dag X) nd) height delta' nd) (\<lambda>_. ret (nd, delta'))))"

end
