(* ===== verification/ClockSpec.thy ===== *)
theory ClockSpec
  imports Clock
begin

text \<open>
  What the Merkle clock does, in terms of the heads as a partial map from CIDs to heights: listing
  reads the map, a new node becomes the only head, one above the highest head it replaces, and its
  block and its delta are stored. The replicated data type behind the clock enters through the
  contract \<open>replicated\<close>, kept by both data types of \<^verbatim>\<open>core/crdt\<close>.
\<close>

section \<open>The packages' laws\<close>

definition dag_laws :: "('c, 'n) dag_ops \<Rightarrow> bool" where
  "dag_laws G \<longleftrightarrow>
     (\<forall>b. dag_Data G (dag_NodeWithData G b) = b \<and> dag_Links G (dag_NodeWithData G b) = []) \<and>
     (\<forall>n. \<exists>n'. dag_SetCidBuilder G n = Inr n' \<and> dag_Data G n' = dag_Data G n \<and> dag_Links G n' = dag_Links G n) \<and>
     (\<forall>name c n. \<exists>n'. dag_AddRawLink G name c n = Inr n' \<and> dag_Data G n' = dag_Data G n \<and>
        set (dag_Links G n') = insert \<lparr>dl_Name = name, dl_Cid = c\<rparr> (set (dag_Links G n))) \<and>
     (\<forall>n. \<forall>l \<in> set (dag_Links G n). dl_Cid l \<noteq> dag_Cid G n)"

definition clock_laws :: "('c, 'n) pkgs \<Rightarrow> bool" where
  "clock_laws X \<longleftrightarrow> ds_laws (x_ds X) \<and> cid_laws (x_cid X) \<and> (\<forall>c. clean_part (cid_String (x_cid X) c)) \<and>
     block_laws (x_block X) \<and> dag_laws (x_dag X) \<and> codec_laws (x_codec X)"

lemma clock_lawsD:
  assumes "clock_laws X"
  shows "ds_laws (x_ds X)" "cid_laws (x_cid X)" "clean_part (cid_String (x_cid X) c)" "block_laws (x_block X)"
    "dag_laws (x_dag X)" "codec_laws (x_codec X)"
  using assms by (simp_all add: clock_laws_def)

section \<open>Head keys\<close>

definition ns_wf :: "'c HeadStoreKey \<Rightarrow> bool" where
  "ns_wf ns \<longleftrightarrow> clean_part (hk_DocKey ns) \<and> clean_part (hk_FieldId ns) \<and> hk_Cid ns = None"

definition hkey :: "('c, 'n) pkgs \<Rightarrow> 'c HeadStoreKey \<Rightarrow> 'c \<Rightarrow> string" where
  "hkey X ns c = Head_ToString (x_cid X) (WithCid ns c)"

lemma ns_key:
  assumes "ns_wf ns"
  shows "Head_ToString C ns = CHR ''/'' # hk_DocKey ns @ CHR ''/'' # hk_FieldId ns"
  using assms by (auto simp: ns_wf_def Head_ToString_def add_part_def clean_part_def key_part_def)

lemma hkey_eq:
  assumes "ns_wf ns"
  shows "hkey X ns c = CHR ''/'' # hk_DocKey ns @ CHR ''/'' # hk_FieldId ns @ CHR ''/'' # cid_String (x_cid X) c"
  using assms by (auto simp: hkey_def WithCid_def ns_wf_def Head_ToString_def add_part_def clean_part_def key_part_def)

lemma ns_key_clean: "ns_wf ns \<Longrightarrow> clean_key (Head_ToString C ns)"
  by (simp add: ns_key clean_key_Cons ns_wf_def)

lemma hkey_clean: "clock_laws X \<Longrightarrow> ns_wf ns \<Longrightarrow> clean_key (hkey X ns c)"
  by (simp add: hkey_eq clean_key_Cons ns_wf_def clock_lawsD)

lemma hkey_below: "ns_wf ns \<Longrightarrow> below (Head_ToString (x_cid X) ns) (hkey X ns c)"
  by (simp add: below_def HasPrefix_iff ns_key hkey_eq)

lemma hkey_parse:
  assumes "clock_laws X" and "ns_wf ns"
  shows "NewHeadStoreKey (x_cid X) (hkey X ns c) = Inr (WithCid ns c)"
  unfolding hkey_def using assms
  by (intro head_parse_print) (auto simp: clock_lawsD ns_wf_def WithCid_def clean_part_def)

lemma hkey_inj:
  assumes "clock_laws X" and "ns_wf ns" and "ns_wf ns'"
  shows "hkey X ns c = hkey X ns' c' \<longleftrightarrow> ns = ns' \<and> c = c'"
proof
  assume "hkey X ns c = hkey X ns' c'"
  then have "WithCid ns c = WithCid ns' c'"
    using hkey_parse [OF assms(1,2), of c] hkey_parse [OF assms(1,3), of c'] by simp
  with assms(2,3) show "ns = ns' \<and> c = c'"
    by (cases ns; cases ns') (simp add: WithCid_def ns_wf_def)
qed simp

lemma heads_key_eq:
  "clock_laws X \<Longrightarrow> ns_wf ns \<Longrightarrow> heads_key X (NewHeadSet D ns) c = hkey X ns c"
  using NewKey_clean [OF ds_lawsD(1) hkey_clean, of "x_ds X" X ns c]
  by (simp add: heads_key_def NewHeadSet_def Head_ToDS_def hkey_def clock_lawsD)

section \<open>The heads as a map\<close>

definition head_map :: "('c, 'n) pkgs \<Rightarrow> 'c HeadStoreKey \<Rightarrow> (string \<Rightarrow> bytes option) \<Rightarrow> 'c \<Rightarrow> u64 option" where
  "head_map X ns w c = map_option (\<lambda>b. fst (uvarint b)) (w (hkey X ns c))"

definition heads_inv :: "('c, 'n) pkgs \<Rightarrow> 'c HeadStoreKey \<Rightarrow> (string \<Rightarrow> bytes option) \<Rightarrow> bool" where
  "heads_inv X ns w \<longleftrightarrow>
     (\<forall>k b. w k = Some b \<longrightarrow> below (Head_ToString (x_cid X) ns) k \<longrightarrow>
        (\<exists>c h. k = hkey X ns c \<and> b = put_uvarint h))"

lemma uvarint_put [simp]: "fst (uvarint (put_uvarint h)) = h" "snd (uvarint (put_uvarint h)) > 0"
  using uvarint_put_uvarint [of h "[]"] by simp_all

lemma head_map_upd:
  assumes "clock_laws X" and "ns_wf ns"
  shows "head_map X ns (w(hkey X ns c \<mapsto> put_uvarint h)) = (head_map X ns w)(c \<mapsto> h)"
    and "head_map X ns (w(hkey X ns c := None)) = (head_map X ns w)(c := None)"
  using hkey_inj [OF assms assms(2)] by (auto simp: head_map_def fun_eq_iff)

lemma heads_inv_upd:
  assumes "heads_inv X ns w"
  shows "heads_inv X ns (w(hkey X ns c \<mapsto> put_uvarint h))" and "heads_inv X ns (w(k := None))"
  using assms unfolding heads_inv_def by auto

text \<open>What is done to the heads of one namespace is not seen in another.\<close>

lemma head_map_other:
  assumes "clock_laws X" and "ns_wf ns" and "ns_wf ns'" and "ns \<noteq> ns'"
  shows "head_map X ns' (w(hkey X ns c := v)) = head_map X ns' w"
    and "heads_inv X ns' (w(hkey X ns c := v)) = heads_inv X ns' w"
proof -
  have ne: "hkey X ns' c' \<noteq> hkey X ns c" for c' using hkey_inj [OF assms(1,3,2)] assms(4) by blast
  then show "head_map X ns' (w(hkey X ns c := v)) = head_map X ns' w"
    by (simp add: head_map_def fun_eq_iff)
  have "\<not> below (Head_ToString (x_cid X) ns') (hkey X ns c)"
  proof
    assume "below (Head_ToString (x_cid X) ns') (hkey X ns c)"
    then obtain r where "hk_DocKey ns @ CHR ''/'' # hk_FieldId ns @ CHR ''/'' # cid_String (x_cid X) c =
        hk_DocKey ns' @ CHR ''/'' # hk_FieldId ns' @ CHR ''/'' # r"
      by (auto simp: below_def HasPrefix_iff ns_key [OF assms(3)] hkey_eq [OF assms(2)])
    then have "split_on (CHR ''/'') (hk_DocKey ns @ CHR ''/'' # hk_FieldId ns @ CHR ''/'' # cid_String (x_cid X) c) =
        split_on (CHR ''/'') (hk_DocKey ns' @ CHR ''/'' # hk_FieldId ns' @ CHR ''/'' # r)" by simp
    then have "hk_DocKey ns = hk_DocKey ns' \<and> hk_FieldId ns = hk_FieldId ns'"
      using assms(2,3) by (simp add: ns_wf_def clean_part_def key_part_def)
    with assms(2-4) show False by (cases ns; cases ns') (simp add: ns_wf_def)
  qed
  then show "heads_inv X ns' (w(hkey X ns c := v)) = heads_inv X ns' w"
    unfolding heads_inv_def by (metis fun_upd_other)
qed

section \<open>The operations on the heads\<close>

lemma list_heads_result:
  assumes "\<forall>e \<in> set es. \<exists>c h. NewHeadStoreKey C (e_Key e) = Inr (WithCid ns c) \<and> e_Value e = put_uvarint h"
  shows "list_heads C es hs m = Inr (hs @ map (\<lambda>e. the (hk_Cid (projr (NewHeadStoreKey C (e_Key e))))) es,
    fold max (map (\<lambda>e. fst (uvarint (e_Value e))) es) m)"
  using assms
proof (induction es arbitrary: hs m)
  case (Cons e es)
  then obtain c h where e: "NewHeadStoreKey C (e_Key e) = Inr (WithCid ns c)" "e_Value e = put_uvarint h" by auto
  have "uvarint (put_uvarint h) = (h, int (length (put_uvarint h)))" using uvarint_put_uvarint [of h "[]"] by simp
  moreover have "(if m < h then h else m) = max h m" by auto
  ultimately show ?case using e Cons by simp
qed simp

lemma fold_max_Max:
  fixes m :: "'a :: linorder"
  shows "fold max xs m = Max (insert m (set xs))"
proof (induction xs arbitrary: m)
  case (Cons x xs)
  then show ?case by (cases "set xs = {}") (simp_all add: max.assoc max.commute max.left_commute)
qed simp

context kv_store
begin

lemma heads_Write_step:
  assumes "ok s" and X: "clock_laws X" "ns_wf ns"
  shows "\<exists>s'. heads_Write X (NewHeadSet D ns) c h s = (Inr (), s') \<and> ok s' \<and>
    view s' = (view s)(hkey X ns c \<mapsto> put_uvarint h)"
  using Put [OF assms(1) hkey_clean [OF X], of c "put_uvarint h"] heads_key_eq [OF X, of D c]
  by (simp add: heads_Write_def NewHeadSet_def)

lemma IsHead_step:
  assumes "ok s" and X: "clock_laws X" "ns_wf ns"
  shows "\<exists>s'. IsHead X (NewHeadSet D ns) c s = (Inr (c \<in> dom (head_map X ns (view s))), s') \<and> ok s' \<and> view s' = view s"
  using Has [OF assms(1) hkey_clean [OF X], of c] heads_key_eq [OF X, of D c]
  by (simp add: IsHead_def NewHeadSet_def head_map_def dom_def)

lemma heads_Replace_step:
  assumes "ok s" and X: "clock_laws X" "ns_wf ns"
  shows "\<exists>s'. heads_Replace X (NewHeadSet D ns) old c h s = (Inr (), s') \<and> ok s' \<and>
    view s' = (view s)(hkey X ns old := None, hkey X ns c \<mapsto> put_uvarint h)"
proof -
  obtain s1 where s1: "ds_Delete D (hkey X ns old) s = (Inr (), s1)" "ok s1" "view s1 = (view s)(hkey X ns old := None)"
    using DeleteE [OF assms(1) hkey_clean [OF X]] .
  obtain s2 where "heads_Write X (NewHeadSet D ns) c h s1 = (Inr (), s2)" "ok s2"
    "view s2 = (view s1)(hkey X ns c \<mapsto> put_uvarint h)"
    using heads_Write_step [OF s1(2) X] by blast
  with s1 heads_key_eq [OF X, of D old] show ?thesis
    by (auto simp: heads_Replace_def NewHeadSet_def abind_def)
qed

lemma heads_List_step:
  assumes "ok s" and X: "clock_laws X" "ns_wf ns" and inv: "heads_inv X ns (view s)"
  shows "\<exists>cs s'. heads_List X (NewHeadSet D ns) s = (Inr (cs, Max (insert 0 (ran (head_map X ns (view s))))), s') \<and>
    ok s' \<and> view s' = view s \<and> set cs = dom (head_map X ns (view s)) \<and> distinct cs \<and>
    sorted (map (cid_Bytes (x_cid X)) cs)"
proof -
  let ?P = "Head_ToString (x_cid X) ns"
  obtain es s' where q: "ds_Query D \<lparr>q_Prefix = ?P, q_KeysOnly = False\<rparr> s = (Inr es, s')"
    and s': "ok s'" "view s' = view s" and dist: "distinct (map e_Key es)"
    and mem: "\<forall>k v. (k, v) \<in> set (map (\<lambda>e. (e_Key e, e_Value e)) es) \<longleftrightarrow> view s k = Some v \<and> below ?P k"
    using Query [OF assms(1) ns_key_clean [OF X(2)]] by blast
  let ?c = "\<lambda>e. the (hk_Cid (projr (NewHeadStoreKey (x_cid X) (e_Key e))))"
  let ?h = "\<lambda>e. fst (uvarint (e_Value e))"
  have e: "\<exists>h. e_Key e = hkey X ns (?c e) \<and> e_Value e = put_uvarint h \<and>
      NewHeadStoreKey (x_cid X) (e_Key e) = Inr (WithCid ns (?c e)) \<and> view s (e_Key e) = Some (e_Value e)" if "e \<in> set es" for e
  proof -
    have "(e_Key e, e_Value e) \<in> set (map (\<lambda>e. (e_Key e, e_Value e)) es)" using that by auto
    then have v: "view s (e_Key e) = Some (e_Value e)" "below ?P (e_Key e)" using mem by blast+
    then obtain c h where "e_Key e = hkey X ns c" "e_Value e = put_uvarint h" using inv unfolding heads_inv_def by blast
    with v hkey_parse [OF X, of c] show ?thesis by (intro exI [of _ h]) (simp add: WithCid_def)
  qed
  have lh: "list_heads (x_cid X) es [] 0 = Inr (map ?c es, Max (insert 0 (?h ` set es)))"
    using list_heads_result [of es "x_cid X" ns "[]" 0] e fold_max_Max [of "map ?h es" 0] by force
  have val: "head_map X ns (view s) (?c x) = Some (?h x)" if "x \<in> set es" for x
    using e [OF that] by (auto simp: head_map_def)
  have all: "c \<in> ?c ` set es" if c: "head_map X ns (view s) c \<noteq> None" for c
  proof -
    obtain b where "view s (hkey X ns c) = Some b" using c by (auto simp: head_map_def)
    then have "(hkey X ns c, b) \<in> set (map (\<lambda>e. (e_Key e, e_Value e)) es)" using mem hkey_below [OF X(2)] by blast
    then obtain x where "x \<in> set es" "e_Key x = hkey X ns c" by auto
    then show ?thesis using hkey_parse [OF X, of c] by (force simp: WithCid_def intro!: image_eqI [of _ _ x])
  qed
  have dom: "?c ` set es = dom (head_map X ns (view s))" using val all by (auto simp: dom_def)
  have ran: "?h ` set es = ran (head_map X ns (view s))" 
  proof (intro equalityI subsetI)
    fix h assume "h \<in> ran (head_map X ns (view s))"
    then obtain c where c: "head_map X ns (view s) c = Some h" by (auto simp: ran_def)
    then obtain x where "x \<in> set es" "c = ?c x" using all [of c] by auto
    with c val [of x] show "h \<in> ?h ` set es" by (intro image_eqI [of _ _ x]) simp_all
  qed (auto intro: ranI dest!: val)
  have "distinct (map ?c es)"
  proof -
    have "map e_Key es = map (hkey X ns \<circ> ?c) es" using e by (intro map_cong) auto
    then have "distinct (map (hkey X ns) (map ?c es))" using dist by (simp only: map_map)
    then show ?thesis using distinct_map [of "hkey X ns" "map ?c es"] by blast
  qed
  moreover have "heads_List X (NewHeadSet D ns) s =
      (Inr (sort_key (cid_Bytes (x_cid X)) (map ?c es), Max (insert 0 (ran (head_map X ns (view s))))), s')"
    using q lh ran by (simp add: heads_List_def NewHeadSet_def abind_def lift_sum_def)
  ultimately show ?thesis using s' dom by (intro exI [of _ "sort_key (cid_Bytes (x_cid X)) (map ?c es)"] exI [of _ s']) simp
qed

end

section \<open>Making a node\<close>

lemma dag_lawsD:
  assumes "dag_laws G"
  shows "\<exists>n'. dag_AddRawLink G name c n = Inr n' \<and> dag_Data G n' = dag_Data G n \<and>
    set (dag_Links G n') = insert \<lparr>dl_Name = name, dl_Cid = c\<rparr> (set (dag_Links G n))"
  using assms by (simp add: dag_laws_def)

lemma add_links_spec:
  assumes "dag_laws G"
  shows "\<exists>n'. add_links G ls n = Inr n' \<and> dag_Data G n' = dag_Data G n \<and>
    set (dag_Links G n') = set ls \<union> set (dag_Links G n)"
proof (induction ls arbitrary: n)
  case (Cons l ls)
  obtain n1 where n1: "dag_AddRawLink G (dl_Name l) (dl_Cid l) n = Inr n1" "dag_Data G n1 = dag_Data G n"
    "set (dag_Links G n1) = insert l (set (dag_Links G n))"
    using dag_lawsD [OF assms, of "dl_Name l" "dl_Cid l" n] by (cases l) auto
  with Cons [of n1] show ?case by auto
qed simp

lemma Marshal_total: "codec_laws K \<Longrightarrow> \<exists>b. Marshal K d = Inr b"
  by (cases d) (auto simp: codec_laws_def dest: spec)

lemma makeNode_spec:
  assumes "clock_laws X"
  obtains n where "makeNode X (Some d) hs = Inr n" and "Marshal (x_codec X) d = Inr (dag_Data (x_dag X) n)"
    and "set (dag_Links (x_dag X) n) =
      (\<lambda>h. \<lparr>dl_Name = ''_head'', dl_Cid = h\<rparr>) ` set hs \<union> set (delta_links (Some d))"
proof -
  note G = clock_lawsD(5) [OF assms]
  obtain b where b: "Marshal (x_codec X) d = Inr b" using Marshal_total clock_lawsD(6) [OF assms] by blast
  let ?n = "dag_NodeWithData (x_dag X) b"
  have n: "dag_Data (x_dag X) ?n = b" "dag_Links (x_dag X) ?n = []" using G by (simp_all add: dag_laws_def)
  obtain n1 where n1: "dag_SetCidBuilder (x_dag X) ?n = Inr n1" "dag_Data (x_dag X) n1 = b" "dag_Links (x_dag X) n1 = []"
    using G n unfolding dag_laws_def by metis
  obtain n2 where n2: "add_links (x_dag X) (map (\<lambda>h. \<lparr>dl_Name = ''_head'', dl_Cid = h\<rparr>) hs) n1 = Inr n2"
    "dag_Data (x_dag X) n2 = b" "set (dag_Links (x_dag X) n2) = (\<lambda>h. \<lparr>dl_Name = ''_head'', dl_Cid = h\<rparr>) ` set hs"
    using add_links_spec [OF G, of "map (\<lambda>h. \<lparr>dl_Name = ''_head'', dl_Cid = h\<rparr>) hs" n1] n1 by auto
  obtain n3 where "add_links (x_dag X) (delta_links (Some d)) n2 = Inr n3" "dag_Data (x_dag X) n3 = b"
    "set (dag_Links (x_dag X) n3) = set (delta_links (Some d)) \<union> set (dag_Links (x_dag X) n2)"
    using add_links_spec [OF G, of "delta_links (Some d)" n2] n2 by auto
  with b n1 n2 that [of n3] show thesis by (auto simp: makeNode_def)
qed

section \<open>The stores of a clock on one root\<close>

definition other_views :: "string \<Rightarrow> (string \<Rightarrow> bytes option) \<Rightarrow> string \<Rightarrow> (string \<Rightarrow> bytes option) option" where
  "other_views P w P' = (if P' \<in> set store_prefixes \<and> P' \<noteq> P then Some (sub_view P' w) else None)"

lemma other_views_upd:
  "P \<in> set store_prefixes \<Longrightarrow> other_views P (w(P @ k := v)) = other_views P w"
  using sub_view_frame by (auto simp: other_views_def fun_eq_iff [of "other_views P w" for w])

lemma other_viewsD:
  assumes "other_views P w = other_views P w'" and "P' \<in> set store_prefixes" and "P' \<noteq> P"
  shows "sub_view P' w = sub_view P' w'"
  using fun_cong [OF assms(1), of P'] assms(2,3) by (simp add: other_views_def)

lemma store_prefix_mem [simp]:
  "''/db/system'' \<in> set store_prefixes" "''/db/data'' \<in> set store_prefixes"
  "''/db/heads'' \<in> set store_prefixes" "''/db/blocks'' \<in> set store_prefixes"
  by (simp_all add: store_prefixes_def)

lemma store_prefix_clean: "P \<in> set store_prefixes \<Longrightarrow> clean_key P"
  using clean_store_keys by (auto simp: store_prefixes_def)

lemma MultiStoreFrom_stores:
  assumes "ds_laws L"
  shows "Datastore_of (MultiStoreFrom L D) = prefixed L D ''/db/data''"
    "Headstore (MultiStoreFrom L D) = prefixed L D ''/db/heads''"
    "Systemstore (MultiStoreFrom L D) = prefixed L D ''/db/system''"
    "DAGstore (MultiStoreFrom L D) = NewDAGStore (prefixed L D ''/db/blocks'')"
  by (simp_all add: MultiStoreFrom_def store_keys [OF assms] Let_def)

context kv_store
begin

lemma store_kv:
  assumes "P \<in> set store_prefixes"
  shows "kv_store (prefixed L D P) (\<lambda>s. sub_view P (view s))
    (\<lambda>s. ok s \<and> ds_laws L \<and> clean_key P \<and> other_views P (view s) = ov)"
  using prefixed_kv [of "\<lambda>w. other_views P w = ov"] other_views_upd [OF assms] by simp

text \<open>The steps of a clock on the stores of a multistore.\<close>

abbreviation hv :: "'s \<Rightarrow> string \<Rightarrow> bytes option" where
  "hv s \<equiv> sub_view ''/db/heads'' (view s)"

abbreviation bv :: "'s \<Rightarrow> string \<Rightarrow> bytes option" where
  "bv s \<equiv> sub_view ''/db/blocks'' (view s)"

abbreviation dv :: "'s \<Rightarrow> string \<Rightarrow> bytes option" where
  "dv s \<equiv> sub_view ''/db/data'' (view s)"

lemma head_frame:
  assumes "other_views ''/db/heads'' (view s') = other_views ''/db/heads'' (view s)"
  shows "bv s' = bv s" and "dv s' = dv s"
  using other_viewsD [OF assms] by simp_all

lemma clock_IsHead:
  assumes "ok s" and X: "clock_laws X" "ns_wf ns"
  shows "\<exists>s'. IsHead X (NewHeadSet (prefixed (x_ds X) D ''/db/heads'') ns) c s =
      (Inr (c \<in> dom (head_map X ns (hv s))), s') \<and> ok s' \<and> hv s' = hv s \<and>
      other_views ''/db/heads'' (view s') = other_views ''/db/heads'' (view s)"
  using kv_store.IsHead_step [OF store_kv [OF store_prefix_mem(3)] _ X] assms(1) clock_lawsD(1) [OF X(1)] clean_store_keys
  by blast

lemma clock_Write:
  assumes "ok s" and X: "clock_laws X" "ns_wf ns"
  shows "\<exists>s'. heads_Write X (NewHeadSet (prefixed (x_ds X) D ''/db/heads'') ns) c h s = (Inr (), s') \<and> ok s' \<and>
      hv s' = (hv s)(hkey X ns c \<mapsto> put_uvarint h) \<and>
      other_views ''/db/heads'' (view s') = other_views ''/db/heads'' (view s)"
  using kv_store.heads_Write_step [OF store_kv [OF store_prefix_mem(3)] _ X] assms(1) clock_lawsD(1) [OF X(1)] clean_store_keys
  by blast

lemma clock_Replace:
  assumes "ok s" and X: "clock_laws X" "ns_wf ns"
  shows "\<exists>s'. heads_Replace X (NewHeadSet (prefixed (x_ds X) D ''/db/heads'') ns) old c h s = (Inr (), s') \<and> ok s' \<and>
      hv s' = (hv s)(hkey X ns old := None, hkey X ns c \<mapsto> put_uvarint h) \<and>
      other_views ''/db/heads'' (view s') = other_views ''/db/heads'' (view s)"
  using kv_store.heads_Replace_step [OF store_kv [OF store_prefix_mem(3)] _ X] assms(1) clock_lawsD(1) [OF X(1)] clean_store_keys
  by blast

lemma clock_List:
  assumes "ok s" and X: "clock_laws X" "ns_wf ns" and "heads_inv X ns (hv s)"
  shows "\<exists>cs s'. heads_List X (NewHeadSet (prefixed (x_ds X) D ''/db/heads'') ns) s =
      (Inr (cs, Max (insert 0 (ran (head_map X ns (hv s))))), s') \<and> ok s' \<and> hv s' = hv s \<and>
      other_views ''/db/heads'' (view s') = other_views ''/db/heads'' (view s) \<and>
      set cs = dom (head_map X ns (hv s))"
proof -
  have "\<exists>cs s'. heads_List X (NewHeadSet (prefixed (x_ds X) D ''/db/heads'') ns) s =
      (Inr (cs, Max (insert 0 (ran (head_map X ns (hv s))))), s') \<and>
      (ok s' \<and> ds_laws (x_ds X) \<and> clean_key ''/db/heads'' \<and>
       other_views ''/db/heads'' (view s') = other_views ''/db/heads'' (view s)) \<and> hv s' = hv s \<and>
      set cs = dom (head_map X ns (hv s)) \<and> distinct cs \<and> sorted (map (cid_Bytes (x_cid X)) cs)"
    using assms clock_lawsD(1) [OF X(1)] clean_store_keys
    by (intro kv_store.heads_List_step [OF store_kv [OF store_prefix_mem(3)] _ X]) simp_all
  then show ?thesis by (elim ex_forward) simp
qed

lemma clock_Put:
  assumes "ok s" and X: "clock_laws X"
  shows "\<exists>s'. bs_Put (x_block X) (NewBlockstore (prefixed (x_ds X) D ''/db/blocks'')) b s = (Inr (), s') \<and> ok s' \<and>
      bv s' = put_block (x_block X) b (bv s) \<and>
      other_views ''/db/blocks'' (view s') = other_views ''/db/blocks'' (view s)"
  using kv_store.bs_Put_step [OF store_kv [OF store_prefix_mem(4)] _ clock_lawsD(4) [OF X]] assms(1) clock_lawsD(1) [OF X]
    clean_store_keys by blast

lemma clock_Has:
  assumes "ok s" and X: "clock_laws X"
  shows "\<exists>s'. bs_Has (x_block X) (NewBlockstore (prefixed (x_ds X) D ''/db/blocks'')) c s =
      (Inr (bv s (bo_DsKey (x_block X) c) \<noteq> None), s') \<and> ok s' \<and> bv s' = bv s \<and>
      other_views ''/db/blocks'' (view s') = other_views ''/db/blocks'' (view s)"
  using kv_store.bs_Has_step [OF store_kv [OF store_prefix_mem(4)] _ clock_lawsD(4) [OF X]] assms(1) clock_lawsD(1) [OF X]
    clean_store_keys by blast

end

section \<open>Processing the links of a node\<close>

text \<open>What one link does to the heads.\<close>

definition link_head :: "'c \<Rightarrow> u64 \<Rightarrow> ('c \<Rightarrow> bool) \<Rightarrow> 'c \<Rightarrow> ('c \<Rightarrow> u64 option) \<Rightarrow> 'c \<Rightarrow> u64 option" where
  "link_head root prio known c m =
     (if c \<in> dom m then m(c := None, root \<mapsto> prio) else if known c then m(root \<mapsto> prio) else m)"

text \<open>The children a node asks for: the links that are neither heads nor known blocks.\<close>

fun link_children :: "'c \<Rightarrow> u64 \<Rightarrow> ('c \<Rightarrow> bool) \<Rightarrow> 'c list \<Rightarrow> ('c \<Rightarrow> u64 option) \<Rightarrow> 'c list" where
  "link_children root prio known [] m = []"
| "link_children root prio known (c # cs) m =
     (if c \<in> dom m \<or> known c then [] else [c]) @ link_children root prio known cs (link_head root prio known c m)"

text \<open>A node without head links starts a DAG: it is written as a head first.\<close>

definition first_head :: "'c \<Rightarrow> u64 \<Rightarrow> 'c DAGLink list \<Rightarrow> ('c \<Rightarrow> u64 option) \<Rightarrow> 'c \<Rightarrow> u64 option" where
  "first_head root prio ls m = (if list_ex (\<lambda>l. dl_Name l = ''_head'') ls then m else m(root \<mapsto> prio))"

definition heads_upd ::
    "('c, 'n) pkgs \<Rightarrow> 'c HeadStoreKey \<Rightarrow> (string \<Rightarrow> bytes option) \<Rightarrow> (string \<Rightarrow> bytes option) \<Rightarrow> ('c \<Rightarrow> u64 option) \<Rightarrow> bool" where
  "heads_upd X ns w w' m \<longleftrightarrow> head_map X ns w' = m \<and> (heads_inv X ns w \<longrightarrow> heads_inv X ns w') \<and>
     (\<forall>ns'. ns_wf ns' \<longrightarrow> ns' \<noteq> ns \<longrightarrow>
        head_map X ns' w' = head_map X ns' w \<and> heads_inv X ns' w' = heads_inv X ns' w)"

lemma heads_upd_refl: "heads_upd X ns w w (head_map X ns w)"
  by (simp add: heads_upd_def)

lemma heads_upd_trans: "heads_upd X ns w w' m \<Longrightarrow> heads_upd X ns w' w'' m' \<Longrightarrow> heads_upd X ns w w'' m'"
  by (simp add: heads_upd_def)

lemma heads_upd_write:
  assumes "clock_laws X" and "ns_wf ns"
  shows "heads_upd X ns w (w(hkey X ns c \<mapsto> put_uvarint h)) ((head_map X ns w)(c \<mapsto> h))"
    and "heads_upd X ns w (w(hkey X ns c := None)) ((head_map X ns w)(c := None))"
  using head_map_upd [OF assms, of w c] head_map_other [OF assms] heads_inv_upd [of X ns w]
  by (auto simp: heads_upd_def)

lemma link_head_all:
  assumes "root \<notin> set cs" and "dom m \<subseteq> insert root (set cs)" and "root \<in> dom m \<longrightarrow> m root = Some prio" and "dom m \<noteq> {}"
  shows "fold (link_head root prio known) cs m = [root \<mapsto> prio]"
  using assms
proof (induction cs arbitrary: m)
  case Nil
  then show ?case by (auto simp: fun_eq_iff dom_def)
next
  case (Cons c cs)
  have "fold (link_head root prio known) cs (link_head root prio known c m) = [root \<mapsto> prio]"
    using Cons.prems by (intro Cons.IH) (auto simp: link_head_def)
  then show ?case by simp
qed

text \<open>A node that does not link to itself takes the place of the heads it links to.\<close>

lemma link_head_heads:
  assumes "root \<notin> set cs"
  shows "fold (link_head root prio known) cs m =
    (if \<exists>c \<in> set cs. c \<in> dom m \<or> known c then (m |` (- set cs))(root \<mapsto> prio) else m)"
  using assms
proof (induction cs arbitrary: m)
  case (Cons c cs)
  define m' where "m' = link_head root prio known c m"
  have IH: "fold (link_head root prio known) (c # cs) m =
      (if \<exists>x \<in> set cs. x \<in> dom m' \<or> known x then (m' |` (- set cs))(root \<mapsto> prio) else m')"
    using Cons by (simp add: m'_def)
  show ?case
  proof (cases "c \<in> dom m \<or> known c")
    case False
    then have m': "m' = m" "c \<notin> dom m" by (auto simp: m'_def link_head_def)
    then have "m |` (- set cs) = m |` (- set (c # cs))" by (auto simp: restrict_map_def fun_eq_iff)
    with False IH show ?thesis by (auto simp: m')
  next
    case True
    then have m': "m' = (m(c := None))(root \<mapsto> prio)" by (auto simp: m'_def link_head_def)
    have dom': "x \<in> dom m' \<longleftrightarrow> x \<noteq> c \<and> x \<in> dom m" if "x \<in> set cs" for x using Cons.prems that by (auto simp: m')
    have "(m' |` (- set cs))(root \<mapsto> prio) = (m |` (- set (c # cs)))(root \<mapsto> prio)"
      by (auto simp: m' restrict_map_def fun_eq_iff)
    moreover have "m' = (m |` (- set (c # cs)))(root \<mapsto> prio)" if "\<not> (\<exists>x \<in> set cs. x \<in> dom m' \<or> known x)"
      using that dom' Cons.prems by (auto simp: m' restrict_map_def fun_eq_iff dom_def)
    ultimately show ?thesis using IH True by (auto split: if_splits)
  qed
qed simp

lemma link_children_unknown:
  assumes "root \<notin> set cs" and "\<forall>c \<in> dom m. known c \<or> c = root"
  shows "link_children root prio known cs m = filter (\<lambda>c. \<not> known c) cs"
  using assms
proof (induction cs arbitrary: m)
  case (Cons c cs)
  have "link_children root prio known cs (link_head root prio known c m) = filter (\<lambda>c. \<not> known c) cs"
    using Cons.prems by (intro Cons.IH) (auto simp: link_head_def split: if_splits)
  then show ?case using Cons.prems by auto
qed simp

context kv_store
begin

lemma process_links_spec:
  fixes mc :: "('s, 'c, 'n) MerkleClock"
  assumes "ok s" and X: "clock_laws X" "ns_wf ns"
    and mc: "mc_headset mc = NewHeadSet (prefixed (x_ds X) D ''/db/heads'') ns"
      "ds_Blockstore (mc_dagstore mc) = NewBlockstore (prefixed (x_ds X) D ''/db/blocks'')"
  shows "\<exists>s'. process_links X mc root prio ls ch s =
      (Inr (ch @ link_children root prio (\<lambda>c. bv s (bo_DsKey (x_block X) c) \<noteq> None) (map dl_Cid ls) (head_map X ns (hv s))), s') \<and> ok s' \<and>
    other_views ''/db/heads'' (view s') = other_views ''/db/heads'' (view s) \<and>
    heads_upd X ns (hv s) (hv s')
      (fold (link_head root prio (\<lambda>c. bv s (bo_DsKey (x_block X) c) \<noteq> None)) (map dl_Cid ls) (head_map X ns (hv s)))"
  using assms(1)
proof (induction ls arbitrary: s ch)
  case Nil
  then show ?case by (simp add: heads_upd_refl)
next
  case (Cons l ls)
  let ?c = "dl_Cid l" and ?known = "\<lambda>s c. bv s (bo_DsKey (x_block X) c) \<noteq> None"
  let ?o = "\<lambda>s. other_views ''/db/heads'' (view s)"
  obtain s1 where 1: "IsHead X (mc_headset mc) ?c s = (Inr (?c \<in> dom (head_map X ns (hv s))), s1)" "ok s1" "hv s1 = hv s" "?o s1 = ?o s"
    using clock_IsHead [OF Cons.prems X] mc by metis
  have step: ?case
    if P: "process_links X mc root prio (l # ls) ch s = process_links X mc root prio ls
          (ch @ (if ?c \<in> dom (head_map X ns (hv s)) \<or> ?known s ?c then [] else [?c])) s2" "ok s2" "?o s2 = ?o s"
      "heads_upd X ns (hv s) (hv s2) (link_head root prio (?known s) ?c (head_map X ns (hv s)))" for s2
  proof -
    have "bv s2 = bv s" using head_frame(1) P(3) by blast
    moreover have "head_map X ns (hv s2) = link_head root prio (?known s) ?c (head_map X ns (hv s))"
      using P(4) by (simp add: heads_upd_def)
    ultimately obtain s' where s': "process_links X mc root prio ls
          (ch @ (if ?c \<in> dom (head_map X ns (hv s)) \<or> ?known s ?c then [] else [?c])) s2 =
        (Inr ((ch @ (if ?c \<in> dom (head_map X ns (hv s)) \<or> ?known s ?c then [] else [?c])) @
          link_children root prio (?known s) (map dl_Cid ls) (link_head root prio (?known s) ?c (head_map X ns (hv s)))), s')"
      "ok s'" "?o s' = ?o s2"
      "heads_upd X ns (hv s2) (hv s') (fold (link_head root prio (?known s)) (map dl_Cid ls)
         (link_head root prio (?known s) ?c (head_map X ns (hv s))))"
      using Cons.IH [OF P(2), of "ch @ (if ?c \<in> dom (head_map X ns (hv s)) \<or> ?known s ?c then [] else [?c])"] by auto
    have "process_links X mc root prio (l # ls) ch s =
        (Inr (ch @ link_children root prio (?known s) (map dl_Cid (l # ls)) (head_map X ns (hv s))), s')"
      using P(1) s'(1) by (simp only: list.map link_children.simps append_assoc)
    moreover have "heads_upd X ns (hv s) (hv s') (fold (link_head root prio (?known s)) (map dl_Cid (l # ls)) (head_map X ns (hv s)))"
      using heads_upd_trans [OF P(4) s'(4)] by simp
    ultimately show ?thesis using s'(2,3) P(3) by (intro exI [of _ s']) (simp only: simp_thms)
  qed
  show ?case
  proof (cases "?c \<in> dom (head_map X ns (hv s))")
    case True
    obtain s2 where 2: "heads_Replace X (mc_headset mc) ?c root prio s1 = (Inr (), s2)" "ok s2"
      "hv s2 = (hv s1)(hkey X ns ?c := None, hkey X ns root \<mapsto> put_uvarint prio)" "?o s2 = ?o s1"
      using clock_Replace [OF 1(2) X, of ?c root prio] mc by metis
    have "heads_upd X ns (hv s) (hv s2) ((head_map X ns (hv s))(?c := None, root \<mapsto> prio))"
      using heads_upd_trans [OF heads_upd_write(2) [OF X, of "hv s" ?c] heads_upd_write(1) [OF X, of _ root prio]] 2(3) 1(3)
      by (simp add: head_map_upd [OF X])
    with 1 2 True show ?thesis
      by (intro step [of s2]) (simp_all add: Let_def atry_def link_head_def)
  next
    case False
    obtain s2 where 2: "bs_Has (x_block X) (ds_Blockstore (mc_dagstore mc)) ?c s1 = (Inr (?known s1 ?c), s2)" "ok s2"
      "bv s2 = bv s1" "other_views ''/db/blocks'' (view s2) = other_views ''/db/blocks'' (view s1)"
      using clock_Has [OF 1(2) X(1), of ?c] mc by metis
    have o2: "?o s2 = ?o s1" and h2: "hv s2 = hv s1"
      using other_viewsD [OF 2(4)] 2(3) by (auto simp: other_views_def fun_eq_iff)
    have k: "?known s1 ?c = ?known s ?c" using head_frame(1) [OF 1(4)] by simp
    obtain s3 where 3: "heads_Write X (mc_headset mc) root prio s2 = (Inr (), s3)" "ok s3"
      "hv s3 = (hv s2)(hkey X ns root \<mapsto> put_uvarint prio)" "?o s3 = ?o s2"
      using clock_Write [OF 2(2) X, of root prio] mc by metis
    show ?thesis
    proof (cases "?known s ?c")
      case True
      have "heads_upd X ns (hv s) (hv s3) ((head_map X ns (hv s))(root \<mapsto> prio))"
        using heads_upd_write(1) [OF X, of "hv s" root prio] 3(3) h2 1(3) by simp
      with 1 2(1) o2 3 k False True show ?thesis
        by (intro step [of s3]) (simp_all add: Let_def atry_def link_head_def)
    next
      case unknown: False
      have "heads_upd X ns (hv s) (hv s2) (head_map X ns (hv s))"
        using heads_upd_refl h2 1(3) by metis
      with 1 2(1,2) o2 k False unknown show ?thesis
        by (intro step [of s2]) (simp_all add: Let_def atry_def link_head_def)
    qed
  qed
qed

end

section \<open>A local update\<close>

text \<open>
  What the clock relies on of a replicated data type: merging a delta succeeds, acts on an abstract
  value of the data store and leaves the other stores alone.
\<close>

locale replicated = kv_store D view ok
  for D :: "'s DSReaderWriter" and view :: "'s \<Rightarrow> string \<Rightarrow> bytes option" and ok :: "'s \<Rightarrow> bool" +
  fixes R :: "('s, 'c, 'n) ReplicatedData"
    and inv :: "(string \<Rightarrow> bytes option) \<Rightarrow> bool"
    and abst :: "(string \<Rightarrow> bytes option) \<Rightarrow> 'a"
    and app :: "'c Delta \<Rightarrow> 'a \<Rightarrow> 'a"
    and good :: "'c Delta \<Rightarrow> bool"
  assumes Merge: "ok s \<Longrightarrow> inv (sub_view ''/db/data'' (view s)) \<Longrightarrow> good d \<Longrightarrow>
      \<exists>s'. rd_Merge R d i s = (Inr (), s') \<and> ok s' \<and>
        other_views ''/db/data'' (view s') = other_views ''/db/data'' (view s) \<and>
        inv (sub_view ''/db/data'' (view s')) \<and>
        abst (sub_view ''/db/data'' (view s')) = app d (abst (sub_view ''/db/data'' (view s)))"

definition next_height :: "('c, 'n) pkgs \<Rightarrow> 'c HeadStoreKey \<Rightarrow> (string \<Rightarrow> bytes option) \<Rightarrow> u64" where
  "next_height X ns w = Max (insert 0 (ran (head_map X ns w))) + 1"

context replicated
begin

abbreviation clock :: "('c, 'n) pkgs \<Rightarrow> 'c HeadStoreKey \<Rightarrow> ('s, 'c, 'n) MerkleClock" where
  "clock X ns \<equiv> NewMerkleClock (Headstore (MultiStoreFrom (x_ds X) D)) (DAGstore (MultiStoreFrom (x_ds X) D)) ns R"

lemma clock_fields:
  assumes "clock_laws X"
  shows "mc_headset (clock X ns) = NewHeadSet (prefixed (x_ds X) D ''/db/heads'') ns"
    and "ds_Blockstore (mc_dagstore (clock X ns)) = NewBlockstore (prefixed (x_ds X) D ''/db/blocks'')"
    and "mc_crdt (clock X ns) = R"
  by (simp_all add: NewMerkleClock_def MultiStoreFrom_stores [OF clock_lawsD(1) [OF assms]] NewDAGStore_def)

lemma ProcessNode_step:
  fixes n :: 'n and root :: 'c and prio :: u64
  assumes "ok s" and X: "clock_laws X" "ns_wf ns" and "inv (dv s)" and "good d"
  defines "m \<equiv> first_head root prio (dag_Links (x_dag X) n) (head_map X ns (hv s))"
    and "cs \<equiv> map dl_Cid (dag_Links (x_dag X) n)" and "known \<equiv> \<lambda>c. bv s (bo_DsKey (x_block X) c) \<noteq> None"
  shows "\<exists>s'. ProcessNode X (clock X ns) root prio d n s = (Inr (link_children root prio known cs m), s') \<and> ok s' \<and>
    heads_upd X ns (hv s) (hv s') (fold (link_head root prio known) cs m) \<and> bv s' = bv s \<and> inv (dv s') \<and>
    abst (dv s') = app d (abst (dv s)) \<and>
    sub_view ''/db/system'' (view s') = sub_view ''/db/system'' (view s)"
proof -
  let ?ls = "dag_Links (x_dag X) n"
  obtain s1 where 1: "rd_Merge R d (bo_DsKey (x_block X) (dag_Cid (x_dag X) n)) s = (Inr (), s1)" "ok s1"
    "other_views ''/db/data'' (view s1) = other_views ''/db/data'' (view s)" "inv (dv s1)" "abst (dv s1) = app d (abst (dv s))"
    using Merge [OF assms(1,4,5)] by blast
  have f1: "hv s1 = hv s" "bv s1 = bv s" "sub_view ''/db/system'' (view s1) = sub_view ''/db/system'' (view s)"
    using other_viewsD [OF 1(3)] by simp_all
  let ?w = "if list_ex (\<lambda>l. dl_Name l = ''_head'') ?ls then ret () else heads_Write X (mc_headset (clock X ns)) root prio"
  have "\<exists>s2. ?w s1 = (Inr (), s2) \<and> ok s2 \<and> other_views ''/db/heads'' (view s2) = other_views ''/db/heads'' (view s1) \<and>
      heads_upd X ns (hv s) (hv s2) m"
    using clock_Write [OF 1(2) X, of root prio] heads_upd_write(1) [OF X, of "hv s" root prio] heads_upd_refl [of X ns "hv s"] f1 1(2)
    by (auto simp: m_def first_head_def clock_fields [OF X(1)])
  then obtain s2 where 2: "?w s1 = (Inr (), s2)" "ok s2" "other_views ''/db/heads'' (view s2) = other_views ''/db/heads'' (view s1)"
    "heads_upd X ns (hv s) (hv s2) m" by blast
  have "bv s2 = bv s" using head_frame(1) [OF 2(3)] f1(2) by simp
  then have kn: "(\<lambda>c. bv s2 (bo_DsKey (x_block X) c) \<noteq> None) = known" by (simp add: known_def)
  have m2: "head_map X ns (hv s2) = m" using 2(4) by (simp add: heads_upd_def)
  obtain s3 where 3: "process_links X (clock X ns) root prio ?ls [] s2 = (Inr (link_children root prio known cs m), s3)" "ok s3"
    "other_views ''/db/heads'' (view s3) = other_views ''/db/heads'' (view s2)"
    "heads_upd X ns (hv s2) (hv s3) (fold (link_head root prio known) cs m)"
    using process_links_spec [OF 2(2) X clock_fields(1,2) [OF X(1)], of root prio ?ls "[]"]
    unfolding kn m2 cs_def [symmetric] by auto
  have "other_views ''/db/heads'' (view s3) = other_views ''/db/heads'' (view s1)" using 3(3) 2(3) by simp
  from other_viewsD [OF this] f1 have "bv s3 = bv s" "dv s3 = dv s1"
    "sub_view ''/db/system'' (view s3) = sub_view ''/db/system'' (view s)" by simp_all
  moreover have "ProcessNode X (clock X ns) root prio d n s = (Inr (link_children root prio known cs m), s3)"
    using 1(1) 2(1) 3(1) by (simp add: ProcessNode_def clock_fields [OF X(1)] atry_def Let_def)
  ultimately show ?thesis using 1(4,5) 3(2) heads_upd_trans [OF 2(4) 3(4)] by auto
qed

lemma ProcessNode_spec:
  fixes n :: 'n
  assumes "ok s" and X: "clock_laws X" "ns_wf ns" and "inv (dv s)" and "good d"
    and root: "root \<notin> dl_Cid ` set (dag_Links (x_dag X) n)" "root \<notin> dom (head_map X ns (hv s))"
    and heads: "dom (head_map X ns (hv s)) \<subseteq> dl_Cid ` set (dag_Links (x_dag X) n)"
    and named: "(\<exists>l \<in> set (dag_Links (x_dag X) n). dl_Name l = ''_head'') \<longleftrightarrow> dom (head_map X ns (hv s)) \<noteq> {}"
  shows "\<exists>ch s'. ProcessNode X (clock X ns) root prio d n s = (Inr ch, s') \<and> ok s' \<and>
    heads_upd X ns (hv s) (hv s') [root \<mapsto> prio] \<and> bv s' = bv s \<and> inv (dv s') \<and> abst (dv s') = app d (abst (dv s)) \<and>
    sub_view ''/db/system'' (view s') = sub_view ''/db/system'' (view s)"
proof -
  let ?m = "first_head root prio (dag_Links (x_dag X) n) (head_map X ns (hv s))"
  have "fold (link_head root prio known) (map dl_Cid (dag_Links (x_dag X) n)) ?m = [root \<mapsto> prio]" for known
    using root heads named by (intro link_head_all) (auto simp: first_head_def list_ex_iff)
  then show ?thesis using ProcessNode_step [OF assms(1) X assms(4,5), of root prio n] by auto
qed

lemma AddDAGNode_spec:
  assumes "ok s" and X: "clock_laws X" "ns_wf ns" and "heads_inv X ns (hv s)" and "inv (dv s)"
    and good: "good (SetPriority (next_height X ns (hv s)) d)"
    and names: "dom (head_map X ns (hv s)) = {} \<Longrightarrow> \<forall>l \<in> set (delta_links (Some d)). dl_Name l \<noteq> ''_head''"
  defines "d' \<equiv> SetPriority (next_height X ns (hv s)) d"
  shows "\<exists>cs n s'. AddDAGNode X (clock X ns) d s = (Inr (n, d'), s') \<and> ok s' \<and>
    set cs = dom (head_map X ns (hv s)) \<and> makeNode X (Some d') cs = Inr n \<and>
    heads_upd X ns (hv s) (hv s') [dag_Cid (x_dag X) n \<mapsto> next_height X ns (hv s)] \<and>
    bv s' = put_block (x_block X) \<lparr>blk_Cid = dag_Cid (x_dag X) n, blk_RawData = dag_RawData (x_dag X) n\<rparr> (bv s) \<and>
    inv (dv s') \<and> abst (dv s') = app d' (abst (dv s)) \<and>
    sub_view ''/db/system'' (view s') = sub_view ''/db/system'' (view s)"
proof -
  let ?h = "next_height X ns (hv s)" and ?m = "head_map X ns (hv s)"
  obtain cs s1 where 1: "heads_List X (mc_headset (clock X ns)) s = (Inr (cs, Max (insert 0 (ran ?m))), s1)" "ok s1"
    "hv s1 = hv s" "other_views ''/db/heads'' (view s1) = other_views ''/db/heads'' (view s)" "set cs = dom ?m"
    using clock_List [OF assms(1) X assms(4)] clock_fields(1) [OF X(1)] by metis
  have sp: "SetPriority h (SetPriority h d) = SetPriority h d" "delta_links (Some (SetPriority h d)) = delta_links (Some d)" for h
    by (cases d; simp)+
  obtain n where n: "makeNode X (Some d') cs = Inr n"
    "set (dag_Links (x_dag X) n) = (\<lambda>h. \<lparr>dl_Name = ''_head'', dl_Cid = h\<rparr>) ` dom ?m \<union> set (delta_links (Some d))"
    using makeNode_spec [OF X(1), of d' cs] 1(5) sp(2) d'_def by metis
  let ?b = "\<lparr>blk_Cid = dag_Cid (x_dag X) n, blk_RawData = dag_RawData (x_dag X) n\<rparr>"
  obtain s2 where 2: "bs_Put (x_block X) (ds_Blockstore (mc_dagstore (clock X ns))) ?b s1 = (Inr (), s2)" "ok s2"
    "bv s2 = put_block (x_block X) ?b (bv s1)" "other_views ''/db/blocks'' (view s2) = other_views ''/db/blocks'' (view s1)"
    using clock_Put [OF 1(2) X(1), of ?b] clock_fields(2) [OF X(1)] by metis
  have f2: "hv s2 = hv s" "dv s2 = dv s" "sub_view ''/db/system'' (view s2) = sub_view ''/db/system'' (view s)" "bv s1 = bv s"
    using other_viewsD [OF 2(4)] other_viewsD [OF 1(4)] 1(3) by simp_all
  have "dag_Cid (x_dag X) n \<notin> dl_Cid ` set (dag_Links (x_dag X) n)"
    using clock_lawsD(5) [OF X(1)] by (force simp: dag_laws_def)
  moreover have "dom ?m \<subseteq> dl_Cid ` set (dag_Links (x_dag X) n)" unfolding n(2) by force
  moreover have "(\<exists>l \<in> set (dag_Links (x_dag X) n). dl_Name l = ''_head'') \<longleftrightarrow> dom ?m \<noteq> {}"
    unfolding n(2) using names by (auto simp: bex_Un simp del: dom_eq_empty_conv)
  moreover from calculation have "dag_Cid (x_dag X) n \<notin> dom ?m" by blast
  ultimately obtain ch s3 where 3: "ProcessNode X (clock X ns) (dag_Cid (x_dag X) n) ?h d' n s2 = (Inr ch, s3)" "ok s3"
    "heads_upd X ns (hv s) (hv s3) [dag_Cid (x_dag X) n \<mapsto> ?h]" "bv s3 = bv s2" "inv (dv s3)" "abst (dv s3) = app d' (abst (dv s))"
    "sub_view ''/db/system'' (view s3) = sub_view ''/db/system'' (view s)"
    using ProcessNode_spec [OF 2(2) X, of d' "dag_Cid (x_dag X) n" n ?h] good assms(5) f2 unfolding d'_def by auto
  have "AddDAGNode X (clock X ns) d s = (Inr (n, d'), s3)"
    using 1(1) n(1) 2(1) 3(1) sp
    by (simp add: AddDAGNode_def atry_def abind_def Let_def putBlock_def d'_def next_height_def)
  with 1(5) n(1) 2(3) 3 f2 show ?thesis by (intro exI [of _ cs] exI [of _ n] exI [of _ s3]) simp
qed

end

end
