(* ===== verification/MerkleCrdt.thy ===== *)
theory MerkleCrdt
  imports ClockSpec
begin

text \<open>
  The Merkle CRDTs (\<^verbatim>\<open>merkle/crdt\<close>): a replicated data type behind a Merkle clock, made by a factory
  from the stores of a multistore. Setting a register or a composite makes a delta and publishes it
  as a node of the DAG.
\<close>

section \<open>The data types as replicated data\<close>

definition reg_data :: "('c, 'n) pkgs \<Rightarrow> 's LWWRegister \<Rightarrow> ('s, 'c, 'n) ReplicatedData" where
  "reg_data X reg =
     \<lparr>rd_ID = Reg_ID reg, rd_Merge = (\<lambda>other i. Reg_Merge (pk_NewKey (x_ds X)) reg other),
      rd_DeltaDecode = Reg_DeltaDecode (x_codec X) (x_dag X), rd_Value = Reg_Value (pk_NewKey (x_ds X)) reg\<rparr>"

definition comp_data :: "('c, 'n) pkgs \<Rightarrow> 's CompositeDAG \<Rightarrow> ('s, 'c, 'n) ReplicatedData" where
  "comp_data X c =
     \<lparr>rd_ID = Comp_ID c, rd_Merge = (\<lambda>other i. Comp_Merge (pk_NewKey (x_ds X)) c other),
      rd_DeltaDecode = Comp_DeltaDecode (x_codec X) (x_dag X), rd_Value = Comp_Value c\<rparr>"

section \<open>The base\<close>

record ('s, 'c, 'n) baseMerkleCRDT =
  bm_clock :: "('s, 'c, 'n) MerkleClock"
  bm_crdt :: "('s, 'c, 'n) ReplicatedData"

definition base_Merge :: "('s, 'c, 'n) baseMerkleCRDT \<Rightarrow> 'c Delta \<Rightarrow> string \<Rightarrow> ('s, unit) act" where
  "base_Merge base other i = rd_Merge (bm_crdt base) other i"

definition base_DeltaDecode :: "('s, 'c, 'n) baseMerkleCRDT \<Rightarrow> 'n ipld_node \<Rightarrow> error + 'c Delta" where
  "base_DeltaDecode base node = rd_DeltaDecode (bm_crdt base) node"

definition base_Value :: "('s, 'c, 'n) baseMerkleCRDT \<Rightarrow> ('s, bytes) act" where
  "base_Value base = rd_Value (bm_crdt base)"

definition base_ID :: "('s, 'c, 'n) baseMerkleCRDT \<Rightarrow> string" where
  "base_ID base = rd_ID (bm_crdt base)"

definition Publish :: "('c, 'n) pkgs \<Rightarrow> ('s, 'c, 'n) baseMerkleCRDT \<Rightarrow> 'c Delta \<Rightarrow> ('s, 'n \<times> 'c Delta) act" where
  "Publish X base delta = AddDAGNode X (bm_clock base) delta"

section \<open>The Merkle register\<close>

record ('s, 'c, 'n) MerkleLWWRegister =
  ml_base :: "('s, 'c, 'n) baseMerkleCRDT"
  ml_reg :: "'s LWWRegister"

definition NewMerkleLWWRegister ::
    "('c, 'n) pkgs \<Rightarrow> 's DSReaderWriter \<Rightarrow> 's DSReaderWriter \<Rightarrow> 's dagStore \<Rightarrow> string \<Rightarrow> DataStoreKey \<Rightarrow> string \<Rightarrow>
     ('s, 'c, 'n) MerkleLWWRegister" where
  "NewMerkleLWWRegister X datastore headstore dagstore schemaVersionKey key fieldName =
     (let register = NewLWWRegister datastore schemaVersionKey key fieldName;
          clk = NewMerkleClock headstore dagstore (ToHeadStoreKey key) (reg_data X register)
      in \<lparr>ml_base = \<lparr>bm_clock = clk, bm_crdt = reg_data X register\<rparr>, ml_reg = register\<rparr>)"

definition ML_Set :: "('c, 'n) pkgs \<Rightarrow> ('s, 'c, 'n) MerkleLWWRegister \<Rightarrow> bytes \<Rightarrow> ('s, 'n \<times> u64) act" where
  "ML_Set X m value =
     abind (Publish X (ml_base m) (LWWDelta (Reg_Set (ml_reg m) value))) (\<lambda>(nd, delta). ret (nd, GetPriority delta))"

definition ML_Value :: "('c, 'n) pkgs \<Rightarrow> ('s, 'c, 'n) MerkleLWWRegister \<Rightarrow> ('s, bytes) act" where
  "ML_Value X m = Reg_Value (pk_NewKey (x_ds X)) (ml_reg m)"

definition ML_Merge :: "('c, 'n) pkgs \<Rightarrow> ('s, 'c, 'n) MerkleLWWRegister \<Rightarrow> 'c Delta \<Rightarrow> string \<Rightarrow> ('s, unit) act" where
  "ML_Merge X m other i = Reg_Merge (pk_NewKey (x_ds X)) (ml_reg m) other"

section \<open>The Merkle composite\<close>

record ('s, 'c, 'n) MerkleCompositeDAG =
  mcd_base :: "('s, 'c, 'n) baseMerkleCRDT"
  mcd_reg :: "'s CompositeDAG"

definition NewMerkleCompositeDAG ::
    "('c, 'n) pkgs \<Rightarrow> 's DSReaderWriter \<Rightarrow> 's DSReaderWriter \<Rightarrow> 's dagStore \<Rightarrow> string \<Rightarrow> DataStoreKey \<Rightarrow> string \<Rightarrow>
     ('s, 'c, 'n) MerkleCompositeDAG" where
  "NewMerkleCompositeDAG X datastore headstore dagstore schemaVersionKey key fieldName =
     (let compositeDag = NewCompositeDAG datastore schemaVersionKey key fieldName;
          clk = NewMerkleClock headstore dagstore (ToHeadStoreKey key) (comp_data X compositeDag)
      in \<lparr>mcd_base = \<lparr>bm_clock = clk, bm_crdt = comp_data X compositeDag\<rparr>, mcd_reg = compositeDag\<rparr>)"

definition MC_Delete :: "('c, 'n) pkgs \<Rightarrow> ('s, 'c, 'n) MerkleCompositeDAG \<Rightarrow> 'c DAGLink list \<Rightarrow> ('s, 'n \<times> u64) act" where
  "MC_Delete X m links =
     abind (Publish X (mcd_base m) (CompositeDelta ((Comp_Set (x_cid X) (mcd_reg m) [] links)\<lparr>cd_Status := Deleted\<rparr>)))
       (\<lambda>(nd, delta). ret (nd, GetPriority delta))"

definition MC_Set :: "('c, 'n) pkgs \<Rightarrow> ('s, 'c, 'n) MerkleCompositeDAG \<Rightarrow> bytes \<Rightarrow> 'c DAGLink list \<Rightarrow> ('s, 'n \<times> u64) act" where
  "MC_Set X m patch links =
     abind (Publish X (mcd_base m) (CompositeDelta (Comp_Set (x_cid X) (mcd_reg m) patch links)))
       (\<lambda>(nd, delta). ret (nd, GetPriority delta))"

definition MC_Value :: "('s, 'c, 'n) MerkleCompositeDAG \<Rightarrow> ('s, bytes) act" where
  "MC_Value m = Comp_Value (mcd_reg m)"

definition MC_Merge :: "('c, 'n) pkgs \<Rightarrow> ('s, 'c, 'n) MerkleCompositeDAG \<Rightarrow> 'c Delta \<Rightarrow> string \<Rightarrow> ('s, unit) act" where
  "MC_Merge X m other i = Comp_Merge (pk_NewKey (x_ds X)) (mcd_reg m) other"

section \<open>The factory\<close>

datatype ('s, 'c, 'n) MerkleCRDT =
    MerkleLWW "('s, 'c, 'n) MerkleLWWRegister"
  | MerkleComposite "('s, 'c, 'n) MerkleCompositeDAG"

type_synonym CType = byte

definition COMPOSITE :: CType where
  "COMPOSITE = 3"

type_synonym ('s, 'c, 'n) MerkleCRDTFactory = "'s multistore \<Rightarrow> string \<Rightarrow> string \<Rightarrow> DataStoreKey \<Rightarrow> ('s, 'c, 'n) MerkleCRDT"

definition lwwFactoryFn :: "('c, 'n) pkgs \<Rightarrow> ('s, 'c, 'n) MerkleCRDTFactory" where
  "lwwFactoryFn X mstore schemaID fieldName key =
     MerkleLWW (NewMerkleLWWRegister X (Datastore_of mstore) (Headstore mstore) (DAGstore mstore) schemaID key fieldName)"

definition compFactoryFn :: "('c, 'n) pkgs \<Rightarrow> ('s, 'c, 'n) MerkleCRDTFactory" where
  "compFactoryFn X mstore schemaID fieldName key =
     MerkleComposite (NewMerkleCompositeDAG X (Datastore_of mstore) (Headstore mstore) (DAGstore mstore) schemaID key fieldName)"

record ('s, 'c, 'n) Factory =
  fa_crdts :: "CType \<Rightarrow> ('s, 'c, 'n) MerkleCRDTFactory option"
  fa_multistore :: "'s multistore option"

definition NewFactory :: "'s multistore option \<Rightarrow> ('s, 'c, 'n) Factory" where
  "NewFactory ms = \<lparr>fa_crdts = Map.empty, fa_multistore = ms\<rparr>"

definition Factory_Register :: "CType \<Rightarrow> ('s, 'c, 'n) MerkleCRDTFactory \<Rightarrow> ('s, 'c, 'n) Factory \<Rightarrow> ('s, 'c, 'n) Factory" where
  "Factory_Register t fn factory = factory\<lparr>fa_crdts := (fa_crdts factory)(t \<mapsto> fn)\<rparr>"

text \<open>The default factory after the \<^verbatim>\<open>init\<close> functions of the two files have run.\<close>

definition DefaultFactory :: "('c, 'n) pkgs \<Rightarrow> ('s, 'c, 'n) Factory" where
  "DefaultFactory X =
     Factory_Register LWW_REGISTER (lwwFactoryFn X) (Factory_Register COMPOSITE (compFactoryFn X) (NewFactory None))"

definition ErrFactoryTypeNoExist :: error where
  "ErrFactoryTypeNoExist = ErrNamed ''no such factory for the given type exists''"

definition getRegisteredFactory :: "('s, 'c, 'n) Factory \<Rightarrow> CType \<Rightarrow> error + ('s, 'c, 'n) MerkleCRDTFactory" where
  "getRegisteredFactory factory t =
     (case fa_crdts factory t of None \<Rightarrow> Inl ErrFactoryTypeNoExist | Some fn \<Rightarrow> Inr fn)"

definition InstanceWithStores ::
    "('s, 'c, 'n) Factory \<Rightarrow> 's multistore \<Rightarrow> string \<Rightarrow> CType \<Rightarrow> DataStoreKey \<Rightarrow> string \<Rightarrow> error + ('s, 'c, 'n) MerkleCRDT" where
  "InstanceWithStores factory store schemaVersionKey t key fieldName =
     (case getRegisteredFactory factory t of
        Inl err \<Rightarrow> Inl err | Inr fn \<Rightarrow> Inr (fn store schemaVersionKey fieldName key))"

definition SetStores :: "'s multistore \<Rightarrow> ('s, 'c, 'n) Factory \<Rightarrow> ('s, 'c, 'n) Factory" where
  "SetStores ms factory = factory\<lparr>fa_multistore := Some ms\<rparr>"

definition WithStores :: "'s multistore \<Rightarrow> ('s, 'c, 'n) Factory \<Rightarrow> ('s, 'c, 'n) Factory" where
  "WithStores ms factory = factory\<lparr>fa_multistore := Some ms\<rparr>"

section \<open>Both keep the contract of the clock\<close>

lemma ns_wf_field: "doc_wf k \<Longrightarrow> clean_part f \<Longrightarrow> ns_wf (ToHeadStoreKey (WithFieldId k f))"
  by (simp add: ns_wf_def ToHeadStoreKey_def WithFieldId_def doc_wf_def)

context kv_store
begin

lemma kv_const: "kv_store D view (\<lambda>s. ok s \<and> A)"
proof
  fix s k v p
  assume s: "ok s \<and> A"
  show "clean_key k" if "view s k = Some v" using Clean s that by blast
  assume k: "clean_key k"
  show "\<exists>s'. ds_Get D k s = ((case view s k of None \<Rightarrow> Inl ErrNotFound | Some v \<Rightarrow> Inr v), s') \<and> (ok s' \<and> A) \<and> view s' = view s"
    using Get [OF _ k] s by blast
  show "\<exists>s'. ds_Has D k s = (Inr (view s k \<noteq> None), s') \<and> (ok s' \<and> A) \<and> view s' = view s"
    using Has [OF _ k] s by blast
  show "\<exists>s'. ds_GetSize D k s = ((case view s k of None \<Rightarrow> Inl ErrNotFound | Some v \<Rightarrow> Inr (length v)), s') \<and> (ok s' \<and> A) \<and> view s' = view s"
    using GetSize [OF _ k] s by blast
  show "\<exists>s'. ds_Put D k v s = (Inr (), s') \<and> (ok s' \<and> A) \<and> view s' = (view s)(k \<mapsto> v)"
    using Put [OF _ k] s by blast
  show "\<exists>s'. ds_Delete D k s = (Inr (), s') \<and> (ok s' \<and> A) \<and> view s' = (view s)(k := None)"
    using Delete [OF _ k] s by blast
  show "\<exists>es s'. ds_Query D \<lparr>q_Prefix = k, q_KeysOnly = False\<rparr> s = (Inr es, s') \<and> (ok s' \<and> A) \<and> view s' = view s \<and>
      distinct (map e_Key es) \<and>
      (\<forall>x v. (x, v) \<in> set (map (\<lambda>e. (e_Key e, e_Value e)) es) \<longleftrightarrow> view s x = Some v \<and> below k x)"
    using Query [OF conjunct1 [OF s] k] by (elim ex_forward) (simp add: s)
qed

lemma data_kv:
  assumes "ok s" and "clock_laws X"
  defines "P \<equiv> \<lambda>s'. ok s' \<and> ds_laws (x_ds X) \<and> clean_key ''/db/data'' \<and>
    other_views ''/db/data'' (view s') = other_views ''/db/data'' (view s)"
  shows "kv_store (prefixed (x_ds X) D ''/db/data'') dv P" and "P s"
    and "Datastore_of (MultiStoreFrom (x_ds X) D) = prefixed (x_ds X) D ''/db/data''"
proof -
  show "kv_store (prefixed (x_ds X) D ''/db/data'') dv P" unfolding P_def by (rule store_kv) simp
  show "P s" using assms(1) clock_lawsD(1) [OF assms(2)] clean_store_keys by (simp add: P_def)
  show "Datastore_of (MultiStoreFrom (x_ds X) D) = prefixed (x_ds X) D ''/db/data''"
    by (rule MultiStoreFrom_stores [OF clock_lawsD(1) [OF assms(2)]])
qed

lemma register_replicated:
  fixes X :: "('c, 'n) pkgs"
  shows "replicated D view (\<lambda>s. ok s \<and> clock_laws X \<and> doc_wf k \<and> clean_part f)
     (reg_data X (NewLWWRegister (Datastore_of (MultiStoreFrom (x_ds X) D)) sv (WithFieldId k f) n))
     (doc_inv k) (\<lambda>w. w) (\<lambda>d w. case d of LWWDelta x \<Rightarrow> merge_field k w f (lw_Priority x, lw_Data x) | _ \<Rightarrow> w)
     (\<lambda>d. \<exists>x. d = LWWDelta x)"
proof (intro replicated.intro kv_const replicated_axioms.intro)
  fix s and d :: "'c Delta" and i
  assume s: "ok s \<and> clock_laws X \<and> doc_wf k \<and> clean_part f" and inv: "doc_inv k (dv s)" and "\<exists>x. d = LWWDelta x"
  then obtain x where d: "d = LWWDelta x" by blast
  have X: "clock_laws X" and k: "doc_wf k" and f: "clean_part f" using s by simp_all
  note N = ds_lawsD(1) [OF clock_lawsD(1) [OF X]] and kv = data_kv [OF conjunct1 [OF s] X]
  obtain s' where s': "Reg_Merge (pk_NewKey (x_ds X))
      (NewLWWRegister (prefixed (x_ds X) D ''/db/data'') sv (WithFieldId k f) n) (LWWDelta x :: 'c Delta) s = (Inr (), s')"
    "ok s' \<and> ds_laws (x_ds X) \<and> clean_key ''/db/data'' \<and>
      other_views ''/db/data'' (view s') = other_views ''/db/data'' (view s)"
    "dv s' = merge_field k (dv s) f (lw_Priority x, lw_Data x)"
    using kv_store.field_merge_spec [OF kv(1), OF kv(2) N k f inv, of sv n x] .
  then show "\<exists>s'. rd_Merge (reg_data X (NewLWWRegister (Datastore_of (MultiStoreFrom (x_ds X) D)) sv (WithFieldId k f) n)) d i s = (Inr (), s') \<and>
      (ok s' \<and> clock_laws X \<and> doc_wf k \<and> clean_part f) \<and>
      other_views ''/db/data'' (view s') = other_views ''/db/data'' (view s) \<and> doc_inv k (dv s') \<and>
      dv s' = (case d of LWWDelta x \<Rightarrow> merge_field k (dv s) f (lw_Priority x, lw_Data x) | _ \<Rightarrow> dv s)"
    using X k f merge_field_spec(1) [OF k f inv, of "(lw_Priority x, lw_Data x)"]
    by (intro exI [of _ s']) (simp add: reg_data_def d kv(3))
qed

lemma composite_replicated:
  fixes X :: "('c, 'n) pkgs"
  shows "replicated D view (\<lambda>s. ok s \<and> clock_laws X \<and> doc_wf k)
     (comp_data X (NewCompositeDAG (Datastore_of (MultiStoreFrom (x_ds X) D)) sv k n))
     (doc_inv k) (abs_doc k) (\<lambda>d. case d of CompositeDelta x \<Rightarrow> apply_op (DocDelta x) | _ \<Rightarrow> id)
     (\<lambda>d. \<exists>x. d = CompositeDelta x)"
proof (intro replicated.intro kv_const replicated_axioms.intro)
  fix s and d :: "'c Delta" and i
  assume s: "ok s \<and> clock_laws X \<and> doc_wf k" and inv: "doc_inv k (dv s)" and "\<exists>x. d = CompositeDelta x"
  then obtain x where d: "d = CompositeDelta x" by blast
  have X: "clock_laws X" and k: "doc_wf k" using s by simp_all
  note N = ds_lawsD(1) [OF clock_lawsD(1) [OF X]] and kv = data_kv [OF conjunct1 [OF s] X]
  obtain s' where s': "Comp_Merge (pk_NewKey (x_ds X))
      (NewCompositeDAG (prefixed (x_ds X) D ''/db/data'') sv k n) (CompositeDelta x) s = (Inr (), s')"
    "ok s' \<and> ds_laws (x_ds X) \<and> clean_key ''/db/data'' \<and>
      other_views ''/db/data'' (view s') = other_views ''/db/data'' (view s)"
    "doc_inv k (dv s')" "abs_doc k (dv s') = apply_op (DocDelta x) (abs_doc k (dv s))"
    using kv_store.doc_merge_refines [OF kv(1), OF kv(2) N k inv, of sv n x] by blast
  then show "\<exists>s'. rd_Merge (comp_data X (NewCompositeDAG (Datastore_of (MultiStoreFrom (x_ds X) D)) sv k n)) d i s = (Inr (), s') \<and>
      (ok s' \<and> clock_laws X \<and> doc_wf k) \<and>
      other_views ''/db/data'' (view s') = other_views ''/db/data'' (view s) \<and> doc_inv k (dv s') \<and>
      abs_doc k (dv s') = (case d of CompositeDelta x \<Rightarrow> apply_op (DocDelta x) | _ \<Rightarrow> id) (abs_doc k (dv s))"
    using X k by (intro exI [of _ s']) (simp add: comp_data_def d kv(3))
qed

section \<open>Setting a register\<close>

abbreviation merkle_reg :: "('c, 'n) pkgs \<Rightarrow> string \<Rightarrow> DataStoreKey \<Rightarrow> string \<Rightarrow> ('s, 'c, 'n) MerkleLWWRegister" where
  "merkle_reg X sv key n \<equiv>
     NewMerkleLWWRegister X (Datastore_of (MultiStoreFrom (x_ds X) D)) (Headstore (MultiStoreFrom (x_ds X) D))
       (DAGstore (MultiStoreFrom (x_ds X) D)) sv key n"

lemma ML_Set_step:
  fixes X :: "('c, 'n) pkgs"
  assumes "ok s" and X: "clock_laws X" and k: "doc_wf k" and f: "clean_part f"
    and inv: "heads_inv X ns (hv s)" "doc_inv k (dv s)" and prio: "stored_prio k (dv s) f < next_height X ns (hv s)"
    and ns: "ns = ToHeadStoreKey (WithFieldId k f)"
  shows "\<exists>nd s'. ML_Set X (merkle_reg X sv (WithFieldId k f) n) v s = (Inr (nd, next_height X ns (hv s)), s') \<and> ok s' \<and>
    heads_upd X ns (hv s) (hv s') [dag_Cid (x_dag X) nd \<mapsto> next_height X ns (hv s)] \<and>
    bv s' = put_block (x_block X) \<lparr>blk_Cid = dag_Cid (x_dag X) nd, blk_RawData = dag_RawData (x_dag X) nd\<rparr> (bv s) \<and>
    doc_inv k (dv s') \<and> dv s' = write_field k (dv s) f (next_height X ns (hv s), v) \<and>
    sub_view ''/db/system'' (view s') = sub_view ''/db/system'' (view s)"
proof -
  let ?reg = "NewLWWRegister (Datastore_of (MultiStoreFrom (x_ds X) D)) sv (WithFieldId k f) n"
  let ?h = "next_height X ns (hv s)" and ?d = "LWWDelta (Reg_Set ?reg v) :: 'c Delta"
  have nsw: "ns_wf ns" using ns_wf_field [OF k f] by (simp add: ns)
  have "lww (stored_prio k (dv s) f, stored_value k (dv s) f) (?h, v) \<noteq> (stored_prio k (dv s) f, stored_value k (dv s) f)"
    using prio by (auto simp: lww_def)
  then have w: "merge_field k (dv s) f (?h, v) = write_field k (dv s) f (?h, v)" by (simp add: merge_field_def)
  note add = replicated.AddDAGNode_spec [OF register_replicated [where sv = sv and n = n and X = X and k = k and f = f],
      OF _ X nsw inv, where d = ?d]
  obtain nd s' where "AddDAGNode X (NewMerkleClock (Headstore (MultiStoreFrom (x_ds X) D)) (DAGstore (MultiStoreFrom (x_ds X) D)) ns
      (reg_data X ?reg)) ?d s = (Inr (nd, SetPriority ?h ?d), s')" "ok s'"
    "heads_upd X ns (hv s) (hv s') [dag_Cid (x_dag X) nd \<mapsto> ?h]"
    "bv s' = put_block (x_block X) \<lparr>blk_Cid = dag_Cid (x_dag X) nd, blk_RawData = dag_RawData (x_dag X) nd\<rparr> (bv s)"
    "doc_inv k (dv s')" "dv s' = write_field k (dv s) f (?h, v)"
    "sub_view ''/db/system'' (view s') = sub_view ''/db/system'' (view s)"
    using add assms(1) X k f w by (auto simp: Reg_Set_def)
  then show ?thesis
    by (intro exI [of _ nd] exI [of _ s'])
      (simp add: ML_Set_def Publish_def NewMerkleLWWRegister_def Let_def abind_def Reg_Set_def ns)
qed

text \<open>Reading the register back.\<close>

lemma ML_Value_step:
  fixes X :: "('c, 'n) pkgs"
  assumes "ok s" and X: "clock_laws X" and k: "doc_wf k" and f: "clean_part f"
    and "\<not> marked_deleted k (dv s)" and "dv s (vkey k f) = Some (LWW_REGISTER # v)"
  shows "fst (ML_Value X (merkle_reg X sv (WithFieldId k f) n) s) = Inr v"
proof -
  note kv = data_kv [OF assms(1) X]
  have "fst (Reg_Value (pk_NewKey (x_ds X)) (NewLWWRegister (prefixed (x_ds X) D ''/db/data'') sv (WithFieldId k f) n) s) =
      Inr (stored_value k (dv s) f)"
    using kv_store.Reg_Value_spec [OF kv(1), OF kv(2) ds_lawsD(1) [OF clock_lawsD(1) [OF X]] k f assms(5,6)] .
  then show ?thesis
    using assms(5,6) by (simp add: ML_Value_def NewMerkleLWWRegister_def Let_def kv(3) stored_value_def tkey_def)
qed

end

lemma write_field_live:
  assumes "doc_wf k" and "clean_part f" and "\<not> marked_deleted k w"
  shows "stored_prio k (write_field k w f (p, v)) f = p" and "\<not> marked_deleted k (write_field k w f (p, v))"
    and "write_field k w f (p, v) (vkey k f) = Some (LWW_REGISTER # v)"
  using assms(3) doc_keys_distinct [OF assms(1,2,2)]
  by (auto simp: write_field_def stored_prio_def marked_deleted_def tkey_def)

text \<open>Setting a register to one value after the other.\<close>

fun set_values :: "('c, 'n) pkgs \<Rightarrow> ('s, 'c, 'n) MerkleLWWRegister \<Rightarrow> bytes list \<Rightarrow> ('s, unit) act" where
  "set_values X m [] = ret ()"
| "set_values X m (v # vs) = abind (ML_Set X m v) (\<lambda>_. set_values X m vs)"

definition top_height :: "('c, 'n) pkgs \<Rightarrow> 'c HeadStoreKey \<Rightarrow> (string \<Rightarrow> bytes option) \<Rightarrow> u64" where
  "top_height X ns w = Max (insert 0 (ran (head_map X ns w)))"

lemma next_height_top: "next_height X ns w = top_height X ns w + 1"
  by (simp add: next_height_def top_height_def)

lemma top_height_single: "head_map X ns w = [c \<mapsto> h] \<Longrightarrow> top_height X ns w = h"
  by (simp add: top_height_def)

lemma top_step:
  fixes h :: u64
  assumes "unat h + 1 < 2 ^ 64"
  shows "h < h + 1" and "unat (h + 1) = unat h + 1"
proof -
  show u: "unat (h + 1) = unat h + 1" using assms by (simp add: unat_word_ariths)
  then show "h < h + 1" by (simp add: word_less_nat_alt)
qed

context kv_store
begin

lemma set_values_spec:
  fixes X :: "('c, 'n) pkgs"
  assumes "ok s" and X: "clock_laws X" and k: "doc_wf k" and f: "clean_part f" and ns: "ns = ToHeadStoreKey (WithFieldId k f)"
    and "heads_inv X ns (hv s)" and "doc_inv k (dv s)" and "\<not> marked_deleted k (dv s)"
    and "stored_prio k (dv s) f \<le> top_height X ns (hv s)" and "vs \<noteq> []" and "unat (top_height X ns (hv s)) + length vs < 2 ^ 64"
  shows "\<exists>c h s'. set_values X (merkle_reg X sv (WithFieldId k f) n) vs s = (Inr (), s') \<and> ok s' \<and>
    head_map X ns (hv s') = [c \<mapsto> h] \<and> unat h = unat (top_height X ns (hv s)) + length vs \<and>
    stored_prio k (dv s') f = h \<and> fst (ML_Value X (merkle_reg X sv (WithFieldId k f) n) s') = Inr (last vs)"
  using assms(10,1,6-9,11)
proof (induction vs arbitrary: s rule: list_nonempty_induct)
  case (single v)
  note t = top_step [of "top_height X ns (hv s)"]
  have p: "stored_prio k (dv s) f < next_height X ns (hv s)"
    using order_le_less_trans [OF single(5) t(1)] single(6) by (simp add: next_height_top)
  obtain nd s' where "ML_Set X (merkle_reg X sv (WithFieldId k f) n) v s = (Inr (nd, next_height X ns (hv s)), s')" "ok s'"
    "heads_upd X ns (hv s) (hv s') [dag_Cid (x_dag X) nd \<mapsto> next_height X ns (hv s)]"
    "dv s' = write_field k (dv s) f (next_height X ns (hv s), v)"
    using ML_Set_step [OF single(1) X k f single(2,3) p ns, of sv n v] by blast
  moreover from this write_field_live [OF k f single(4)] have
    "fst (ML_Value X (merkle_reg X sv (WithFieldId k f) n) s') = Inr v" "stored_prio k (dv s') f = next_height X ns (hv s)"
    using ML_Value_step [OF \<open>ok s'\<close> X k f] by simp_all
  ultimately show ?case using t single(6)
    by (intro exI [of _ "dag_Cid (x_dag X) nd"] exI [of _ "next_height X ns (hv s)"] exI [of _ s'])
      (simp add: abind_def heads_upd_def next_height_top)
next
  case (cons v vs)
  note t = top_step [of "top_height X ns (hv s)"]
  have p: "stored_prio k (dv s) f < next_height X ns (hv s)"
    using order_le_less_trans [OF cons.prems(5) t(1)] cons.prems(6) by (simp add: next_height_top)
  obtain nd s1 where 1: "ML_Set X (merkle_reg X sv (WithFieldId k f) n) v s = (Inr (nd, next_height X ns (hv s)), s1)" "ok s1"
    "heads_upd X ns (hv s) (hv s1) [dag_Cid (x_dag X) nd \<mapsto> next_height X ns (hv s)]" "doc_inv k (dv s1)"
    "dv s1 = write_field k (dv s) f (next_height X ns (hv s), v)"
    using ML_Set_step [OF cons.prems(1) X k f cons.prems(2,3) p ns, of sv n v] by blast
  have h1: "top_height X ns (hv s1) = next_height X ns (hv s)" and i1: "heads_inv X ns (hv s1)"
    using 1(3) cons.prems(2) by (simp_all add: heads_upd_def top_height_single)
  have u: "unat (top_height X ns (hv s1)) = unat (top_height X ns (hv s)) + 1"
    using t cons.prems(6) by (simp add: h1 next_height_top)
  have "\<exists>c h s'. set_values X (merkle_reg X sv (WithFieldId k f) n) vs s1 = (Inr (), s') \<and> ok s' \<and>
    head_map X ns (hv s') = [c \<mapsto> h] \<and> unat h = unat (top_height X ns (hv s1)) + length vs \<and>
    stored_prio k (dv s') f = h \<and> fst (ML_Value X (merkle_reg X sv (WithFieldId k f) n) s') = Inr (last vs)"
    using cons.prems(6) write_field_live [OF k f cons.prems(4)] u 1(5)
    by (intro cons.IH [OF 1(2) i1 1(4)]) (simp_all add: h1)
  then show ?case
    by (elim ex_forward conjE, intro conjI) (use 1(1) u cons.hyps in \<open>simp_all add: abind_def\<close>)
qed

end

section \<open>Setting and deleting a document\<close>

lemma field_of_key [simp]:
  "ikey (WithFieldId k f) = ikey k" "mkey (WithFieldId k f) = mkey k" "doc_wf (WithFieldId k f) = doc_wf k"
  "doc_inv (WithFieldId k f) = doc_inv k" "abs_doc (WithFieldId k f) = abs_doc k"
proof -
  show i: "ikey (WithFieldId k f) = ikey k" "mkey (WithFieldId k f) = mkey k"
    by (auto simp: ikey_def mkey_def WithFieldId_def ToPrimaryDataStoreKey_def fun_eq_iff)
  show "doc_wf (WithFieldId k f) = doc_wf k" by (simp add: doc_wf_def WithFieldId_def)
  have m: "marked_deleted (WithFieldId k f) w = marked_deleted k w" for w by (simp add: marked_deleted_def i)
  have p: "stored_prio (WithFieldId k f) = stored_prio k" by (simp add: stored_prio_def fun_eq_iff i)
  have v: "stored_value (WithFieldId k f) = stored_value k" by (simp add: stored_value_def tkey_def fun_eq_iff i m)
  show "doc_inv (WithFieldId k f) = doc_inv k" by (rule ext) (simp add: doc_inv_def i m)
  show "abs_doc (WithFieldId k f) = abs_doc k"
    unfolding abs_doc_def [abs_def] p v i ..
qed

context kv_store
begin

abbreviation merkle_comp :: "('c, 'n) pkgs \<Rightarrow> string \<Rightarrow> DataStoreKey \<Rightarrow> string \<Rightarrow> ('s, 'c, 'n) MerkleCompositeDAG" where
  "merkle_comp X sv key n \<equiv>
     NewMerkleCompositeDAG X (Datastore_of (MultiStoreFrom (x_ds X) D)) (Headstore (MultiStoreFrom (x_ds X) D))
       (DAGstore (MultiStoreFrom (x_ds X) D)) sv key n"

lemma MC_Publish_step:
  fixes X :: "('c, 'n) pkgs" and c :: "'c CompositeDAGDelta"
  assumes "ok s" and X: "clock_laws X" and k: "doc_wf k" and f: "clean_part f" and ns: "ns = ToHeadStoreKey (WithFieldId k f)"
    and inv: "heads_inv X ns (hv s)" "doc_inv k (dv s)" and names: "dom (head_map X ns (hv s)) = {} \<Longrightarrow> \<forall>l \<in> set (cd_SubDAGs c). dl_Name l \<noteq> ''_head''"
  shows "\<exists>nd s'. Publish X (mcd_base (merkle_comp X sv (WithFieldId k f) n)) (CompositeDelta c) s =
      (Inr (nd, CompositeDelta (c\<lparr>cd_Priority := next_height X ns (hv s)\<rparr>)), s') \<and> ok s' \<and>
    heads_upd X ns (hv s) (hv s') [dag_Cid (x_dag X) nd \<mapsto> next_height X ns (hv s)] \<and>
    bv s' = put_block (x_block X) \<lparr>blk_Cid = dag_Cid (x_dag X) nd, blk_RawData = dag_RawData (x_dag X) nd\<rparr> (bv s) \<and>
    doc_inv k (dv s') \<and> abs_doc k (dv s') = apply_op (DocDelta c) (abs_doc k (dv s)) \<and>
    sub_view ''/db/system'' (view s') = sub_view ''/db/system'' (view s)"
proof -
  have nsw: "ns_wf ns" using ns_wf_field [OF k f] by (simp add: ns)
  have ap: "apply_op (DocDelta (c\<lparr>cd_Priority := h\<rparr>)) A = apply_op (DocDelta c) A" for h A by (cases A) simp
  note add = replicated.AddDAGNode_spec [OF composite_replicated [where sv = sv and n = n and X = X and k = "WithFieldId k f"],
      OF _ X nsw inv(1), where d = "CompositeDelta c"]
  have "\<exists>cs nd s'. AddDAGNode X (NewMerkleClock (Headstore (MultiStoreFrom (x_ds X) D)) (DAGstore (MultiStoreFrom (x_ds X) D)) ns
      (comp_data X (NewCompositeDAG (Datastore_of (MultiStoreFrom (x_ds X) D)) sv (WithFieldId k f) n))) (CompositeDelta c) s =
      (Inr (nd, SetPriority (next_height X ns (hv s)) (CompositeDelta c)), s') \<and> (ok s' \<and> clock_laws X \<and> doc_wf (WithFieldId k f)) \<and>
    set cs = dom (head_map X ns (hv s)) \<and> makeNode X (Some (SetPriority (next_height X ns (hv s)) (CompositeDelta c))) cs = Inr nd \<and>
    heads_upd X ns (hv s) (hv s') [dag_Cid (x_dag X) nd \<mapsto> next_height X ns (hv s)] \<and>
    bv s' = put_block (x_block X) \<lparr>blk_Cid = dag_Cid (x_dag X) nd, blk_RawData = dag_RawData (x_dag X) nd\<rparr> (bv s) \<and>
    doc_inv k (dv s') \<and> abs_doc k (dv s') = apply_op (DocDelta c) (abs_doc k (dv s)) \<and>
    sub_view ''/db/system'' (view s') = sub_view ''/db/system'' (view s)"
    using add assms(1) X k inv(2) names by (simp add: ap)
  then show ?thesis
    by (auto simp: Publish_def NewMerkleCompositeDAG_def Let_def ns)
qed

end

end
