(* ===== verification/Descriptions.thy ===== *)
theory Descriptions
  imports MerkleCrdt
begin

text \<open>
  Descriptions of collections, schemas and fields (\<^verbatim>\<open>client/descriptions.go\<close>), with the kinds of
  fields and the lookups by name and by id. A \<^verbatim>\<open>nil\<close> slice and an empty slice of fields are both
  the empty list.
\<close>

section \<open>Kinds and relation types\<close>

type_synonym FieldKind = byte
type_synonym RelationType = byte
type_synonym FieldID_t = u32

definition FieldKind_None :: FieldKind where "FieldKind_None = 0"
definition FieldKind_DocKey :: FieldKind where "FieldKind_DocKey = 1"
definition FieldKind_BOOL :: FieldKind where "FieldKind_BOOL = 2"
definition FieldKind_BOOL_ARRAY :: FieldKind where "FieldKind_BOOL_ARRAY = 3"
definition FieldKind_INT :: FieldKind where "FieldKind_INT = 4"
definition FieldKind_INT_ARRAY :: FieldKind where "FieldKind_INT_ARRAY = 5"
definition FieldKind_FLOAT :: FieldKind where "FieldKind_FLOAT = 6"
definition FieldKind_FLOAT_ARRAY :: FieldKind where "FieldKind_FLOAT_ARRAY = 7"
definition FieldKind_DATETIME :: FieldKind where "FieldKind_DATETIME = 10"
definition FieldKind_STRING :: FieldKind where "FieldKind_STRING = 11"
definition FieldKind_STRING_ARRAY :: FieldKind where "FieldKind_STRING_ARRAY = 12"
definition FieldKind_FOREIGN_OBJECT :: FieldKind where "FieldKind_FOREIGN_OBJECT = 16"
definition FieldKind_FOREIGN_OBJECT_ARRAY :: FieldKind where "FieldKind_FOREIGN_OBJECT_ARRAY = 17"
definition FieldKind_NILLABLE_BOOL_ARRAY :: FieldKind where "FieldKind_NILLABLE_BOOL_ARRAY = 18"
definition FieldKind_NILLABLE_INT_ARRAY :: FieldKind where "FieldKind_NILLABLE_INT_ARRAY = 19"
definition FieldKind_NILLABLE_FLOAT_ARRAY :: FieldKind where "FieldKind_NILLABLE_FLOAT_ARRAY = 20"
definition FieldKind_NILLABLE_STRING_ARRAY :: FieldKind where "FieldKind_NILLABLE_STRING_ARRAY = 21"

definition FieldKindStringToEnumMapping :: "string \<rightharpoonup> FieldKind" where
  "FieldKindStringToEnumMapping = map_of
     [(''ID'', FieldKind_DocKey),
      (''Boolean'', FieldKind_BOOL),
      (''[Boolean]'', FieldKind_NILLABLE_BOOL_ARRAY),
      (''[Boolean!]'', FieldKind_BOOL_ARRAY),
      (''Integer'', FieldKind_INT),
      (''[Integer]'', FieldKind_NILLABLE_INT_ARRAY),
      (''[Integer!]'', FieldKind_INT_ARRAY),
      (''DateTime'', FieldKind_DATETIME),
      (''Float'', FieldKind_FLOAT),
      (''[Float]'', FieldKind_NILLABLE_FLOAT_ARRAY),
      (''[Float!]'', FieldKind_FLOAT_ARRAY),
      (''String'', FieldKind_STRING),
      (''[String]'', FieldKind_NILLABLE_STRING_ARRAY),
      (''[String!]'', FieldKind_STRING_ARRAY)]"

definition Relation_Type_ONE :: RelationType where "Relation_Type_ONE = 1"
definition Relation_Type_MANY :: RelationType where "Relation_Type_MANY = 2"
definition Relation_Type_ONEONE :: RelationType where "Relation_Type_ONEONE = 4"
definition Relation_Type_ONEMANY :: RelationType where "Relation_Type_ONEMANY = 8"
definition Relation_Type_MANYMANY :: RelationType where "Relation_Type_MANYMANY = 16"
definition Relation_Type_INTERNAL_ID :: RelationType where "Relation_Type_INTERNAL_ID = 64"
definition Relation_Type_Primary :: RelationType where "Relation_Type_Primary = 128"

definition NONE_CRDT :: CType where
  "NONE_CRDT = 0"

section \<open>Descriptions\<close>

record FieldDescription =
  fd_Name :: string
  fd_ID :: FieldID_t
  fd_Kind :: FieldKind
  fd_Schema :: string
  fd_RelationName :: string
  fd_Typ :: CType
  fd_RelationType :: RelationType

record SchemaDescription =
  sd_SchemaID :: string
  sd_VersionID :: string
  sd_Name :: string
  sd_Fields :: "FieldDescription list"

record CollectionDescription =
  col_Name :: string
  col_ID :: u32
  col_Schema :: SchemaDescription

definition FieldID_String :: "FieldID_t \<Rightarrow> string" where
  "FieldID_String f = format_uint (unat f)"

definition IDString :: "CollectionDescription \<Rightarrow> string" where
  "IDString col = format_uint (unat (col_ID col))"

definition Schema_IsEmpty :: "SchemaDescription \<Rightarrow> bool" where
  "Schema_IsEmpty sd \<longleftrightarrow> length (sd_Fields sd) = 0"

text \<open>
  The lookups run over the fields and return the first that matches; the zero description and
  \<^verbatim>\<open>false\<close> are the value \<^const>\<open>None\<close>.
\<close>

definition GetField :: "CollectionDescription \<Rightarrow> string \<Rightarrow> FieldDescription option" where
  "GetField col name =
     (if \<not> Schema_IsEmpty (col_Schema col) then find (\<lambda>field. fd_Name field = name) (sd_Fields (col_Schema col)) else None)"

definition GetFieldByID :: "CollectionDescription \<Rightarrow> string \<Rightarrow> FieldDescription option" where
  "GetFieldByID col id' =
     (if \<not> Schema_IsEmpty (col_Schema col) then find (\<lambda>field. FieldID_String (fd_ID field) = id') (sd_Fields (col_Schema col))
      else None)"

definition GetRelation :: "CollectionDescription \<Rightarrow> string \<Rightarrow> FieldDescription option" where
  "GetRelation col name =
     (if \<not> Schema_IsEmpty (col_Schema col) then find (\<lambda>field. fd_RelationName field = name) (sd_Fields (col_Schema col))
      else None)"

definition GetFieldKey :: "SchemaDescription \<Rightarrow> string \<Rightarrow> u32" where
  "GetFieldKey sd fieldName =
     (case find (\<lambda>field. fd_Name field = fieldName) (sd_Fields sd) of None \<Rightarrow> 0 | Some field \<Rightarrow> fd_ID field)"

definition IsObject :: "FieldDescription \<Rightarrow> bool" where
  "IsObject f \<longleftrightarrow> fd_Kind f = FieldKind_FOREIGN_OBJECT \<or> fd_Kind f = FieldKind_FOREIGN_OBJECT_ARRAY"

definition IsObjectArray :: "FieldDescription \<Rightarrow> bool" where
  "IsObjectArray f \<longleftrightarrow> fd_Kind f = FieldKind_FOREIGN_OBJECT_ARRAY"

definition IsPrimaryRelation :: "FieldDescription \<Rightarrow> bool" where
  "IsPrimaryRelation f \<longleftrightarrow> fd_RelationType f > 0 \<and> and (fd_RelationType f) Relation_Type_Primary \<noteq> 0"

definition RelationType_IsSet :: "RelationType \<Rightarrow> RelationType \<Rightarrow> bool" where
  "RelationType_IsSet m target \<longleftrightarrow> and m target > 0"

end
