(* ===== verification/ClientDoc.thy ===== *)
theory ClientDoc
  imports Values Descriptions "HOL-Library.AList"
begin

text \<open>
  Documents as a client holds them (\<^verbatim>\<open>client/document.go\<close>, \<^verbatim>\<open>value.go\<close>, \<^verbatim>\<open>field.go\<close>) and their
  keys (\<^verbatim>\<open>client/dockey.go\<close>). A map of a document is an association list in the order in which Go
  happens to visit it; the locks of a document are left out, each method is one step.
\<close>

section \<open>Document keys\<close>

text \<open>What is used of the packages for UUIDs and multibase, with SDN's name space.\<close>

record 'u key_ops =
  uu_NewV5 :: "'u \<Rightarrow> string \<Rightarrow> 'u"
  uu_String :: "'u \<Rightarrow> string"
  uu_FromString :: "string \<Rightarrow> error + 'u"
  uu_SDNNamespaceV0 :: 'u
  mb_Encode :: "bytes \<Rightarrow> string"
  mb_Decode :: "string \<Rightarrow> error + bytes"

record ('u, 'c) DocKey =
  dky_version :: "16 word"
  dky_uuid :: 'u
  dky_cid :: "'c option"

definition DocKeyV0 :: "16 word" where
  "DocKeyV0 = 1"

definition ValidDocKeyVersions :: "16 word \<rightharpoonup> bool" where
  "ValidDocKeyVersions = [DocKeyV0 \<mapsto> True]"

definition ErrMalformedDocKey :: error where
  "ErrMalformedDocKey = ErrNamed ''malformed DocKey, missing either version or cid''"

definition ErrInvalidDocKeyVersion :: error where
  "ErrInvalidDocKeyVersion = ErrNamed ''invalid DocKey version''"

definition NewDocKeyV0 :: "'u key_ops \<Rightarrow> ('c \<Rightarrow> string) \<Rightarrow> 'c \<Rightarrow> ('u, 'c) DocKey" where
  "NewDocKeyV0 K cidString dataCID =
     \<lparr>dky_version = DocKeyV0, dky_uuid = uu_NewV5 K (uu_SDNNamespaceV0 K) (cidString dataCID), dky_cid = Some dataCID\<rparr>"

text \<open>\<^verbatim>\<open>binary.ReadUvarint\<close> on a buffer: no byte to read, a value that does not end, or an overflow are errors.\<close>

definition ReadUvarint :: "bytes \<Rightarrow> error + u64" where
  "ReadUvarint buf =
     (let (x, n) = uvarint buf in if n > 0 then Inr x else if n = 0 then Inl (ErrExternal ''EOF'') else Inl (ErrExternal ''overflow''))"

definition NewDocKeyFromString :: "'u key_ops \<Rightarrow> string \<Rightarrow> error + ('u, 'c) DocKey" where
  "NewDocKeyFromString K key =
     (case dropWhile (\<lambda>c. c \<noteq> CHR ''-'') key of
        [] \<Rightarrow> Inl ErrMalformedDocKey
      | _ # rest \<Rightarrow>
          (case mb_Decode K (takeWhile (\<lambda>c. c \<noteq> CHR ''-'') key) of
             Inl err \<Rightarrow> Inl err
           | Inr buf \<Rightarrow>
               (case ReadUvarint buf of
                  Inl err \<Rightarrow> Inl err
                | Inr version \<Rightarrow>
                    if ValidDocKeyVersions (ucast version) = None then Inl ErrInvalidDocKeyVersion
                    else (case uu_FromString K rest of
                            Inl err \<Rightarrow> Inl err
                          | Inr uuid \<Rightarrow> Inr \<lparr>dky_version = ucast version, dky_uuid = uuid, dky_cid = None\<rparr>))))"

text \<open>The buffer of \<^verbatim>\<open>String\<close> has one byte: a version that needs more would panic.\<close>

definition DocKey_String :: "'u key_ops \<Rightarrow> ('u, 'c) DocKey \<Rightarrow> error + string" where
  "DocKey_String K key =
     (let buf = put_uvarint (ucast (dky_version key))
      in if length buf > 1 then Inl GoPanic else Inr (mb_Encode K buf @ ''-'' @ uu_String K (dky_uuid key)))"

section \<open>Fields and values\<close>

record simpleField =
  sf_name :: string
  sf_crdtType :: CType
  sf_schemaType :: string

definition newField :: "CType \<Rightarrow> string \<Rightarrow> simpleField" where
  "newField t name = \<lparr>sf_name = name, sf_crdtType = t, sf_schemaType = []\<rparr>"

text \<open>
  A \<^verbatim>\<open>Value\<close> is a \<^verbatim>\<open>cborValue\<close>, which can be written, or a plain \<^verbatim>\<open>simpleValue\<close> (first
  component); what it holds is a dynamic value or a document.
\<close>

datatype ('u, 'c) Value =
    Value (v_cbor: bool) (v_t: CType) (v_value: "('u, 'c) dval") (v_isDirty: bool) (v_delete: bool)
  and ('u, 'c) dval = Plain any | SubDoc "('u, 'c) Document"
  and ('u, 'c) Document =
    Document (doc_key: "('u, 'c) DocKey") (doc_fields: "(string \<times> simpleField) list")
      (doc_values: "(simpleField \<times> ('u, 'c) Value) list") (doc_head: "'c option") (doc_isDirty: bool)

definition newValue :: "CType \<Rightarrow> ('u, 'c) dval \<Rightarrow> ('u, 'c) Value" where
  "newValue t val = Value False t val True False"

definition newCBORValue :: "CType \<Rightarrow> ('u, 'c) dval \<Rightarrow> ('u, 'c) Value" where
  "newCBORValue t val = Value True t val True False"

definition IsDocument :: "('u, 'c) Value \<Rightarrow> bool" where
  "IsDocument val = (case v_value val of SubDoc _ \<Rightarrow> True | Plain _ \<Rightarrow> False)"

definition Value_Clean :: "('u, 'c) Value \<Rightarrow> ('u, 'c) Value" where
  "Value_Clean val = Value (v_cbor val) (v_t val) (v_value val) False False"

definition Value_Delete :: "('u, 'c) Value \<Rightarrow> ('u, 'c) Value" where
  "Value_Delete val = Value (v_cbor val) (v_t val) (v_value val) True True"

text \<open>\<^verbatim>\<open>cbor.Marshal\<close> of a value is the argument \<open>cborMarshal\<close>.\<close>

definition Value_Bytes :: "(('u, 'c) dval \<Rightarrow> error + bytes) \<Rightarrow> ('u, 'c) Value \<Rightarrow> error + bytes" where
  "Value_Bytes cborMarshal v = cborMarshal (v_value v)"

section \<open>Documents\<close>

definition newEmptyDoc :: "('u, 'c) DocKey \<Rightarrow> ('u, 'c) Document" where
  "newEmptyDoc zeroKey = Document zeroKey [] [] None False"

definition NewDocWithKey :: "('u, 'c) DocKey \<Rightarrow> ('u, 'c) Document" where
  "NewDocWithKey key = newEmptyDoc key"

definition SetHead :: "'c \<Rightarrow> ('u, 'c) Document \<Rightarrow> ('u, 'c) Document" where
  "SetHead head doc = Document (doc_key doc) (doc_fields doc) (doc_values doc) (Some head) (doc_isDirty doc)"

definition NewErrFieldNotExist :: error where
  "NewErrFieldNotExist = ErrNamed ''The given field does not exist''"

definition ErrFieldNotObject :: error where
  "ErrFieldNotObject = ErrNamed ''trying to access field on a non object type''"

definition GetValueWithField :: "('u, 'c) Document \<Rightarrow> simpleField \<Rightarrow> error + ('u, 'c) Value" where
  "GetValueWithField doc f = (case map_of (doc_values doc) f of None \<Rightarrow> Inl NewErrFieldNotExist | Some v \<Rightarrow> Inr v)"

definition parseFieldPath :: "string \<Rightarrow> string \<times> string \<times> bool" where
  "parseFieldPath path =
     (case dropWhile (\<lambda>c. c \<noteq> CHR ''/'') path of
        [] \<Rightarrow> (path, [], False)
      | _ # rest \<Rightarrow> (takeWhile (\<lambda>c. c \<noteq> CHR ''/'') path, rest, True))"

lemma parseFieldPath_less: "parseFieldPath path = (p, sub, True) \<Longrightarrow> length sub < length path"
proof -
  assume p: "parseFieldPath path = (p, sub, True)"
  then obtain c where "dropWhile (\<lambda>c. c \<noteq> CHR ''/'') path = c # sub"
    by (auto simp: parseFieldPath_def split: list.splits)
  then have "length (c # sub) \<le> length path" by (metis length_dropWhile_le)
  then show ?thesis by simp
qed

function GetValue :: "('u, 'c) Document \<Rightarrow> string \<Rightarrow> error + ('u, 'c) Value" where
  "GetValue doc field =
     (case parseFieldPath field of
        (path, subPaths, hasSubPaths) \<Rightarrow>
          (case map_of (doc_fields doc) path of
             None \<Rightarrow> Inl NewErrFieldNotExist
           | Some f \<Rightarrow>
               (case GetValueWithField doc f of
                  Inl err \<Rightarrow> Inl err
                | Inr val \<Rightarrow>
                    if \<not> hasSubPaths then Inr val
                    else (case v_value val of Plain _ \<Rightarrow> Inl ErrFieldNotObject | SubDoc d \<Rightarrow> GetValue d subPaths))))"
  by pat_completeness auto
termination
  by (relation "measure (\<lambda>(d, f). length f)") (auto dest: parseFieldPath_less [OF sym])

declare GetValue.simps [simp del]

definition doc_Get :: "('u, 'c) Document \<Rightarrow> string \<Rightarrow> error + ('u, 'c) dval" where
  "doc_Get doc field = map_sum id v_value (GetValue doc field)"

definition doc_set :: "CType \<Rightarrow> string \<Rightarrow> ('u, 'c) Value \<Rightarrow> ('u, 'c) Document \<Rightarrow> ('u, 'c) Document" where
  "doc_set t field value doc =
     (let f = (case map_of (doc_fields doc) field of Some v \<Rightarrow> v | None \<Rightarrow> newField t field);
          fs = (case map_of (doc_fields doc) field of Some _ \<Rightarrow> doc_fields doc | None \<Rightarrow> AList.update field f (doc_fields doc))
      in Document (doc_key doc) fs (AList.update f value (doc_values doc)) (doc_head doc) True)"

definition setCBOR :: "CType \<Rightarrow> string \<Rightarrow> ('u, 'c) dval \<Rightarrow> ('u, 'c) Document \<Rightarrow> ('u, 'c) Document" where
  "setCBOR t field val doc = doc_set t field (newCBORValue t val) doc"

definition SetAs :: "string \<Rightarrow> ('u, 'c) dval \<Rightarrow> CType \<Rightarrow> ('u, 'c) Document \<Rightarrow> ('u, 'c) Document" where
  "SetAs field value t doc = setCBOR t field value doc"

definition OBJECT :: CType where
  "OBJECT = 2"

definition setObject :: "CType \<Rightarrow> string \<Rightarrow> ('u, 'c) Document \<Rightarrow> ('u, 'c) Document \<Rightarrow> ('u, 'c) Document" where
  "setObject t field val doc = doc_set t field (newValue t (SubDoc val)) doc"

definition doc_Delete :: "string list \<Rightarrow> ('u, 'c) Document \<Rightarrow> (error option) \<times> ('u, 'c) Document" where
  "doc_Delete fs doc =
     foldl (\<lambda>(err, d) f. case err of Some e \<Rightarrow> (err, d) | None \<Rightarrow>
       (case map_of (doc_fields d) f of
          None \<Rightarrow> (Some NewErrFieldNotExist, d)
        | Some field \<Rightarrow>
            (case map_of (doc_values d) field of
               None \<Rightarrow> (Some GoPanic, d)
             | Some v \<Rightarrow> (None, Document (doc_key d) (doc_fields d) (AList.update field (Value_Delete v) (doc_values d))
                 (doc_head d) (doc_isDirty d))))) (None, doc) fs"

text \<open>
  Values as they come from JSON: a dynamic value or an object. A floating-point number that is whole
  is stored as an integer; \<open>other\<close> is the conversion of numbers out of range.
\<close>

datatype raw = RVal any | RMap "(string \<times> raw) list"

definition ErrUnexpectedType :: error where
  "ErrUnexpectedType = ErrNamed ''unexpected type''"

definition NewErrUnhandledType :: error where
  "NewErrUnhandledType = ErrUnexpectedType"

fun setAndParseType ::
    "(float64 \<Rightarrow> 64 word) \<Rightarrow> ('u, 'c) DocKey \<Rightarrow> string \<Rightarrow> raw \<Rightarrow> ('u, 'c) Document \<Rightarrow> error + ('u, 'c) Document"
  and setAndParseObjectType ::
    "(float64 \<Rightarrow> 64 word) \<Rightarrow> ('u, 'c) DocKey \<Rightarrow> (string \<times> raw) list \<Rightarrow> ('u, 'c) Document \<Rightarrow> error + ('u, 'c) Document" where
  "setAndParseType other z field (RVal value) doc =
     (case value of
        Nil_any \<Rightarrow> Inr doc
      | GoInt val \<Rightarrow> Inr (setCBOR LWW_REGISTER field (Plain (Int64 val)) doc)
      | Float64 val \<Rightarrow>
          if f_eq (float_of_int (sint (int64_of_float other val))) val
          then Inr (setCBOR LWW_REGISTER field (Plain (Int64 (int64_of_float other val))) doc)
          else Inr (setCBOR LWW_REGISTER field (Plain (Float64 val)) doc)
      | Str val \<Rightarrow> Inr (setCBOR LWW_REGISTER field (Plain (Str val)) doc)
      | Bool val \<Rightarrow> Inr (setCBOR LWW_REGISTER field (Plain (Bool val)) doc)
      | Anys val \<Rightarrow> Inr (setCBOR LWW_REGISTER field (Plain (Anys val)) doc)
      | _ \<Rightarrow> Inl NewErrUnhandledType)"
| "setAndParseType other z field (RMap val) doc =
     (case setAndParseObjectType other z val (newEmptyDoc z) of
        Inl err \<Rightarrow> Inl err
      | Inr subDoc \<Rightarrow> Inr (setObject OBJECT field subDoc doc))"
| "setAndParseObjectType other z [] doc = Inr doc"
| "setAndParseObjectType other z ((k, v) # value) doc =
     (case setAndParseType other z k v doc of Inl err \<Rightarrow> Inl err | Inr doc' \<Rightarrow> setAndParseObjectType other z value doc')"

lemma sub_document_size:
  assumes "(f, v) \<in> set (doc_values doc)" and "v_value v = SubDoc d"
  shows "size d < size doc"
proof (cases doc)
  case (Document key fs vs h dirty)
  obtain a b e g where "v = Value a b (SubDoc d) e g" using assms(2) by (cases v) simp
  then have "size d < size v" by simp
  then have "size d < size_list (size_prod (\<lambda>_. 0) size) vs"
    using assms(1) Document by (auto intro!: size_list_estimation [of "(f, v)"])
  then show ?thesis using Document by simp
qed

text \<open>
  \<^verbatim>\<open>toMap\<close>: the map of a sub-document is computed, but then replaced by the document itself.
\<close>

function toMap :: "('u, 'c) Document \<Rightarrow> error + (string \<times> ('u, 'c) dval) list"
  and toMap_loop :: "('u, 'c) Document \<Rightarrow> (string \<times> simpleField) list \<Rightarrow> error + (string \<times> ('u, 'c) dval) list" where
  "toMap doc = toMap_loop doc (doc_fields doc)"
| "toMap_loop doc [] = Inr []"
| "toMap_loop doc ((k, v) # fs) =
     (case map_of (doc_values doc) v of
        None \<Rightarrow> Inl NewErrFieldNotExist
      | Some val \<Rightarrow>
          (case v_value val of
             Plain _ \<Rightarrow> map_sum id (Cons (k, v_value val)) (toMap_loop doc fs)
           | SubDoc subDoc \<Rightarrow>
               (case toMap subDoc of
                  Inl err \<Rightarrow> Inl err
                | Inr subDocMap \<Rightarrow> map_sum id (Cons (k, v_value val)) (toMap_loop doc fs))))"
  by pat_completeness auto
termination
  by (relation "inv_image (less_than <*lex*> less_than)
      (\<lambda>x. case x of Inl d \<Rightarrow> (size d, Suc (length (doc_fields d))) | Inr (d, fs) \<Rightarrow> (size d, length fs))")
    (auto dest: map_of_SomeD sub_document_size)

declare toMap.simps [simp del] toMap_loop.simps [simp del]

function toMapWithKey :: "'u key_ops \<Rightarrow> ('u, 'c) Document \<Rightarrow> error + (string \<times> ('u, 'c) dval) list"
  and toMapWithKey_loop :: "'u key_ops \<Rightarrow> ('u, 'c) Document \<Rightarrow> (string \<times> simpleField) list \<Rightarrow> error + (string \<times> ('u, 'c) dval) list" where
  "toMapWithKey K doc =
     (case toMapWithKey_loop K doc (doc_fields doc) of
        Inl err \<Rightarrow> Inl err
      | Inr docMap \<Rightarrow> map_sum id (\<lambda>key. AList.update ''_key'' (Plain (Str key)) docMap) (DocKey_String K (doc_key doc)))"
| "toMapWithKey_loop K doc [] = Inr []"
| "toMapWithKey_loop K doc ((k, v) # fs) =
     (case map_of (doc_values doc) v of
        None \<Rightarrow> Inl NewErrFieldNotExist
      | Some val \<Rightarrow>
          (case v_value val of
             Plain _ \<Rightarrow> map_sum id (Cons (k, v_value val)) (toMapWithKey_loop K doc fs)
           | SubDoc subDoc \<Rightarrow>
               (case toMapWithKey K subDoc of
                  Inl err \<Rightarrow> Inl err
                | Inr subDocMap \<Rightarrow> map_sum id (Cons (k, v_value val)) (toMapWithKey_loop K doc fs))))"
  by pat_completeness auto
termination
  by (relation "inv_image (less_than <*lex*> less_than)
      (\<lambda>x. case x of Inl (K, d) \<Rightarrow> (size d, Suc (length (doc_fields d))) | Inr (K, d, fs) \<Rightarrow> (size d, length fs))")
    (auto dest: map_of_SomeD sub_document_size)

declare toMapWithKey.simps [simp del] toMapWithKey_loop.simps [simp del]

definition doc_ToMap :: "'u key_ops \<Rightarrow> ('u, 'c) Document \<Rightarrow> error + (string \<times> ('u, 'c) dval) list" where
  "doc_ToMap K doc = toMapWithKey K doc"

text \<open>The canonical CBOR form of a map is the argument \<open>em\<close>.\<close>

definition doc_Bytes :: "((string \<times> ('u, 'c) dval) list \<Rightarrow> error + bytes) \<Rightarrow> ('u, 'c) Document \<Rightarrow> error + bytes" where
  "doc_Bytes em doc = (case toMap doc of Inl err \<Rightarrow> Inl err | Inr docMap \<Rightarrow> em docMap)"

definition NewDocFromMap ::
    "'u key_ops \<Rightarrow> ('c \<Rightarrow> string) \<Rightarrow> (bytes \<Rightarrow> error + 'c) \<Rightarrow> ((string \<times> ('u, 'c) dval) list \<Rightarrow> error + bytes) \<Rightarrow>
     (float64 \<Rightarrow> 64 word) \<Rightarrow> ('u, 'c) DocKey \<Rightarrow> (string \<times> raw) list \<Rightarrow> error + ('u, 'c) Document" where
  "NewDocFromMap K cidString sumCid em other z data =
     (let parse = (\<lambda>key d. setAndParseObjectType other z d (newEmptyDoc key))
      in case map_of data ''_key'' of
           Some k \<Rightarrow>
             (case k of
                RVal (Str kstr) \<Rightarrow>
                  (case NewDocKeyFromString K kstr of Inl err \<Rightarrow> Inl err | Inr key \<Rightarrow> parse key (AList.delete ''_key'' data))
              | _ \<Rightarrow> Inl ErrUnexpectedType)
         | None \<Rightarrow>
             (case parse z data of
                Inl err \<Rightarrow> Inl err
              | Inr doc \<Rightarrow>
                  (case doc_Bytes em doc of
                     Inl err \<Rightarrow> Inl err
                   | Inr buf \<Rightarrow>
                       (case sumCid buf of
                          Inl err \<Rightarrow> Inl err
                        | Inr c \<Rightarrow> Inr (Document (NewDocKeyV0 K cidString c) (doc_fields doc) (doc_values doc) (doc_head doc)
                            (doc_isDirty doc))))))"

text \<open>The loop of \<^verbatim>\<open>SetWithJSON\<close>: it stops at the first error, with the earlier entries set.\<close>

fun SetWithPatch ::
    "(float64 \<Rightarrow> 64 word) \<Rightarrow> ('u, 'c) DocKey \<Rightarrow> (string \<times> raw) list \<Rightarrow> ('u, 'c) Document \<Rightarrow> error option \<times> ('u, 'c) Document" where
  "SetWithPatch other z [] doc = (None, doc)"
| "SetWithPatch other z ((k, v) # patchObj) doc =
     (let r = (if v = RVal Nil_any then doc_Delete [k] doc
               else (case setAndParseType other z k v doc of Inl err \<Rightarrow> (Some err, doc) | Inr doc' \<Rightarrow> (None, doc')))
      in case r of (Some err, doc') \<Rightarrow> (Some err, doc') | (None, doc') \<Rightarrow> SetWithPatch other z patchObj doc')"

text \<open>
  \<^verbatim>\<open>Clean\<close> after a save. A deleted field gets a new value before the old one is cleaned, so that what
  is cleaned is no longer the value of the document.
\<close>

definition clean_field :: "simpleField \<Rightarrow> ('u, 'c) Document \<Rightarrow> error + ('u, 'c) Document" where
  "clean_field v doc =
     (case GetValueWithField doc v of
        Inl _ \<Rightarrow> Inl GoPanic
      | Inr val \<Rightarrow>
          if v_isDirty val then
            (if v_delete val then Inr (SetAs (sf_name v) (Plain Nil_any) (sf_crdtType v) doc)
             else Inr (Document (doc_key doc) (doc_fields doc) (AList.update v (Value_Clean val) (doc_values doc))
                    (doc_head doc) (doc_isDirty doc)))
          else Inr doc)"

fun clean_fields :: "(string \<times> simpleField) list \<Rightarrow> ('u, 'c) Document \<Rightarrow> error + ('u, 'c) Document" where
  "clean_fields [] doc = Inr doc"
| "clean_fields ((k, v) # fs) doc = (case clean_field v doc of Inl err \<Rightarrow> Inl err | Inr doc' \<Rightarrow> clean_fields fs doc')"

definition Clean :: "('u, 'c) Document \<Rightarrow> error + ('u, 'c) Document" where
  "Clean doc = clean_fields (doc_fields doc) doc"

end
