(* ===== verification/Catalog.thy ===== *)
theory Catalog
  imports Descriptions
begin

text \<open>
  The system catalogue of a database, kept in the system store of a transaction: sequences
  (\<^verbatim>\<open>db/sequence.go\<close>), collections and their schema versions (\<^verbatim>\<open>db/collection.go\<close>), the
  collections that take part in peer-to-peer updates (\<^verbatim>\<open>db/p2p_collection.go\<close>) and the replicators
  (\<^verbatim>\<open>db/replicator.go\<close>). A transaction and the database itself are given by their multistores. The
  key-value pairs that the code attaches to its errors are left out.
\<close>

section \<open>What is used of other packages\<close>

text \<open>
  CIDs (\<^verbatim>\<open>cid.Prefix.Sum\<close>, \<^verbatim>\<open>Cid.String\<close> and the codes of the raw codec and of SHA2-256) and
  the JSON form of the values that are stored or hashed. \<^verbatim>\<open>peer.AddrInfo\<close> is the type \<open>'i\<close>.
\<close>

record Prefix =
  pf_Version :: nat
  pf_Codec :: nat
  pf_MhType :: nat
  pf_MhLength :: int

record 'i Replicator =
  rp_Info :: 'i
  rp_Schemas :: "string list"

record ('c, 'i) cat_pkgs =
  ca_ds :: ds_ops
  ca_Raw :: nat
  ca_SHA2_256 :: nat
  ca_Sum :: "Prefix \<Rightarrow> bytes \<Rightarrow> error + 'c"
  ca_String :: "'c \<Rightarrow> string"
  ca_MarshalGlobal :: "string \<Rightarrow> SchemaDescription \<Rightarrow> error + bytes"
  ca_MarshalSchema :: "SchemaDescription \<Rightarrow> error + bytes"
  ca_MarshalDesc :: "CollectionDescription \<Rightarrow> error + bytes"
  ca_UnmarshalDesc :: "bytes \<Rightarrow> error + CollectionDescription"
  ca_IDString :: "'i \<Rightarrow> string"
  ca_MarshalRep :: "'i Replicator \<Rightarrow> error + bytes"
  ca_UnmarshalRep :: "bytes \<Rightarrow> error + 'i Replicator"

definition NewSHA256CidV1 :: "('c, 'i) cat_pkgs \<Rightarrow> bytes \<Rightarrow> error + 'c" where
  "NewSHA256CidV1 X data =
     (let pref = \<lparr>pf_Version = 1, pf_Codec = ca_Raw X, pf_MhType = ca_SHA2_256 X, pf_MhLength = - 1\<rparr>
      in ca_Sum X pref data)"

abbreviation sys_key :: "('c, 'i) cat_pkgs \<Rightarrow> SystemKey \<Rightarrow> string" where
  "sys_key X k \<equiv> System_ToDS (pk_NewKey (ca_ds X)) k"

section \<open>Sequences\<close>

record sequence =
  seq_key :: SystemKey
  seq_val :: u64

definition ErrKeyEmpty :: error where
  "ErrKeyEmpty = ErrNamed ''key cannot be empty''"

text \<open>The methods return the sequence as they leave it, next to their result.\<close>

definition seq_get :: "('c, 'i) cat_pkgs \<Rightarrow> 's multistore \<Rightarrow> sequence \<Rightarrow> ('s, u64 \<times> sequence) act" where
  "seq_get X txn seq =
     abind (ds_Get (Systemstore txn) (sys_key X (seq_key seq)))
       (\<lambda>val. abind (lift_sum (uint64_be val))
          (\<lambda>num. let seq' = seq\<lparr>seq_val := num\<rparr> in ret (seq_val seq', seq')))"

definition seq_update :: "('c, 'i) cat_pkgs \<Rightarrow> 's multistore \<Rightarrow> sequence \<Rightarrow> ('s, unit) act" where
  "seq_update X txn seq = ds_Put (Systemstore txn) (sys_key X (seq_key seq)) (put_uint64_be (seq_val seq))"

definition seq_next :: "('c, 'i) cat_pkgs \<Rightarrow> 's multistore \<Rightarrow> sequence \<Rightarrow> ('s, u64 \<times> sequence) act" where
  "seq_next X txn seq =
     abind (seq_get X txn seq)
       (\<lambda>(_, seq1). let seq2 = seq1\<lparr>seq_val := seq_val seq1 + 1\<rparr>
          in abind (seq_update X txn seq2) (\<lambda>_. ret (seq_val seq2, seq2)))"

definition getSequence :: "('c, 'i) cat_pkgs \<Rightarrow> 's multistore \<Rightarrow> string \<Rightarrow> ('s, sequence) act" where
  "getSequence X txn key =
     (if key = [] then fail ErrKeyEmpty
      else
        (let seq = \<lparr>seq_key = NewSequenceKey key, seq_val = 0\<rparr>
         in atry (seq_get X txn seq)
              (\<lambda>err. if errors_Is err ErrNotFound then abind (seq_update X txn seq) (\<lambda>_. ret seq) else fail err)
              (\<lambda>(_, seq'). ret seq')))"

section \<open>Collections\<close>

record collection =
  co_colID :: u32
  co_schemaID :: string
  co_desc :: CollectionDescription

definition KeyFieldName :: string where
  "KeyFieldName = ''_key''"

definition NewErrUninitializeProperty :: error where
  "NewErrUninitializeProperty = ErrNamed ''invalid state, required property is uninitialized''"

definition ErrSchemaFirstFieldDocKey :: error where
  "ErrSchemaFirstFieldDocKey = ErrNamed ''collection schema first field must be a DocKey''"

definition ErrCollectionAlreadyExists :: error where
  "ErrCollectionAlreadyExists = ErrNamed ''collection already exists''"

definition ErrCollectionNameEmpty :: error where
  "ErrCollectionNameEmpty = ErrNamed (''collection name can'' @ [CHR 0x27] @ ''t be empty'')"

definition ErrSchemaIdEmpty :: error where
  "ErrSchemaIdEmpty = ErrNamed (''schema ID can'' @ [CHR 0x27] @ ''t be empty'')"

definition ErrSchemaVersionIdEmpty :: error where
  "ErrSchemaVersionIdEmpty = ErrNamed (''schema version ID can'' @ [CHR 0x27] @ ''t be empty'')"

text \<open>The loop of \<^verbatim>\<open>newCollection\<close> that checks the fields and numbers them.\<close>

fun number_fields :: "nat \<Rightarrow> FieldDescription list \<Rightarrow> error + FieldDescription list" where
  "number_fields i [] = Inr []"
| "number_fields i (field # fs) =
     (if fd_Name field = [] then Inl NewErrUninitializeProperty
      else if fd_Kind field = FieldKind_None then Inl NewErrUninitializeProperty
      else if (fd_Kind field \<noteq> FieldKind_DocKey \<and> \<not> IsObject field) \<and> fd_Typ field = NONE_CRDT
        then Inl NewErrUninitializeProperty
      else map_sum id (Cons (field\<lparr>fd_ID := of_nat i\<rparr>)) (number_fields (i + 1) fs))"

definition newCollection :: "CollectionDescription \<Rightarrow> error + collection" where
  "newCollection desc =
     (if col_Name desc = [] then Inl NewErrUninitializeProperty
      else (case sd_Fields (col_Schema desc) of
        [] \<Rightarrow> Inl NewErrUninitializeProperty
      | docKeyField # _ \<Rightarrow>
          if fd_Kind docKeyField \<noteq> FieldKind_DocKey \<or> fd_Name docKeyField \<noteq> KeyFieldName
          then Inl ErrSchemaFirstFieldDocKey
          else map_sum id (\<lambda>fs.
                 \<lparr>co_colID = col_ID desc, co_schemaID = [],
                  co_desc = desc\<lparr>col_Schema := (col_Schema desc)\<lparr>sd_Fields := fs\<rparr>\<rparr>\<rparr>)
               (number_fields 0 (sd_Fields (col_Schema desc)))))"

definition createCollection ::
    "('c, 'i) cat_pkgs \<Rightarrow> 's multistore \<Rightarrow> CollectionDescription \<Rightarrow> ('s, collection) act" where
  "createCollection X txn desc =
     (let collectionKey = NewCollectionKey (col_Name desc)
      in abind (ds_Has (Systemstore txn) (sys_key X collectionKey)) (\<lambda>exists.
         if exists then fail ErrCollectionAlreadyExists
         else
           abind (getSequence X txn COLLECTION) (\<lambda>colSeq.
           abind (seq_next X txn colSeq) (\<lambda>(colID, _).
           abind (lift_sum (newCollection (desc\<lparr>col_ID := ucast colID\<rparr>))) (\<lambda>col.
           abind (lift_sum (ca_MarshalGlobal X (col_Name (co_desc col)) (col_Schema (co_desc col)))) (\<lambda>globalSchemaBuf.
           abind (lift_sum (NewSHA256CidV1 X globalSchemaBuf)) (\<lambda>cid.
           let schemaID = ca_String X cid; schemaVersionID = schemaID;
               desc' = (co_desc col)\<lparr>col_Schema :=
                 (col_Schema (co_desc col))\<lparr>sd_VersionID := schemaVersionID, sd_SchemaID := schemaID\<rparr>\<rparr>;
               col' = col\<lparr>co_schemaID := schemaID, co_desc := desc'\<rparr>
           in abind (lift_sum (ca_MarshalDesc X desc')) (\<lambda>buf.
              abind (ds_Put (Systemstore txn) (sys_key X (NewCollectionSchemaVersionKey schemaVersionID)) buf) (\<lambda>_.
              abind (ds_Put (Systemstore txn) (sys_key X (NewCollectionSchemaKey schemaID)) (to_bytes schemaVersionID)) (\<lambda>_.
              abind (ds_Put (Systemstore txn) (sys_key X collectionKey) (to_bytes schemaVersionID)) (\<lambda>_.
              ret col')))))))))))"

definition getCollectionByVersionID ::
    "('c, 'i) cat_pkgs \<Rightarrow> 's multistore \<Rightarrow> string \<Rightarrow> ('s, collection) act" where
  "getCollectionByVersionID X txn schemaVersionId =
     (if schemaVersionId = [] then fail ErrSchemaVersionIdEmpty
      else
        abind (ds_Get (Systemstore txn) (sys_key X (NewCollectionSchemaVersionKey schemaVersionId))) (\<lambda>buf.
        abind (lift_sum (ca_UnmarshalDesc X buf)) (\<lambda>desc.
        ret \<lparr>co_colID = col_ID desc, co_schemaID = sd_SchemaID (col_Schema desc), co_desc = desc\<rparr>)))"

definition getCollectionByName :: "('c, 'i) cat_pkgs \<Rightarrow> 's multistore \<Rightarrow> string \<Rightarrow> ('s, collection) act" where
  "getCollectionByName X txn name =
     (if name = [] then fail ErrCollectionNameEmpty
      else abind (ds_Get (Systemstore txn) (sys_key X (NewCollectionKey name)))
             (\<lambda>buf. getCollectionByVersionID X txn (of_bytes buf)))"

definition getCollectionBySchemaID :: "('c, 'i) cat_pkgs \<Rightarrow> 's multistore \<Rightarrow> string \<Rightarrow> ('s, collection) act" where
  "getCollectionBySchemaID X txn schemaID =
     (if schemaID = [] then fail ErrSchemaIdEmpty
      else abind (ds_Get (Systemstore txn) (sys_key X (NewCollectionSchemaKey schemaID)))
             (\<lambda>buf. getCollectionByVersionID X txn (of_bytes buf)))"

fun collect_collections :: "('c, 'i) cat_pkgs \<Rightarrow> 's multistore \<Rightarrow> Entry list \<Rightarrow> ('s, collection list) act" where
  "collect_collections X txn [] = ret []"
| "collect_collections X txn (res # q) =
     atry (getCollectionByVersionID X txn (of_bytes (e_Value res)))
       (\<lambda>err. fail (Wrapped ''failed to get collection'' err))
       (\<lambda>col. abind (collect_collections X txn q) (\<lambda>cols. ret (col # cols)))"

definition getAllCollections :: "('c, 'i) cat_pkgs \<Rightarrow> 's multistore \<Rightarrow> ('s, collection list) act" where
  "getAllCollections X txn =
     atry (ds_Query (Systemstore txn) \<lparr>q_Prefix = System_ToString (NewCollectionKey []), q_KeysOnly = False\<rparr>)
       (\<lambda>err. fail (Wrapped ''failed to create collection prefix query'' err))
       (collect_collections X txn)"

section \<open>Updates of a schema\<close>

definition ErrAddCollectionWithPatch :: error where
  "ErrAddCollectionWithPatch = ErrNamed ''unknown collection, adding collections via patch is not supported''"

definition ErrCollectionIDDoesntMatch :: error where
  "ErrCollectionIDDoesntMatch = ErrNamed ''CollectionID does not match existing''"

definition ErrSchemaIDDoesntMatch :: error where
  "ErrSchemaIDDoesntMatch = ErrNamed ''SchemaID does not match existing''"

definition ErrCannotModifySchemaName :: error where
  "ErrCannotModifySchemaName = ErrNamed ''modifying the schema name is not supported''"

definition ErrCannotSetVersionID :: error where
  "ErrCannotSetVersionID = ErrNamed ''setting the VersionID is not supported. It is updated automatically''"

definition ErrCannotSetFieldID :: error where
  "ErrCannotSetFieldID = ErrNamed ''explicitly setting a field ID value is not supported''"

definition ErrCannotAddRelationalField :: error where
  "ErrCannotAddRelationalField = ErrNamed ''the adding of new relation fields is not yet supported''"

definition ErrDuplicateField :: error where
  "ErrDuplicateField = ErrNamed ''duplicate field''"

definition ErrCannotMutateField :: error where
  "ErrCannotMutateField = ErrNamed ''mutating an existing field is not supported''"

definition ErrCannotMoveField :: error where
  "ErrCannotMoveField = ErrNamed ''moving fields is not currently supported''"

definition ErrInvalidCRDTType :: error where
  "ErrInvalidCRDTType = ErrNamed ''only default or LWW (last writer wins) CRDT types are supported''"

definition ErrCannotDeleteField :: error where
  "ErrCannotDeleteField = ErrNamed ''deleting an existing field is not supported''"

text \<open>
  The two maps over the existing fields, filled in the order of the fields; an absent name has the
  index zero, Go's zero value.
\<close>

fun fields_by_id :: "FieldDescription list \<Rightarrow> (FieldID_t \<rightharpoonup> FieldDescription) \<Rightarrow> FieldID_t \<rightharpoonup> FieldDescription" where
  "fields_by_id [] m = m"
| "fields_by_id (field # fs) m = fields_by_id fs (m(fd_ID field \<mapsto> field))"

fun indexes_by_name :: "nat \<Rightarrow> FieldDescription list \<Rightarrow> (string \<Rightarrow> nat) \<Rightarrow> string \<Rightarrow> nat" where
  "indexes_by_name i [] m = m"
| "indexes_by_name i (field # fs) m = indexes_by_name (i + 1) fs (m(fd_Name field := i))"

text \<open>The loop over the proposed fields; its state is \<open>hasChanged\<close> and the names and ids seen.\<close>

fun check_fields ::
    "(FieldID_t \<rightharpoonup> FieldDescription) \<Rightarrow> (string \<Rightarrow> nat) \<Rightarrow> nat \<Rightarrow> FieldDescription list \<Rightarrow> bool \<Rightarrow> string list \<Rightarrow> FieldID_t list \<Rightarrow>
     error + bool \<times> FieldID_t list" where
  "check_fields byID byName i [] hasChanged newFieldNames newFieldIds = Inr (hasChanged, newFieldIds)"
| "check_fields byID byName i (proposedField # fs) hasChanged newFieldNames newFieldIds =
     (let existingField = (if fd_ID proposedField \<noteq> 0 \<or> fd_Name proposedField = KeyFieldName
                           then byID (fd_ID proposedField) else None);
          fieldAlreadyExists = (existingField \<noteq> None)
      in if fd_ID proposedField \<noteq> 0 \<and> \<not> fieldAlreadyExists then Inl ErrCannotSetFieldID
         else if \<not> fieldAlreadyExists \<and> (fd_Kind proposedField = FieldKind_FOREIGN_OBJECT \<or>
              fd_Kind proposedField = FieldKind_FOREIGN_OBJECT_ARRAY) then Inl ErrCannotAddRelationalField
         else if fd_Name proposedField \<in> set newFieldNames then Inl ErrDuplicateField
         else if fieldAlreadyExists \<and> Some proposedField \<noteq> existingField then Inl ErrCannotMutateField
         else if fieldAlreadyExists \<and> i \<noteq> byName (fd_Name proposedField) then Inl ErrCannotMoveField
         else if fd_Typ proposedField \<noteq> NONE_CRDT \<and> fd_Typ proposedField \<noteq> LWW_REGISTER then Inl ErrInvalidCRDTType
         else check_fields byID byName (i + 1) fs (hasChanged \<or> \<not> fieldAlreadyExists)
                (fd_Name proposedField # newFieldNames) (fd_ID proposedField # newFieldIds))"

definition check_update :: "CollectionDescription \<Rightarrow> CollectionDescription \<Rightarrow> error + bool" where
  "check_update existingDesc proposedDesc =
     (let existing = col_Schema existingDesc; proposed = col_Schema proposedDesc
      in if col_ID proposedDesc \<noteq> col_ID existingDesc then Inl ErrCollectionIDDoesntMatch
         else if sd_SchemaID proposed \<noteq> sd_SchemaID existing then Inl ErrSchemaIDDoesntMatch
         else if sd_Name proposed \<noteq> sd_Name existing then Inl ErrCannotModifySchemaName
         else if sd_VersionID proposed \<noteq> [] \<and> sd_VersionID proposed \<noteq> sd_VersionID existing then Inl ErrCannotSetVersionID
         else (case check_fields (fields_by_id (sd_Fields existing) Map.empty) (indexes_by_name 0 (sd_Fields existing) (\<lambda>_. 0))
                      0 (sd_Fields proposed) False [] [] of
                 Inl err \<Rightarrow> Inl err
               | Inr (hasChanged, newFieldIds) \<Rightarrow>
                   if list_all (\<lambda>field. fd_ID field \<in> set newFieldIds) (sd_Fields existing) then Inr hasChanged
                   else Inl ErrCannotDeleteField))"

definition validateUpdateCollection ::
    "('c, 'i) cat_pkgs \<Rightarrow> 's multistore \<Rightarrow> CollectionDescription \<Rightarrow> ('s, bool) act" where
  "validateUpdateCollection X txn proposedDesc =
     atry (getCollectionByName X txn (col_Name proposedDesc))
       (\<lambda>err. if errors_Is err ErrNotFound then fail ErrAddCollectionWithPatch else fail err)
       (\<lambda>existingCollection. lift_sum (check_update (co_desc existingCollection) proposedDesc))"

fun complete_fields :: "nat \<Rightarrow> FieldDescription list \<Rightarrow> FieldDescription list" where
  "complete_fields i [] = []"
| "complete_fields i (field # fs) =
     (let field1 = (if fd_ID field = 0 then field\<lparr>fd_ID := of_nat i\<rparr> else field);
          field2 = (if fd_Typ field1 = NONE_CRDT then field1\<lparr>fd_Typ := LWW_REGISTER\<rparr> else field1)
      in field2 # complete_fields (i + 1) fs)"

definition updateCollection ::
    "('c, 'i) cat_pkgs \<Rightarrow> 's multistore \<Rightarrow> CollectionDescription \<Rightarrow> ('s, collection) act" where
  "updateCollection X txn desc =
     abind (validateUpdateCollection X txn desc) (\<lambda>hasChanged.
       if \<not> hasChanged then getCollectionByName X txn (col_Name desc)
       else
         (let schema = (col_Schema desc)\<lparr>sd_Fields := complete_fields 0 (sd_Fields (col_Schema desc))\<rparr>
          in abind (lift_sum (ca_MarshalSchema X schema)) (\<lambda>globalSchemaBuf.
             abind (lift_sum (NewSHA256CidV1 X globalSchemaBuf)) (\<lambda>cid.
             let schemaVersionID = ca_String X cid;
                 desc' = desc\<lparr>col_Schema := schema\<lparr>sd_VersionID := schemaVersionID\<rparr>\<rparr>
             in abind (lift_sum (ca_MarshalDesc X desc')) (\<lambda>buf.
                abind (ds_Put (Systemstore txn) (sys_key X (NewCollectionSchemaVersionKey schemaVersionID)) buf) (\<lambda>_.
                abind (ds_Put (Systemstore txn) (sys_key X (NewCollectionSchemaKey (sd_SchemaID schema))) (to_bytes schemaVersionID)) (\<lambda>_.
                abind (ds_Put (Systemstore txn) (sys_key X (NewCollectionKey (col_Name desc))) (to_bytes schemaVersionID)) (\<lambda>_.
                getCollectionByName X txn (col_Name desc)))))))))"

section \<open>Collections of the peer-to-peer system\<close>

definition p2p_marker :: byte where
  "p2p_marker = 0xff"

definition addP2PCollection :: "('c, 'i) cat_pkgs \<Rightarrow> 's multistore \<Rightarrow> string \<Rightarrow> ('s, unit) act" where
  "addP2PCollection X txn collectionID =
     atry (getCollectionBySchemaID X txn collectionID)
       (\<lambda>err. fail (Wrapped ''cannot add collection ID'' err))
       (\<lambda>_. ds_Put (Systemstore txn) (sys_key X (NewP2PCollectionKey collectionID)) [p2p_marker])"

definition removeP2PCollection :: "('c, 'i) cat_pkgs \<Rightarrow> 's multistore \<Rightarrow> string \<Rightarrow> ('s, unit) act" where
  "removeP2PCollection X txn collectionID =
     atry (getCollectionBySchemaID X txn collectionID)
       (\<lambda>err. fail (Wrapped ''cannot remove collection ID'' err))
       (\<lambda>_. ds_Delete (Systemstore txn) (sys_key X (NewP2PCollectionKey collectionID)))"

fun p2p_ids :: "Entry list \<Rightarrow> error + string list" where
  "p2p_ids [] = Inr []"
| "p2p_ids (result # results) =
     (case NewP2PCollectionKeyFromString (e_Key result) of
        Inl err \<Rightarrow> Inl err
      | Inr (P2PCollectionKey collectionID) \<Rightarrow> map_sum id (Cons collectionID) (p2p_ids results)
      | Inr _ \<Rightarrow> Inl GoPanic)"

text \<open>The query goes to the database's own system store, not to the transaction's.\<close>

definition getAllP2PCollections :: "'s multistore \<Rightarrow> 's multistore \<Rightarrow> ('s, string list) act" where
  "getAllP2PCollections db txn =
     abind (ds_Query (Systemstore db) \<lparr>q_Prefix = System_ToString (NewP2PCollectionKey []), q_KeysOnly = False\<rparr>)
       (\<lambda>results. lift_sum (p2p_ids results))"

section \<open>Replicators\<close>

definition getReplicator :: "('c, 'i) cat_pkgs \<Rightarrow> 's multistore \<Rightarrow> 'i \<Rightarrow> ('s, 'i Replicator) act" where
  "getReplicator X db info =
     abind (ds_Get (Systemstore db) (sys_key X (NewReplicatorKey (ca_IDString X info))))
       (\<lambda>value. lift_sum (ca_UnmarshalRep X value))"

definition saveReplicator :: "('c, 'i) cat_pkgs \<Rightarrow> 's multistore \<Rightarrow> 'i Replicator \<Rightarrow> ('s, unit) act" where
  "saveReplicator X txn rep =
     abind (lift_sum (ca_MarshalRep X rep))
       (\<lambda>repBytes. ds_Put (Systemstore txn) (sys_key X (NewReplicatorKey (ca_IDString X (rp_Info rep)))) repBytes)"

definition setReplicator :: "('c, 'i) cat_pkgs \<Rightarrow> 's multistore \<Rightarrow> 's multistore \<Rightarrow> 'i Replicator \<Rightarrow> ('s, unit) act" where
  "setReplicator X db txn rep =
     atry (getReplicator X db (rp_Info rep))
       (\<lambda>err. if errors_Is err ErrNotFound then saveReplicator X txn rep else fail err)
       (\<lambda>existingRep.
          let newSchemas = filter (\<lambda>newSchema. newSchema \<notin> set (rp_Schemas existingRep)) (rp_Schemas rep)
          in saveReplicator X txn (rep\<lparr>rp_Schemas := rp_Schemas existingRep @ newSchemas\<rparr>))"

definition deleteReplicatorKey :: "('c, 'i) cat_pkgs \<Rightarrow> 's multistore \<Rightarrow> 'i \<Rightarrow> ('s, unit) act" where
  "deleteReplicatorKey X txn pid = ds_Delete (Systemstore txn) (sys_key X (NewReplicatorKey (ca_IDString X pid)))"

definition deleteSchemasForReplicator ::
    "('c, 'i) cat_pkgs \<Rightarrow> 's multistore \<Rightarrow> 's multistore \<Rightarrow> 'i Replicator \<Rightarrow> ('s, unit) act" where
  "deleteSchemasForReplicator X db txn rep =
     abind (getReplicator X db (rp_Info rep)) (\<lambda>existingRep.
       let updatedSchemaList = filter (\<lambda>s. s \<notin> set (rp_Schemas rep)) (rp_Schemas existingRep)
       in if length updatedSchemaList = 0 then deleteReplicatorKey X txn (rp_Info rep)
          else saveReplicator X txn (existingRep\<lparr>rp_Schemas := updatedSchemaList\<rparr>))"

definition deleteReplicator :: "('c, 'i) cat_pkgs \<Rightarrow> 's multistore \<Rightarrow> 's multistore \<Rightarrow> 'i Replicator \<Rightarrow> ('s, unit) act" where
  "deleteReplicator X db txn rep =
     (if length (rp_Schemas rep) = 0 then deleteReplicatorKey X txn (rp_Info rep)
      else deleteSchemasForReplicator X db txn rep)"

fun collect_replicators :: "('c, 'i) cat_pkgs \<Rightarrow> Entry list \<Rightarrow> error + 'i Replicator list" where
  "collect_replicators X [] = Inr []"
| "collect_replicators X (result # results) =
     (case ca_UnmarshalRep X (e_Value result) of
        Inl err \<Rightarrow> Inl err | Inr rep \<Rightarrow> map_sum id (Cons rep) (collect_replicators X results))"

definition getAllReplicators :: "('c, 'i) cat_pkgs \<Rightarrow> 's multistore \<Rightarrow> ('s, 'i Replicator list) act" where
  "getAllReplicators X txn =
     abind (ds_Query (Systemstore txn) \<lparr>q_Prefix = System_ToString (NewReplicatorKey []), q_KeysOnly = False\<rparr>)
       (\<lambda>results. lift_sum (collect_replicators X results))"

end
