(* ===== verification/Collections.thy ===== *)
theory Collections
  imports ClientDoc Catalog
begin

text \<open>
  The documents of a collection (\<^verbatim>\<open>db/collection.go\<close>, \<^verbatim>\<open>db/collection_delete.go\<close>): creating,
  updating, saving and deleting a document writes its dirty fields to their registers and then its
  composite. The operations are those of a collection that has been given a transaction with
  \<^verbatim>\<open>WithTxn\<close>, which they neither commit nor discard.
\<close>

section \<open>Packages and callbacks\<close>

text \<open>
  CBOR of a value, the canonical CBOR mode (making it may fail, and then it encodes maps), the
  hash of a document and its textual form, and the package of the document keys.
\<close>

record ('u, 'c) doc_pkgs =
  dp_keys :: "'u key_ops"
  dp_Marshal :: "('u, 'c) dval \<Rightarrow> error + bytes"
  dp_EncMode :: "error + ((string \<times> ('u, 'c) dval) list \<Rightarrow> error + bytes)"
  dp_Sum :: "bytes \<Rightarrow> error + 'c"
  dp_String :: "'c \<Rightarrow> string"

text \<open>
  What is registered to run when the transaction succeeds: the document is cleaned, its head is set,
  or the update is published. The state is the state of the stores and the list of the callbacks.
\<close>

datatype ('c, 'n) callback =
    DocClean
  | DocSetHead 'c
  | PublishUpdate string 'c string 'n u64

type_synonym ('s, 'c, 'n) tx_state = "'s \<times> ('c, 'n) callback list"

definition on_stores :: "('s, 'a) act \<Rightarrow> (('s, 'c, 'n) tx_state, 'a) act" where
  "on_stores m st = (case m (fst st) of (r, s) \<Rightarrow> (r, (s, snd st)))"

definition register :: "('c, 'n) callback \<Rightarrow> (('s, 'c, 'n) tx_state, unit) act" where
  "register cb st = (Inr (), (fst st, snd st @ [cb]))"

section \<open>Keys\<close>

definition COMPOSITE_NAMESPACE :: string where
  "COMPOSITE_NAMESPACE = ''C''"

definition HEAD :: string where
  "HEAD = ''_head''"

definition getPrimaryKeyFromDocKey :: "'u key_ops \<Rightarrow> collection \<Rightarrow> ('u, 'c) DocKey \<Rightarrow> error + PrimaryDataStoreKey" where
  "getPrimaryKeyFromDocKey K c docKey =
     map_sum id (\<lambda>s. \<lparr>pk_CollectionId = format_uint (unat (co_colID c)), pk_DocKey = s\<rparr>) (DocKey_String K docKey)"

definition getDSKeyFromDockey :: "'u key_ops \<Rightarrow> collection \<Rightarrow> ('u, 'c) DocKey \<Rightarrow> error + DataStoreKey" where
  "getDSKeyFromDockey K c docKey =
     map_sum id (\<lambda>s. \<lparr>dk_CollectionID = format_uint (unat (co_colID c)), dk_InstanceType = ValueKey, dk_DocKey = s, dk_FieldId = []\<rparr>)
       (DocKey_String K docKey)"

definition tryGetSchemaFieldID :: "collection \<Rightarrow> string \<Rightarrow> u32 option" where
  "tryGetSchemaFieldID c fieldName =
     (case find (\<lambda>field. fd_Name field = fieldName) (sd_Fields (col_Schema (co_desc c))) of
        None \<Rightarrow> None
      | Some field \<Rightarrow> if IsObject field \<or> IsObjectArray field then None else Some (fd_ID field))"

definition tryGetFieldKey :: "collection \<Rightarrow> PrimaryDataStoreKey \<Rightarrow> string \<Rightarrow> DataStoreKey option" where
  "tryGetFieldKey c key fieldName =
     (case tryGetSchemaFieldID c fieldName of
        None \<Rightarrow> None
      | Some fieldId \<Rightarrow> Some \<lparr>dk_CollectionID = pk_CollectionId key, dk_InstanceType = [], dk_DocKey = pk_DocKey key,
          dk_FieldId = format_uint (unat fieldId)\<rparr>)"

definition NewErrDocVerification :: error where
  "NewErrDocVerification = ErrNamed ''the document verification failed''"

definition getKeysFromDoc ::
    "('u, 'c) doc_pkgs \<Rightarrow> collection \<Rightarrow> ('u, 'c) Document \<Rightarrow> error + ('u, 'c) DocKey \<times> PrimaryDataStoreKey" where
  "getKeysFromDoc P c doc =
     (case doc_Bytes (\<lambda>m. case dp_EncMode P of Inl err \<Rightarrow> Inl err | Inr em \<Rightarrow> em m) doc of
        Inl err \<Rightarrow> Inl err
      | Inr buf \<Rightarrow>
          (case dp_Sum P buf of
             Inl err \<Rightarrow> Inl err
           | Inr doccid \<Rightarrow>
               (let dockey = NewDocKeyV0 (dp_keys P) (dp_String P) doccid
                in case getPrimaryKeyFromDocKey (dp_keys P) c dockey of
                     Inl err \<Rightarrow> Inl err
                   | Inr primaryKey \<Rightarrow>
                       (case DocKey_String (dp_keys P) (doc_key doc) of
                          Inl err \<Rightarrow> Inl err
                        | Inr s \<Rightarrow> if pk_DocKey primaryKey \<noteq> s then Inl NewErrDocVerification else Inr (dockey, primaryKey)))))"

section \<open>Saving\<close>

definition ErrDocumentAlreadyExists :: error where
  "ErrDocumentAlreadyExists = ErrNamed ''a document with the given dockey already exists''"

definition ErrDocumentDeleted :: error where
  "ErrDocumentDeleted = ErrNamed ''a document with the given dockey has been deleted''"

definition ErrDocumentNotFound :: error where
  "ErrDocumentNotFound = ErrNamed ''no document for the given key exists''"

definition ErrUnknownCRDT :: error where
  "ErrUnknownCRDT = ErrNamed ''unknown crdt''"

definition ErrUnknownCRDTArgument :: error where
  "ErrUnknownCRDTArgument = ErrNamed ''invalid CRDT arguments''"

definition ErrValueTypeMismatch :: error where
  "ErrValueTypeMismatch = ErrNamed ''value does not match indicated type''"

definition col_exists :: "('c, 'n) pkgs \<Rightarrow> 's multistore \<Rightarrow> PrimaryDataStoreKey \<Rightarrow> ('s, bool \<times> bool) act" where
  "col_exists X txn key =
     atry (ds_Get (Datastore_of txn) (Primary_ToDS (pk_NewKey (x_ds X)) key))
       (\<lambda>err. if errors_Is err ErrNotFound then ret (False, False) else fail err)
       (\<lambda>val. if val = [DeletedObjectMarker] then ret (True, True) else ret (True, False))"

text \<open>The variadic arguments of \<^verbatim>\<open>saveValueToMerkleCRDT\<close> by their dynamic types.\<close>

datatype 'c crdt_arg = ArgBytes bytes | ArgLinks "'c DAGLink list" | ArgStatus DocumentStatus

definition saveValueToMerkleCRDT ::
    "('c, 'n) pkgs \<Rightarrow> 's multistore \<Rightarrow> collection \<Rightarrow> DataStoreKey \<Rightarrow> CType \<Rightarrow> 'c crdt_arg list \<Rightarrow> ('s, 'n \<times> u64) act" where
  "saveValueToMerkleCRDT X txn c key ctype args =
     (let version = sd_VersionID (col_Schema (co_desc c))
      in if ctype = LWW_REGISTER then
           (let name = (case GetFieldByID (co_desc c) (dk_FieldId key) of None \<Rightarrow> [] | Some field \<Rightarrow> fd_Name field)
            in abind (lift_sum (InstanceWithStores (DefaultFactory X) txn version ctype key name)) (\<lambda>merkleCRDT.
                 case args of
                   [ArgBytes bytes] \<Rightarrow> (case merkleCRDT of MerkleLWW lwwreg \<Rightarrow> ML_Set X lwwreg bytes | _ \<Rightarrow> fail GoPanic)
                 | _ \<Rightarrow> fail ErrUnknownCRDTArgument))
         else if ctype = COMPOSITE then
           (let key' = WithFieldId key COMPOSITE_NAMESPACE
            in abind (lift_sum (InstanceWithStores (DefaultFactory X) txn version ctype key' [])) (\<lambda>merkleCRDT.
                 case args of
                   ArgBytes bytes # ArgLinks links # rest \<Rightarrow>
                     (case merkleCRDT of
                        MerkleComposite composite \<Rightarrow>
                          (case rest of
                             [] \<Rightarrow> MC_Set X composite bytes links
                           | ArgStatus status # _ \<Rightarrow>
                               if IsDeleted status then MC_Delete X composite links else MC_Set X composite bytes links
                           | _ \<Rightarrow> fail ErrUnknownCRDTArgument)
                      | _ \<Rightarrow> fail GoPanic)
                 | _ \<Rightarrow> fail ErrUnknownCRDTArgument))
         else fail ErrUnknownCRDT)"

definition saveDocValue ::
    "('u, 'c) doc_pkgs \<Rightarrow> ('c, 'n) pkgs \<Rightarrow> 's multistore \<Rightarrow> collection \<Rightarrow> DataStoreKey \<Rightarrow> ('u, 'c) Value \<Rightarrow> ('s, 'n \<times> u64) act" where
  "saveDocValue P X txn c key val =
     (if v_t val = LWW_REGISTER then
        (if \<not> v_cbor val then fail ErrValueTypeMismatch
         else abind (if v_delete val then ret [] else lift_sum (Value_Bytes (dp_Marshal P) val))
                (\<lambda>bytes. saveValueToMerkleCRDT X txn c key LWW_REGISTER [ArgBytes bytes]))
      else fail ErrUnknownCRDT)"

definition isSecondaryIDField :: "collection \<Rightarrow> FieldDescription \<Rightarrow> FieldDescription option" where
  "isSecondaryIDField c fieldDesc =
     (if fd_RelationType fieldDesc \<noteq> Relation_Type_INTERNAL_ID then None
      else (case GetField (co_desc c) (TrimSuffix (fd_Name fieldDesc) ''_id'') of
              None \<Rightarrow> None
            | Some relationField \<Rightarrow> if \<not> IsPrimaryRelation relationField then Some relationField else None))"

text \<open>
  The loop over the fields of the document. The update of the related document for the id of a
  secondary relation (\<^verbatim>\<open>patchPrimaryDoc\<close>, a JSON patch of another collection's document) is the
  argument \<open>patch\<close>.
\<close>

fun save_fields ::
    "('u, 'c) doc_pkgs \<Rightarrow> ('c, 'n) pkgs \<Rightarrow> 's multistore \<Rightarrow> (FieldDescription \<Rightarrow> string \<Rightarrow> string \<Rightarrow> (('s, 'c, 'n) tx_state, unit) act) \<Rightarrow>
     collection \<Rightarrow> PrimaryDataStoreKey \<Rightarrow> ('u, 'c) Document \<Rightarrow> (string \<times> simpleField) list \<Rightarrow>
     'c DAGLink list \<Rightarrow> (string \<times> ('u, 'c) dval) list \<Rightarrow>
     (('s, 'c, 'n) tx_state, 'c DAGLink list \<times> (string \<times> ('u, 'c) dval) list) act" where
  "save_fields P X txn patch c primaryKey doc [] links docProperties = ret (links, docProperties)"
| "save_fields P X txn patch c primaryKey doc ((k, v) # fs) links docProperties =
     (case GetValueWithField doc v of
        Inl err \<Rightarrow> fail err
      | Inr val \<Rightarrow>
          if \<not> v_isDirty val then save_fields P X txn patch c primaryKey doc fs links docProperties
          else (case tryGetFieldKey c primaryKey k of
            None \<Rightarrow> fail NewErrFieldNotExist
          | Some fieldKey \<Rightarrow>
              (case GetField (co_desc c) k of
                 None \<Rightarrow> fail NewErrFieldNotExist
               | Some fieldDescription \<Rightarrow>
                   (case isSecondaryIDField c fieldDescription of
                      Some relationFieldDescription \<Rightarrow>
                        (case v_value val of
                           Plain (Str primaryId) \<Rightarrow>
                             abind (patch relationFieldDescription (pk_DocKey primaryKey) primaryId)
                               (\<lambda>_. save_fields P X txn patch c primaryKey doc fs links docProperties)
                         | _ \<Rightarrow> fail GoPanic)
                    | None \<Rightarrow>
                        abind (on_stores (saveDocValue P X txn c fieldKey val)) (\<lambda>(node, _).
                          save_fields P X txn patch c primaryKey doc fs
                            (links @ [\<lparr>dl_Name = k, dl_Cid = dag_Cid (x_dag X) node\<rparr>])
                            (AList.update k (if v_delete val then Plain Nil_any else v_value val) docProperties))))))"

text \<open>
  \<^verbatim>\<open>save\<close>: the result \<^const>\<open>None\<close> stands for \<^verbatim>\<open>cid.Undef\<close>, which is returned without an error when the
  properties cannot be marshalled. \<open>events\<close> tells whether updates are published.
\<close>

definition save ::
    "('u, 'c) doc_pkgs \<Rightarrow> ('c, 'n) pkgs \<Rightarrow> 's multistore \<Rightarrow> (FieldDescription \<Rightarrow> string \<Rightarrow> string \<Rightarrow> (('s, 'c, 'n) tx_state, unit) act) \<Rightarrow>
     bool \<Rightarrow> collection \<Rightarrow> ('u, 'c) Document \<Rightarrow> (('s, 'c, 'n) tx_state, 'c option) act" where
  "save P X txn patch events c doc =
     abind (register DocClean) (\<lambda>_.
     abind (lift_sum (getPrimaryKeyFromDocKey (dp_keys P) c (doc_key doc))) (\<lambda>primaryKey.
     abind (save_fields P X txn patch c primaryKey doc (doc_fields doc) [] []) (\<lambda>(links, docProperties).
     case dp_EncMode P of
       Inl err \<Rightarrow> fail err
     | Inr em \<Rightarrow>
         (case em docProperties of
            Inl err \<Rightarrow> ret None
          | Inr buf \<Rightarrow>
              abind (on_stores (saveValueToMerkleCRDT X txn c (ToDataStoreKey primaryKey) COMPOSITE
                       [ArgBytes buf, ArgLinks links, ArgStatus Active])) (\<lambda>(headNode, priority).
              abind (if events
                     then register (PublishUpdate (pk_DocKey primaryKey) (dag_Cid (x_dag X) headNode) (co_schemaID c) headNode priority)
                     else ret ()) (\<lambda>_.
              abind (register (DocSetHead (dag_Cid (x_dag X) headNode))) (\<lambda>_.
              ret (Some (dag_Cid (x_dag X) headNode)))))))))"

definition col_create ::
    "('u, 'c) doc_pkgs \<Rightarrow> ('c, 'n) pkgs \<Rightarrow> 's multistore \<Rightarrow> (FieldDescription \<Rightarrow> string \<Rightarrow> string \<Rightarrow> (('s, 'c, 'n) tx_state, unit) act) \<Rightarrow>
     bool \<Rightarrow> collection \<Rightarrow> ('u, 'c) Document \<Rightarrow> (('s, 'c, 'n) tx_state, unit) act" where
  "col_create P X txn patch events c doc =
     abind (lift_sum (getKeysFromDoc P c doc)) (\<lambda>(dockey, primaryKey).
     abind (on_stores (col_exists X txn primaryKey)) (\<lambda>(exists, isDeleted).
     if exists then fail ErrDocumentAlreadyExists
     else if isDeleted then fail ErrDocumentDeleted
     else
       abind (if length (doc_values doc) = 0 then
                abind (lift_sum (getDSKeyFromDockey (dp_keys P) c dockey)) (\<lambda>valueKey.
                  on_stores (ds_Put (Datastore_of txn) (ToDS (pk_NewKey (x_ds X)) valueKey) [ObjectMarker]))
              else ret ()) (\<lambda>_.
       abind (save P X txn patch events c doc) (\<lambda>_. ret ()))))"

definition col_update ::
    "('u, 'c) doc_pkgs \<Rightarrow> ('c, 'n) pkgs \<Rightarrow> 's multistore \<Rightarrow> (FieldDescription \<Rightarrow> string \<Rightarrow> string \<Rightarrow> (('s, 'c, 'n) tx_state, unit) act) \<Rightarrow>
     bool \<Rightarrow> collection \<Rightarrow> ('u, 'c) Document \<Rightarrow> (('s, 'c, 'n) tx_state, unit) act" where
  "col_update P X txn patch events c doc = abind (save P X txn patch events c doc) (\<lambda>_. ret ())"

definition col_Update ::
    "('u, 'c) doc_pkgs \<Rightarrow> ('c, 'n) pkgs \<Rightarrow> 's multistore \<Rightarrow> (FieldDescription \<Rightarrow> string \<Rightarrow> string \<Rightarrow> (('s, 'c, 'n) tx_state, unit) act) \<Rightarrow>
     bool \<Rightarrow> collection \<Rightarrow> ('u, 'c) Document \<Rightarrow> (('s, 'c, 'n) tx_state, unit) act" where
  "col_Update P X txn patch events c doc =
     abind (lift_sum (getPrimaryKeyFromDocKey (dp_keys P) c (doc_key doc))) (\<lambda>primaryKey.
     abind (on_stores (col_exists X txn primaryKey)) (\<lambda>(exists, isDeleted).
     if \<not> exists then fail ErrDocumentNotFound
     else if isDeleted then fail ErrDocumentDeleted
     else col_update P X txn patch events c doc))"

definition col_Save ::
    "('u, 'c) doc_pkgs \<Rightarrow> ('c, 'n) pkgs \<Rightarrow> 's multistore \<Rightarrow> (FieldDescription \<Rightarrow> string \<Rightarrow> string \<Rightarrow> (('s, 'c, 'n) tx_state, unit) act) \<Rightarrow>
     bool \<Rightarrow> collection \<Rightarrow> ('u, 'c) Document \<Rightarrow> (('s, 'c, 'n) tx_state, unit) act" where
  "col_Save P X txn patch events c doc =
     abind (lift_sum (getPrimaryKeyFromDocKey (dp_keys P) c (doc_key doc))) (\<lambda>primaryKey.
     abind (on_stores (col_exists X txn primaryKey)) (\<lambda>(exists, isDeleted).
     if \<not> isDeleted then
       (if exists then col_update P X txn patch events c doc else col_create P X txn patch events c doc)
     else ret ()))"

fun col_CreateMany ::
    "('u, 'c) doc_pkgs \<Rightarrow> ('c, 'n) pkgs \<Rightarrow> 's multistore \<Rightarrow> (FieldDescription \<Rightarrow> string \<Rightarrow> string \<Rightarrow> (('s, 'c, 'n) tx_state, unit) act) \<Rightarrow>
     bool \<Rightarrow> collection \<Rightarrow> ('u, 'c) Document list \<Rightarrow> (('s, 'c, 'n) tx_state, unit) act" where
  "col_CreateMany P X txn patch events c [] = ret ()"
| "col_CreateMany P X txn patch events c (doc # docs) =
     abind (col_create P X txn patch events c doc) (\<lambda>_. col_CreateMany P X txn patch events c docs)"

section \<open>Deleting\<close>

definition applyDelete ::
    "('c, 'n) pkgs \<Rightarrow> 's multistore \<Rightarrow> bool \<Rightarrow> collection \<Rightarrow> PrimaryDataStoreKey \<Rightarrow> (('s, 'c, 'n) tx_state, unit) act" where
  "applyDelete X txn events c key =
     abind (on_stores (col_exists X txn key)) (\<lambda>(found, isDeleted).
     if \<not> found then fail ErrDocumentNotFound
     else if isDeleted then fail ErrDocumentDeleted
     else
       (let dsKey = ToDataStoreKey key;
            headset = NewHeadSet (Headstore txn) (ToHeadStoreKey (WithFieldId dsKey COMPOSITE_NAMESPACE))
        in abind (on_stores (heads_List X headset)) (\<lambda>(cids, _).
           let dagLinks = map (\<lambda>cid. \<lparr>dl_Name = HEAD, dl_Cid = cid\<rparr>) cids
           in abind (on_stores (saveValueToMerkleCRDT X txn c dsKey COMPOSITE
                       [ArgBytes [], ArgLinks dagLinks, ArgStatus Deleted])) (\<lambda>(headNode, priority).
              if events
              then register (PublishUpdate (pk_DocKey key) (dag_Cid (x_dag X) headNode) (co_schemaID c) headNode priority)
              else ret ()))))"

record DeleteResult =
  dr_Count :: int
  dr_DocKeys :: "string list"

definition deleteWithKey ::
    "('c, 'n) pkgs \<Rightarrow> 's multistore \<Rightarrow> bool \<Rightarrow> collection \<Rightarrow> PrimaryDataStoreKey \<Rightarrow> (('s, 'c, 'n) tx_state, DeleteResult) act" where
  "deleteWithKey X txn events c key =
     abind (applyDelete X txn events c key) (\<lambda>_. ret \<lparr>dr_Count = 1, dr_DocKeys = [pk_DocKey key]\<rparr>)"

fun delete_keys ::
    "'u key_ops \<Rightarrow> ('c, 'n) pkgs \<Rightarrow> 's multistore \<Rightarrow> bool \<Rightarrow> collection \<Rightarrow> ('u, 'c) DocKey list \<Rightarrow> string list \<Rightarrow>
     (('s, 'c, 'n) tx_state, string list) act" where
  "delete_keys K X txn events c [] done' = ret done'"
| "delete_keys K X txn events c (key # keys) done' =
     abind (lift_sum (getPrimaryKeyFromDocKey K c key)) (\<lambda>dsKey.
     abind (applyDelete X txn events c dsKey) (\<lambda>_. delete_keys K X txn events c keys (done' @ [pk_DocKey dsKey])))"

definition deleteWithKeys ::
    "'u key_ops \<Rightarrow> ('c, 'n) pkgs \<Rightarrow> 's multistore \<Rightarrow> bool \<Rightarrow> collection \<Rightarrow> ('u, 'c) DocKey list \<Rightarrow>
     (('s, 'c, 'n) tx_state, DeleteResult) act" where
  "deleteWithKeys K X txn events c keys =
     abind (delete_keys K X txn events c keys []) (\<lambda>ks. ret \<lparr>dr_Count = int (length ks), dr_DocKeys = ks\<rparr>)"

definition col_Delete ::
    "'u key_ops \<Rightarrow> ('c, 'n) pkgs \<Rightarrow> 's multistore \<Rightarrow> bool \<Rightarrow> collection \<Rightarrow> ('u, 'c) DocKey \<Rightarrow> (('s, 'c, 'n) tx_state, bool) act" where
  "col_Delete K X txn events c key =
     abind (lift_sum (getPrimaryKeyFromDocKey K c key)) (\<lambda>primaryKey.
     abind (on_stores (col_exists X txn primaryKey)) (\<lambda>(exists, isDeleted).
     if \<not> exists \<or> isDeleted then fail ErrDocumentNotFound
     else if isDeleted then fail ErrDocumentDeleted
     else abind (applyDelete X txn events c primaryKey) (\<lambda>_. ret True)))"

definition col_Exists :: "'u key_ops \<Rightarrow> ('c, 'n) pkgs \<Rightarrow> 's multistore \<Rightarrow> collection \<Rightarrow> ('u, 'c) DocKey \<Rightarrow> ('s, bool) act" where
  "col_Exists K X txn c key =
     abind (lift_sum (getPrimaryKeyFromDocKey K c key)) (\<lambda>primaryKey.
     atry (col_exists X txn primaryKey)
       (\<lambda>err. if \<not> errors_Is err ErrNotFound then fail err else ret False)
       (\<lambda>(exists, isDeleted). ret (exists \<and> \<not> isDeleted)))"

end
