(* ===== verification/MemStore.thy ===== *)
theory MemStore
  imports Stores
begin

text \<open>
  The in-memory datastore (\<^verbatim>\<open>datastore/memory\<close>): a multi-version store in a B-tree ordered by key
  and version, transactions that buffer their reads and writes, optimistic conflict detection at
  commit, batches, and the purge of old versions. The B-tree package is third-party: a
  \<open>btree_ops\<close> record with the documented behaviour of its operations (\<open>btree_laws\<close>). A transaction
  is an object shared between its owner and the in-flight registry: the state holds a heap of
  transactions and a pointer is an index of it. The wall clock is an argument. The locks make every
  operation atomic, so an execution is a sequence of operations.
\<close>

section \<open>The B-tree interface\<close>

record ('i, 't) btree_ops =
  bt_New :: 't
  bt_Set :: "'t \<Rightarrow> 'i \<Rightarrow> 't"
  bt_Delete :: "'t \<Rightarrow> 'i \<Rightarrow> 't"
  bt_Clear :: "'t \<Rightarrow> 't"
  bt_Descend :: "'t \<Rightarrow> 'i \<Rightarrow> 'i list"
  bt_Iter :: "'t \<Rightarrow> 'i list"
  bt_Height :: "'t \<Rightarrow> nat"

text \<open>
  \<open>bt_Iter t\<close> is what an iterator visits from the first item on and \<open>bt_Descend t p\<close> what a descent
  from the pivot \<open>p\<close> visits. Items that the order does not separate are one item for \<open>Set\<close> and
  \<open>Delete\<close>.
\<close>

definition btree_laws :: "('i \<Rightarrow> 'i \<Rightarrow> bool) \<Rightarrow> ('i, 't) btree_ops \<Rightarrow> bool" where
  "btree_laws lt B \<longleftrightarrow>
     bt_Iter B (bt_New B) = [] \<and> (\<forall>t. bt_Iter B (bt_Clear B t) = []) \<and>
     (\<forall>t. sorted_wrt lt (bt_Iter B t)) \<and>
     (\<forall>t x. set (bt_Iter B (bt_Set B t x)) = insert x {y \<in> set (bt_Iter B t). lt x y \<or> lt y x}) \<and>
     (\<forall>t x. set (bt_Iter B (bt_Delete B t x)) = {y \<in> set (bt_Iter B t). lt x y \<or> lt y x}) \<and>
     (\<forall>t p. bt_Descend B t p = rev (filter (\<lambda>y. \<not> lt p y) (bt_Iter B t)))"

section \<open>Data\<close>

record dsItem =
  key :: string
  version :: u64
  val :: bytes
  isDeleted :: bool
  isGet :: bool

record dsTxn =
  fl_dsVersion :: u64
  fl_txnVersion :: u64
  fl_expiresAt :: int
  fl_txn :: nat

record 't basicTxn =
  ops :: 't
  dsVersion :: u64
  readOnly :: bool
  discarded :: bool
  txn_closed :: bool

record ('t, 'u) Datastore =
  ds_version :: u64
  ds_values :: 't
  inFlightTxn :: 'u
  ds_closed :: bool
  txns :: "'t basicTxn list"

definition byDSVersion :: "dsTxn \<Rightarrow> dsTxn \<Rightarrow> bool" where
  "byDSVersion a b \<longleftrightarrow>
     (if fl_dsVersion a < fl_dsVersion b then True
      else if fl_dsVersion a = fl_dsVersion b \<and> fl_txnVersion a < fl_txnVersion b then True
      else False)"

definition byKeys :: "dsItem \<Rightarrow> dsItem \<Rightarrow> bool" where
  "byKeys a b \<longleftrightarrow>
     (if key a < key b then True
      else if key a = key b \<and> version a < version b then True
      else False)"

definition zero_item :: dsItem where
  "zero_item = \<lparr>key = [], version = 0, val = [], isDeleted = False, isGet = False\<rparr>"

section \<open>The datastore: versions, lookup, transactions\<close>

definition NewDatastore :: "(dsItem, 't) btree_ops \<Rightarrow> (dsTxn, 'u) btree_ops \<Rightarrow> ('t, 'u) Datastore" where
  "NewDatastore B F =
     \<lparr>ds_version = 0, ds_values = bt_New B, inFlightTxn = bt_New F, ds_closed = False, txns = []\<rparr>"

definition getVersion :: "('t, 'u) Datastore \<Rightarrow> u64" where
  "getVersion d = ds_version d"

definition nextVersion :: "('t, 'u) Datastore \<Rightarrow> u64 \<times> ('t, 'u) Datastore" where
  "nextVersion d = (let v = ds_version d + 1 in (v, d\<lparr>ds_version := v\<rparr>))"

text \<open>The descent's callback stops at the first item it is shown.\<close>

definition descend_first :: "string \<Rightarrow> dsItem list \<Rightarrow> dsItem" where
  "descend_first k items =
     (case items of [] \<Rightarrow> zero_item | item # _ \<Rightarrow> if k = key item then item else zero_item)"

definition ds_get :: "(dsItem, 't) btree_ops \<Rightarrow> 't \<Rightarrow> string \<Rightarrow> u64 \<Rightarrow> dsItem" where
  "ds_get B values k v =
     descend_first k (bt_Descend B values (zero_item\<lparr>key := k, version := v\<rparr>))"

definition absent :: "dsItem \<Rightarrow> bool" where
  "absent item \<longleftrightarrow> key item = [] \<or> isDeleted item"

definition newTransaction ::
    "(dsItem, 't) btree_ops \<Rightarrow> (dsTxn, 'u) btree_ops \<Rightarrow> int \<Rightarrow> bool \<Rightarrow>
     ('t, 'u) Datastore \<Rightarrow> nat \<times> ('t, 'u) Datastore" where
  "newTransaction B F now ro d =
     (let v = getVersion d;
          txn = \<lparr>ops = bt_New B, dsVersion = v, readOnly = ro, discarded = False, txn_closed = False\<rparr>;
          p = length (txns d);
          entry = \<lparr>fl_dsVersion = v, fl_txnVersion = v + 1, fl_expiresAt = now + 3600, fl_txn = p\<rparr>
      in (p, d\<lparr>txns := txns d @ [txn], inFlightTxn := bt_Set F (inFlightTxn d) entry\<rparr>))"

definition NewTransaction ::
    "(dsItem, 't) btree_ops \<Rightarrow> (dsTxn, 'u) btree_ops \<Rightarrow> int \<Rightarrow> bool \<Rightarrow> (('t, 'u) Datastore, nat) act" where
  "NewTransaction B F now ro d =
     (if ds_closed d then (Inl ErrClosed, d)
      else (case newTransaction B F now ro d of (p, d') \<Rightarrow> (Inr p, d')))"

text \<open>The transaction object behind a pointer.\<close>

definition txn_at :: "('t, 'u) Datastore \<Rightarrow> nat \<Rightarrow> 't basicTxn" where
  "txn_at d p = txns d ! p"

definition upd_txn :: "nat \<Rightarrow> ('t basicTxn \<Rightarrow> 't basicTxn) \<Rightarrow> ('t, 'u) Datastore \<Rightarrow> ('t, 'u) Datastore" where
  "upd_txn p f d = d\<lparr>txns := (txns d)[p := f (txns d ! p)]\<rparr>"

definition getDSVersion :: "'t basicTxn \<Rightarrow> u64" where
  "getDSVersion t = dsVersion t"

definition getTxnVersion :: "'t basicTxn \<Rightarrow> u64" where
  "getTxnVersion t = getDSVersion t + 1"

section \<open>Transaction operations\<close>

text \<open>
  \<^verbatim>\<open>basicTxn.get\<close>: the transaction's own entry for the key, else the item of its snapshot, which
  is recorded among the operations as a read.
\<close>

definition txn_get ::
    "(dsItem, 't) btree_ops \<Rightarrow> nat \<Rightarrow> string \<Rightarrow> ('t, 'u) Datastore \<Rightarrow> dsItem \<times> ('t, 'u) Datastore" where
  "txn_get B p k d =
     (let t = txn_at d p;
          result = descend_first k (bt_Descend B (ops t) (zero_item\<lparr>key := k, version := getTxnVersion t\<rparr>))
      in if key result = [] then
           (let r = (ds_get B (ds_values d) k (getDSVersion t))\<lparr>isGet := True\<rparr>
            in (r, upd_txn p (\<lambda>t. t\<lparr>ops := bt_Set B (ops t) r\<rparr>) d))
         else (result, d))"

definition Txn_Delete :: "(dsItem, 't) btree_ops \<Rightarrow> nat \<Rightarrow> string \<Rightarrow> (('t, 'u) Datastore, unit) act" where
  "Txn_Delete B p k d =
     (let t = txn_at d p
      in if txn_closed t then (Inl ErrClosed, d)
         else if discarded t then (Inl ErrTxnDiscarded, d)
         else if readOnly t then (Inl ErrReadOnlyTxn, d)
         else (case txn_get B p k d of
                 (item, d') \<Rightarrow>
                   if absent item then (Inr (), d')
                   else (Inr (), upd_txn p (\<lambda>t. t\<lparr>ops := bt_Set B (ops t)
                     (zero_item\<lparr>key := k, version := getTxnVersion t, isDeleted := True\<rparr>)\<rparr>) d')))"

definition Txn_Get :: "(dsItem, 't) btree_ops \<Rightarrow> nat \<Rightarrow> string \<Rightarrow> (('t, 'u) Datastore, bytes) act" where
  "Txn_Get B p k d =
     (let t = txn_at d p
      in if txn_closed t then (Inl ErrClosed, d)
         else if discarded t then (Inl ErrTxnDiscarded, d)
         else (case txn_get B p k d of
                 (result, d') \<Rightarrow> if absent result then (Inl ErrNotFound, d') else (Inr (val result), d')))"

definition Txn_GetSize :: "(dsItem, 't) btree_ops \<Rightarrow> nat \<Rightarrow> string \<Rightarrow> (('t, 'u) Datastore, nat) act" where
  "Txn_GetSize B p k d =
     (let t = txn_at d p
      in if txn_closed t then (Inl ErrClosed, d)
         else if discarded t then (Inl ErrTxnDiscarded, d)
         else (case txn_get B p k d of
                 (result, d') \<Rightarrow>
                   if absent result then (Inl ErrNotFound, d') else (Inr (length (val result)), d')))"

definition Txn_Has :: "(dsItem, 't) btree_ops \<Rightarrow> nat \<Rightarrow> string \<Rightarrow> (('t, 'u) Datastore, bool) act" where
  "Txn_Has B p k d =
     (let t = txn_at d p
      in if ds_closed d then (Inl ErrClosed, d)
         else if discarded t then (Inl ErrTxnDiscarded, d)
         else (case txn_get B p k d of (result, d') \<Rightarrow> (Inr (\<not> absent result), d')))"

definition Txn_Put :: "(dsItem, 't) btree_ops \<Rightarrow> nat \<Rightarrow> string \<Rightarrow> bytes \<Rightarrow> (('t, 'u) Datastore, unit) act" where
  "Txn_Put B p k value d =
     (let t = txn_at d p
      in if txn_closed t then (Inl ErrClosed, d)
         else if discarded t then (Inl ErrTxnDiscarded, d)
         else if readOnly t then (Inl ErrReadOnlyTxn, d)
         else (Inr (), upd_txn p (\<lambda>t. t\<lparr>ops := bt_Set B (ops t)
                (zero_item\<lparr>key := k, version := getTxnVersion t, val := value\<rparr>)\<rparr>) d))"

definition setEntry :: "string \<Rightarrow> bytes \<Rightarrow> Query \<Rightarrow> Entry" where
  "setEntry k value q =
     \<lparr>e_Key = k, e_Value = (if q_KeysOnly q then [] else value), e_Size = length value\<rparr>"

text \<open>
  The fast-forward loop shared by the two queries: the iterator walks the items in order and, of
  the consecutive items of one key, the last one is kept.
\<close>

fun fast_forward :: "dsItem list \<Rightarrow> dsItem list" where
  "fast_forward [] = []"
| "fast_forward [item] = [item]"
| "fast_forward (item # next # rest) =
     (if key item = key next then fast_forward (next # rest) else item # fast_forward (next # rest))"

text \<open>
  The inner loop of the transaction query: the operations up to the current key, which either
  replace the current item or are emitted. It returns the emitted entries, the item, and the
  remaining operations.
\<close>

fun drain_ops :: "Query \<Rightarrow> dsItem \<Rightarrow> dsItem list \<Rightarrow> Entry list \<times> dsItem \<times> dsItem list" where
  "drain_ops q item [] = ([], item, [])"
| "drain_ops q item (o1 # os) =
     (if key o1 \<le> key item then
        (if key o1 = key item then drain_ops q o1 os
         else (case drain_ops q item os of
                 (es, item', os') \<Rightarrow>
                   ((if \<not> isDeleted o1 \<and> \<not> isGet o1 then setEntry (key o1) (val o1) q # es else es), item', os')))
      else ([], item, o1 # os))"

fun merge_query :: "Query \<Rightarrow> dsItem list \<Rightarrow> dsItem list \<Rightarrow> Entry list" where
  "merge_query q [] os =
     map (\<lambda>o1. setEntry (key o1) (val o1) q) (filter (\<lambda>o1. \<not> isDeleted o1 \<and> \<not> isGet o1) os)"
| "merge_query q (item # items) os =
     (case drain_ops q item os of
        (es, item', os') \<Rightarrow>
          es @ (if isDeleted item' then [] else [setEntry (key item') (val item') q]) @
            merge_query q items os')"

definition Txn_Query ::
    "(dsItem, 't) btree_ops \<Rightarrow> (Query \<Rightarrow> Entry list \<Rightarrow> Entry list) \<Rightarrow> nat \<Rightarrow> Query \<Rightarrow>
     (('t, 'u) Datastore, Entry list) act" where
  "Txn_Query B NaiveQueryApply p q d =
     (let t = txn_at d p
      in if ds_closed d then (Inl ErrClosed, d)
         else if discarded t then (Inl ErrTxnDiscarded, d)
         else (Inr (NaiveQueryApply q
                (merge_query q (fast_forward (bt_Iter B (ds_values d))) (bt_Iter B (ops t)))), d))"

section \<open>Ending a transaction\<close>

text \<open>
  \<^verbatim>\<open>clearOldInFlightTxn\<close>: the registry is scanned and the expired entries deleted until a scan
  finds none. The loop is fuelled; \<open>clear_loop_two\<close> shows that two scans are enough.
\<close>

fun clear_loop :: "(dsTxn, 'u) btree_ops \<Rightarrow> int \<Rightarrow> nat \<Rightarrow> 'u \<Rightarrow> 'u option" where
  "clear_loop F now 0 u = None"
| "clear_loop F now (Suc n) u =
     (let itemsToDelete = filter (\<lambda>e. fl_expiresAt e < now) (bt_Iter F u)
      in if itemsToDelete = [] then Some u else clear_loop F now n (foldl (bt_Delete F) u itemsToDelete))"

definition clearOldInFlightTxn :: "(dsTxn, 'u) btree_ops \<Rightarrow> int \<Rightarrow> 'u \<Rightarrow> 'u" where
  "clearOldInFlightTxn F now u =
     (if bt_Height F u = 0 then u else case clear_loop F now 2 u of None \<Rightarrow> u | Some u' \<Rightarrow> u')"

definition clearInFlightTxn ::
    "(dsTxn, 'u) btree_ops \<Rightarrow> int \<Rightarrow> nat \<Rightarrow> ('t, 'u) Datastore \<Rightarrow> ('t, 'u) Datastore" where
  "clearInFlightTxn F now p d =
     (let t = txn_at d p;
          u = bt_Delete F (inFlightTxn d)
                \<lparr>fl_dsVersion = getDSVersion t, fl_txnVersion = getTxnVersion t, fl_expiresAt = 0, fl_txn = 0\<rparr>
      in d\<lparr>inFlightTxn := clearOldInFlightTxn F now u\<rparr>)"

definition Txn_Discard ::
    "(dsItem, 't) btree_ops \<Rightarrow> (dsTxn, 'u) btree_ops \<Rightarrow> int \<Rightarrow> nat \<Rightarrow> ('t, 'u) Datastore \<Rightarrow> ('t, 'u) Datastore" where
  "Txn_Discard B F now p d =
     (if discarded (txn_at d p) then d
      else upd_txn p (\<lambda>t. t\<lparr>discarded := True\<rparr>)
             (clearInFlightTxn F now p (upd_txn p (\<lambda>t. t\<lparr>ops := bt_Clear B (ops t)\<rparr>) d)))"

definition checkForConflicts ::
    "(dsItem, 't) btree_ops \<Rightarrow> (string \<Rightarrow> string) \<Rightarrow> 't basicTxn \<Rightarrow> ('t, 'u) Datastore \<Rightarrow> error + unit" where
  "checkForConflicts B NewKey t d =
     (if getDSVersion t = getVersion d then Inr ()
      else if list_all (\<lambda>item.
             version (ds_get B (ds_values d) (NewKey (key item)) (getVersion d)) =
             version (ds_get B (ds_values d) (NewKey (key item)) (getDSVersion t))) (bt_Iter B (ops t))
           then Inr () else Inl ErrTxnConflict)"

definition ds_commit ::
    "(dsItem, 't) btree_ops \<Rightarrow> (string \<Rightarrow> string) \<Rightarrow> 't basicTxn \<Rightarrow> (('t, 'u) Datastore, unit) act" where
  "ds_commit B NewKey t d =
     (case checkForConflicts B NewKey t d of
        Inl e \<Rightarrow> (Inl e, d)
      | Inr _ \<Rightarrow>
          (case nextVersion d of
             (v, d') \<Rightarrow>
               (Inr (), d'\<lparr>ds_values :=
                  foldl (\<lambda>vs item. if isGet item then vs else bt_Set B vs (item\<lparr>version := v\<rparr>))
                    (ds_values d') (bt_Iter B (ops t))\<rparr>)))"

definition Txn_Commit ::
    "(dsItem, 't) btree_ops \<Rightarrow> (dsTxn, 'u) btree_ops \<Rightarrow> (string \<Rightarrow> string) \<Rightarrow> int \<Rightarrow> nat \<Rightarrow>
     (('t, 'u) Datastore, unit) act" where
  "Txn_Commit B F NewKey now p d =
     (let t = txn_at d p
      in if txn_closed t then (Inl ErrClosed, d)
         else if discarded t then (Inl ErrTxnDiscarded, d)
         else (case (if readOnly t then (Inr (), d) else ds_commit B NewKey t d) of
                 (r, d') \<Rightarrow> (r, Txn_Discard B F now p d')))"

section \<open>Direct operations on the datastore\<close>

definition DS_Get :: "(dsItem, 't) btree_ops \<Rightarrow> string \<Rightarrow> (('t, 'u) Datastore, bytes) act" where
  "DS_Get B k d =
     (if ds_closed d then (Inl ErrClosed, d)
      else (let result = ds_get B (ds_values d) k (getVersion d)
            in if absent result then (Inl ErrNotFound, d) else (Inr (val result), d)))"

definition DS_GetSize :: "(dsItem, 't) btree_ops \<Rightarrow> string \<Rightarrow> (('t, 'u) Datastore, nat) act" where
  "DS_GetSize B k d =
     (if ds_closed d then (Inl ErrClosed, d)
      else (let result = ds_get B (ds_values d) k (getVersion d)
            in if absent result then (Inl ErrNotFound, d) else (Inr (length (val result)), d)))"

definition DS_Has :: "(dsItem, 't) btree_ops \<Rightarrow> string \<Rightarrow> (('t, 'u) Datastore, bool) act" where
  "DS_Has B k d =
     (if ds_closed d then (Inl ErrClosed, d)
      else (Inr (\<not> absent (ds_get B (ds_values d) k (getVersion d))), d))"

definition DS_Put ::
    "(dsItem, 't) btree_ops \<Rightarrow> (dsTxn, 'u) btree_ops \<Rightarrow> (string \<Rightarrow> string) \<Rightarrow> int \<Rightarrow> string \<Rightarrow> bytes \<Rightarrow>
     (('t, 'u) Datastore, unit) act" where
  "DS_Put B F NewKey now k value d =
     (if ds_closed d then (Inl ErrClosed, d)
      else (case newTransaction B F now False d of
              (tx, d1) \<Rightarrow> Txn_Commit B F NewKey now tx (snd (Txn_Put B tx k value d1))))"

definition DS_Delete ::
    "(dsItem, 't) btree_ops \<Rightarrow> (dsTxn, 'u) btree_ops \<Rightarrow> (string \<Rightarrow> string) \<Rightarrow> int \<Rightarrow> string \<Rightarrow>
     (('t, 'u) Datastore, unit) act" where
  "DS_Delete B F NewKey now k d =
     (if ds_closed d then (Inl ErrClosed, d)
      else (case newTransaction B F now False d of
              (tx, d1) \<Rightarrow> Txn_Commit B F NewKey now tx (snd (Txn_Delete B tx k d1))))"

definition DS_Query ::
    "(dsItem, 't) btree_ops \<Rightarrow> (Query \<Rightarrow> Entry list \<Rightarrow> Entry list) \<Rightarrow> Query \<Rightarrow>
     (('t, 'u) Datastore, Entry list) act" where
  "DS_Query B NaiveQueryApply q d =
     (if ds_closed d then (Inl ErrClosed, d)
      else (Inr (NaiveQueryApply q
              (map (\<lambda>item. setEntry (key item) (val item) q)
                (filter (\<lambda>item. \<not> isDeleted item) (fast_forward (bt_Iter B (ds_values d)))))), d))"

definition DS_Sync :: "(('t, 'u) Datastore, unit) act" where
  "DS_Sync d = (if ds_closed d then (Inl ErrClosed, d) else (Inr (), d))"

definition txn_close :: "nat \<Rightarrow> ('t, 'u) Datastore \<Rightarrow> ('t, 'u) Datastore" where
  "txn_close p d = upd_txn p (\<lambda>t. t\<lparr>txn_closed := True\<rparr>) d"

definition DS_Close :: "(dsTxn, 'u) btree_ops \<Rightarrow> (('t, 'u) Datastore, unit) act" where
  "DS_Close F d =
     (if ds_closed d then (Inl ErrClosed, d)
      else (let d1 = d\<lparr>ds_closed := True\<rparr>
            in (Inr (), foldl (\<lambda>d e. txn_close (fl_txn e) d) d1 (bt_Iter F (inFlightTxn d1)))))"

section \<open>Batches\<close>

record op =
  op_delete :: bool
  op_value :: bytes

text \<open>A batch is the Go map of its operations: the last operation of a key wins.\<close>

type_synonym basicBatch = "string \<rightharpoonup> op"

definition newBasicBatch :: basicBatch where
  "newBasicBatch = Map.empty"

definition Batch_Put :: "string \<Rightarrow> bytes \<Rightarrow> basicBatch \<Rightarrow> basicBatch" where
  "Batch_Put k v b = b(k \<mapsto> \<lparr>op_delete = False, op_value = v\<rparr>)"

definition Batch_Delete :: "string \<Rightarrow> basicBatch \<Rightarrow> basicBatch" where
  "Batch_Delete k b = b(k \<mapsto> \<lparr>op_delete = True, op_value = []\<rparr>)"

text \<open>\<open>order\<close> is the order in which Go's map iteration happens to visit the keys of the batch.\<close>

definition Batch_Commit ::
    "(dsItem, 't) btree_ops \<Rightarrow> string list \<Rightarrow> basicBatch \<Rightarrow> ('t, 'u) Datastore \<Rightarrow> ('t, 'u) Datastore" where
  "Batch_Commit B order b d =
     (case nextVersion d of
        (v, d') \<Rightarrow> d'\<lparr>ds_values :=
          foldl (\<lambda>vs k. case b k of
                    None \<Rightarrow> vs
                  | Some op \<Rightarrow>
                      if op_delete op then bt_Set B vs (zero_item\<lparr>key := k, version := v, isDeleted := True\<rparr>)
                      else bt_Set B vs (zero_item\<lparr>key := k, version := v, val := op_value op\<rparr>))
            (ds_values d') order\<rparr>)"

section \<open>Purging old versions\<close>

text \<open>
  One scan of \<^verbatim>\<open>executePurge\<close>: \<open>item\<close> is the last visited item not newer than \<open>v\<close>; it is marked
  for deletion when the next such item has the same key. A scan stops after \<open>1000\<close> marked items.
\<close>

fun purge_scan :: "u64 \<Rightarrow> dsItem \<Rightarrow> nat \<Rightarrow> dsItem list \<Rightarrow> dsItem list" where
  "purge_scan v item tot [] = []"
| "purge_scan v item tot (cur # rest) =
     (if version cur > v then purge_scan v item tot rest
      else if key item = key cur then
        (if tot + 1 \<ge> 1000 then [item] else item # purge_scan v cur (tot + 1) rest)
      else (if tot \<ge> 1000 then [] else purge_scan v cur tot rest))"

definition purge_items :: "u64 \<Rightarrow> dsItem list \<Rightarrow> dsItem list" where
  "purge_items v items = (case items of [] \<Rightarrow> [] | item # rest \<Rightarrow> purge_scan v item 0 rest)"

fun purge_loop :: "(dsItem, 't) btree_ops \<Rightarrow> u64 \<Rightarrow> nat \<Rightarrow> 't \<Rightarrow> 't option" where
  "purge_loop B v 0 values = None"
| "purge_loop B v (Suc n) values =
     (let itemsToDelete = purge_items v (bt_Iter B values)
      in if itemsToDelete = [] then Some values
         else purge_loop B v n (foldl (bt_Delete B) values itemsToDelete))"

definition executePurge ::
    "(dsItem, 't) btree_ops \<Rightarrow> (dsTxn, 'u) btree_ops \<Rightarrow> ('t, 'u) Datastore \<Rightarrow> ('t, 'u) Datastore option" where
  "executePurge B F d =
     (let v = (case bt_Iter F (inFlightTxn d) of [] \<Rightarrow> getVersion d | e # _ \<Rightarrow> fl_dsVersion e)
      in map_option (\<lambda>vs. d\<lparr>ds_values := vs\<rparr>)
           (purge_loop B v (Suc (length (bt_Iter B (ds_values d)))) (ds_values d)))"

section \<open>Looking up a version\<close>

text \<open>The items of one key that a lookup at version \<open>v\<close> may return.\<close>

definition vers :: "(dsItem, 't) btree_ops \<Rightarrow> 't \<Rightarrow> string \<Rightarrow> u64 \<Rightarrow> dsItem set" where
  "vers B t k v = {y \<in> set (bt_Iter B t). key y = k \<and> version y \<le> v}"

lemma byKeys_iff: "byKeys a b \<longleftrightarrow> key a < key b \<or> key a = key b \<and> version a < version b"
  by (simp add: byKeys_def)

lemma not_byKeys_pivot:
  "\<not> byKeys (zero_item\<lparr>key := k, version := v\<rparr>) y \<longleftrightarrow> key y < k \<or> key y = k \<and> version y \<le> v"
  by (auto simp: byKeys_iff)

lemma sorted_last:
  assumes "sorted_wrt lt xs" and "y \<in> set xs"
  shows "y = last xs \<or> lt y (last xs)"
proof -
  obtain ys z where xs: "xs = ys @ [z]" using assms(2) by (cases xs rule: rev_cases) auto
  with assms show ?thesis by (auto simp: sorted_wrt_append)
qed

lemma ds_get_cases [consumes 1, case_names missing found]:
  assumes L: "btree_laws byKeys B"
  obtains (missing) "vers B t k v = {}" and "ds_get B t k v = zero_item"
  | (found) "ds_get B t k v \<in> vers B t k v"
      and "\<forall>y \<in> vers B t k v. version y \<le> version (ds_get B t k v)"
proof -
  define p where "p = zero_item\<lparr>key := k, version := v\<rparr>"
  define xs where "xs = filter (\<lambda>y. \<not> byKeys p y) (bt_Iter B t)"
  have g: "ds_get B t k v = descend_first k (rev xs)"
    using L by (simp add: ds_get_def btree_laws_def xs_def p_def)
  have mem: "y \<in> set xs \<longleftrightarrow> y \<in> set (bt_Iter B t) \<and> (key y < k \<or> key y = k \<and> version y \<le> v)" for y
    unfolding xs_def p_def by (simp add: not_byKeys_pivot)
  have srt: "sorted_wrt byKeys xs"
    using L by (simp add: btree_laws_def xs_def sorted_wrt_filter)
  show thesis
  proof (cases "vers B t k v = {}")
    case True
    have "ds_get B t k v = zero_item"
    proof (cases xs rule: rev_cases)
      case Nil
      then show ?thesis by (simp add: g descend_first_def)
    next
      case (snoc ys z)
      then have "key z \<noteq> k" using True mem [of z] by (auto simp: vers_def)
      with snoc show ?thesis by (simp add: g descend_first_def)
    qed
    with True show thesis by (rule missing)
  next
    case False
    then obtain y where y: "y \<in> set xs" "key y = k" "version y \<le> v"
      using mem by (auto simp: vers_def)
    then obtain ys z where xs: "xs = ys @ [z]" by (cases xs rule: rev_cases) auto
    have max: "w = z \<or> byKeys w z" if "w \<in> set xs" for w
      using sorted_last [OF srt that] xs by simp
    have "key z \<le> k" using mem [of z] xs by auto
    moreover have "k \<le> key z" using max [OF y(1)] y(2) by (auto simp: byKeys_iff)
    ultimately have kz: "key z = k" by simp
    then have gz: "ds_get B t k v = z" using xs by (simp add: g descend_first_def)
    have zv: "z \<in> vers B t k v" using mem [of z] xs kz by (auto simp: vers_def)
    have "version w \<le> version z" if "w \<in> vers B t k v" for w
      using max [of w] that mem [of w] kz by (auto simp: vers_def byKeys_iff)
    with gz zv show thesis using found by simp
  qed
qed

lemma bt_sorted_unique:
  assumes "btree_laws byKeys B" and "x \<in> set (bt_Iter B t)" and "y \<in> set (bt_Iter B t)"
    and "key x = key y" and "version x = version y"
  shows "x = y"
proof -
  have "sorted_wrt byKeys (bt_Iter B t)" using assms(1) by (simp add: btree_laws_def)
  moreover obtain i j where "i < length (bt_Iter B t)" "bt_Iter B t ! i = x"
      "j < length (bt_Iter B t)" "bt_Iter B t ! j = y"
    using assms(2,3) by (metis in_set_conv_nth)
  ultimately show ?thesis
    using assms(4,5) sorted_wrt_iff_nth_less [of byKeys "bt_Iter B t"]
    by (metis byKeys_iff nat_neq_iff less_irrefl)
qed

lemma ds_get_found:
  assumes L: "btree_laws byKeys B" and "x \<in> vers B t k v"
    and "\<forall>y \<in> vers B t k v. version y \<le> version x"
  shows "ds_get B t k v = x"
  using L
proof (cases rule: ds_get_cases [where t = t and k = k and v = v])
  case missing
  with assms show ?thesis by simp
next
  case found
  with assms have "version (ds_get B t k v) = version x" by (simp add: order.antisym)
  with found(1) assms(2) show ?thesis
    by (intro bt_sorted_unique [OF L]) (auto simp: vers_def)
qed

lemma ds_get_missing: "btree_laws byKeys B \<Longrightarrow> vers B t k v = {} \<Longrightarrow> ds_get B t k v = zero_item"
  by (erule ds_get_cases [of B t k v]) auto

lemma ds_get_cong:
  assumes L: "btree_laws byKeys B" and eq: "vers B t k v = vers B t' k' v'"
  shows "ds_get B t k v = ds_get B t' k' v'"
  using L
proof (cases rule: ds_get_cases [where t = t' and k = k' and v = v'])
  case missing
  with eq show ?thesis by (simp add: ds_get_missing [OF L])
next
  case found
  with eq show ?thesis by (intro ds_get_found [OF L]) auto
qed

lemma byKeys_trichotomy:
  "byKeys x y \<or> byKeys y x \<longleftrightarrow> \<not> (key y = key x \<and> version y = version x)"
  by (auto simp: byKeys_iff)

lemma Iter_Set:
  assumes "btree_laws byKeys B"
  shows "set (bt_Iter B (bt_Set B t x)) =
    insert x {y \<in> set (bt_Iter B t). \<not> (key y = key x \<and> version y = version x)}"
proof -
  have "set (bt_Iter B (bt_Set B t x)) = insert x {y \<in> set (bt_Iter B t). byKeys x y \<or> byKeys y x}"
    using assms unfolding btree_laws_def by blast
  then show ?thesis by (simp only: byKeys_trichotomy)
qed

lemma Iter_Delete:
  assumes "btree_laws byKeys B"
  shows "set (bt_Iter B (bt_Delete B t x)) =
    {y \<in> set (bt_Iter B t). \<not> (key y = key x \<and> version y = version x)}"
proof -
  have "set (bt_Iter B (bt_Delete B t x)) = {y \<in> set (bt_Iter B t). byKeys x y \<or> byKeys y x}"
    using assms unfolding btree_laws_def by blast
  then show ?thesis by (simp only: byKeys_trichotomy)
qed

lemma vers_Set:
  "btree_laws byKeys B \<Longrightarrow> vers B (bt_Set B t x) k v =
     (if key x = k \<and> version x \<le> v then insert x {y \<in> vers B t k v. version y \<noteq> version x}
      else vers B t k v)"
  by (auto simp: vers_def Iter_Set)

lemma ds_get_Set_other:
  "btree_laws byKeys B \<Longrightarrow> key x \<noteq> k \<or> \<not> version x \<le> v \<Longrightarrow>
     ds_get B (bt_Set B t x) k v = ds_get B t k v"
  by (rule ds_get_cong) (auto simp: vers_Set)

lemma ds_get_Set_same:
  assumes "btree_laws byKeys B" and "key x = k" and "version x \<le> v"
    and "\<forall>y \<in> vers B t k v. version y \<le> version x"
  shows "ds_get B (bt_Set B t x) k v = x"
  using assms by (intro ds_get_found) (auto simp: vers_Set)

lemma ds_get_key:
  assumes "btree_laws byKeys B"
  shows "key (ds_get B t k v) = k \<or> ds_get B t k v = zero_item"
  using assms by (cases rule: ds_get_cases [where t = t and k = k and v = v]) (auto simp: vers_def)

lemma ds_get_version: "btree_laws byKeys B \<Longrightarrow> version (ds_get B t k v) \<le> v"
  by (erule ds_get_cases [of B t k v]) (auto simp: vers_def zero_item_def)

end
