(* ===== verification/MemTxn.thy ===== *)
theory MemTxn
  imports MemStore
begin

text \<open>
  The transactions of the in-memory datastore: what a transaction sees (its own operations over
  the snapshot it was begun at), the invariant of the datastore and its transactions, and the
  commit. A transaction implements the store contract \<open>kv_store\<close>.
\<close>

section \<open>Snapshots, transaction views and the invariant\<close>

text \<open>The value an item stands for, what the store holds at a version, and what a transaction sees.\<close>

definition live :: "dsItem \<Rightarrow> bytes option" where
  "live it = (if absent it then None else Some (val it))"

definition snapshot :: "(dsItem, 't) btree_ops \<Rightarrow> ('t, 'u) Datastore \<Rightarrow> u64 \<Rightarrow> string \<Rightarrow> bytes option" where
  "snapshot B d v k = live (ds_get B (ds_values d) k v)"

definition txn_item :: "(dsItem, 't) btree_ops \<Rightarrow> ('t, 'u) Datastore \<Rightarrow> 't basicTxn \<Rightarrow> string \<Rightarrow> dsItem" where
  "txn_item B d t k =
     (if key (ds_get B (ops t) k (getTxnVersion t)) = [] then ds_get B (ds_values d) k (getDSVersion t)
      else ds_get B (ops t) k (getTxnVersion t))"

definition txn_view :: "(dsItem, 't) btree_ops \<Rightarrow> nat \<Rightarrow> ('t, 'u) Datastore \<Rightarrow> string \<Rightarrow> bytes option" where
  "txn_view B p d k = live (txn_item B d (txn_at d p) k)"

definition values_inv :: "(dsItem, 't) btree_ops \<Rightarrow> ('t, 'u) Datastore \<Rightarrow> bool" where
  "values_inv B d \<longleftrightarrow>
     (\<forall>it \<in> set (bt_Iter B (ds_values d)). clean_key (key it) \<and> version it \<le> ds_version d \<and> \<not> isGet it)"

text \<open>
  A transaction's operations are reads and writes at the transaction's version. A read is recorded
  as the blank item when the key was missing, else as the snapshot's item of its key. A purge may
  have removed that item since, but then a newer version of the key is stored.
\<close>

definition op_inv :: "(dsItem, 't) btree_ops \<Rightarrow> ('t, 'u) Datastore \<Rightarrow> 't basicTxn \<Rightarrow> dsItem \<Rightarrow> bool" where
  "op_inv B d t it \<longleftrightarrow>
     (if isGet it then
        it = zero_item\<lparr>isGet := True\<rparr> \<or>
        clean_key (key it) \<and> version it \<le> dsVersion t \<and>
          (it = (ds_get B (ds_values d) (key it) (dsVersion t))\<lparr>isGet := True\<rparr> \<or>
           (\<exists>y \<in> set (bt_Iter B (ds_values d)). key y = key it \<and> dsVersion t < version y))
      else clean_key (key it) \<and> version it = dsVersion t + 1)"

definition txn_inv :: "(dsItem, 't) btree_ops \<Rightarrow> ('t, 'u) Datastore \<Rightarrow> 't basicTxn \<Rightarrow> bool" where
  "txn_inv B d t \<longleftrightarrow> dsVersion t \<le> ds_version d \<and> (\<forall>it \<in> set (bt_Iter B (ops t)). op_inv B d t it)"

definition libs_ok :: "(dsItem, 't) btree_ops \<Rightarrow> (dsTxn, 'u) btree_ops \<Rightarrow> (string \<Rightarrow> string) \<Rightarrow> bool" where
  "libs_ok B F NewKey \<longleftrightarrow> btree_laws byKeys B \<and> btree_laws byDSVersion F \<and> newkey_laws NewKey"

definition mem_inv :: "(dsItem, 't) btree_ops \<Rightarrow> ('t, 'u) Datastore \<Rightarrow> bool" where
  "mem_inv B d \<longleftrightarrow> ds_version d < - 1 \<and> values_inv B d \<and> (\<forall>t \<in> set (txns d). txn_inv B d t)"

lemma inc_version: "v < (- 1 :: u64) \<Longrightarrow> v < v + 1"
  by (metis inc_less_eq_triv_imp less_irrefl not_le)

lemma upd_txn_simps [simp]:
  "ds_version (upd_txn p f d) = ds_version d" "ds_values (upd_txn p f d) = ds_values d"
  "inFlightTxn (upd_txn p f d) = inFlightTxn d" "ds_closed (upd_txn p f d) = ds_closed d"
  "length (txns (upd_txn p f d)) = length (txns d)"
  by (simp_all add: upd_txn_def)

lemma txn_at_upd [simp]:
  "p < length (txns d) \<Longrightarrow> txn_at (upd_txn p f d) q = (if q = p then f (txn_at d p) else txn_at d q)"
  by (simp add: upd_txn_def txn_at_def)

lemma txn_at_mem: "p < length (txns d) \<Longrightarrow> txn_at d p \<in> set (txns d)"
  by (simp add: txn_at_def)

lemma set_txns_upd: "p < length (txns d) \<Longrightarrow> set (txns (upd_txn p f d)) \<subseteq> insert (f (txn_at d p)) (set (txns d))"
  by (simp add: upd_txn_def txn_at_def set_update_subset_insert)

lemma txn_inv_at: "mem_inv B d \<Longrightarrow> p < length (txns d) \<Longrightarrow> txn_inv B d (txn_at d p)"
  by (simp add: mem_inv_def txn_at_mem)

lemma txn_version_less:
  assumes "mem_inv B d" and "p < length (txns d)"
  shows "dsVersion (txn_at d p) < dsVersion (txn_at d p) + 1"
  using assms txn_inv_at [OF assms]
  by (intro inc_version) (auto simp: mem_inv_def txn_inv_def)

lemma txn_inv_frame:
  "ds_values d' = ds_values d \<Longrightarrow> ds_version d' = ds_version d \<Longrightarrow> txn_inv B d' t = txn_inv B d t"
  by (simp add: txn_inv_def op_inv_def)

lemma values_inv_frame:
  "ds_values d' = ds_values d \<Longrightarrow> ds_version d' = ds_version d \<Longrightarrow> values_inv B d' = values_inv B d"
  by (simp add: values_inv_def)

lemma mem_inv_upd_txn:
  assumes "mem_inv B d" and "p < length (txns d)"
    and "txn_inv B d (txn_at d p) \<Longrightarrow> txn_inv B d (f (txn_at d p))"
  shows "mem_inv B (upd_txn p f d)"
  using assms set_txns_upd [OF assms(2), of f] txn_inv_at [OF assms(1,2)]
    txn_inv_frame [of "upd_txn p f d" d B] values_inv_frame [of "upd_txn p f d" d B]
  unfolding mem_inv_def by auto

lemma txn_inv_Set:
  assumes "btree_laws byKeys B" and "txn_inv B d t" and "op_inv B d t x"
  shows "txn_inv B d (t\<lparr>ops := bt_Set B (ops t) x\<rparr>)"
  using assms by (auto simp: txn_inv_def op_inv_def Iter_Set)

lemma txn_item_simp: "live (it\<lparr>isGet := b\<rparr>) = live it" "key (it\<lparr>isGet := b\<rparr>) = key it"
  by (simp_all add: live_def absent_def)

text \<open>A read returns the view, leaves every view as it is and keeps the invariant.\<close>

lemma txn_get_spec:
  assumes L: "btree_laws byKeys B" and inv: "mem_inv B d" and p: "p < length (txns d)"
    and k: "clean_key k" and get: "txn_get B p k d = (r, d')"
  shows "live r = txn_view B p d k" and "mem_inv B d'" and "length (txns d') = length (txns d)"
    and "\<And>k'. clean_key k' \<Longrightarrow> txn_view B p d' k' = txn_view B p d k'"
    and "\<exists>t'. d' = upd_txn p (\<lambda>t. t\<lparr>ops := t'\<rparr>) d"
proof -
  let ?t = "txn_at d p"
  let ?g = "ds_get B (ds_values d) k (dsVersion ?t)"
  let ?r = "ds_get B (ops ?t) k (getTxnVersion ?t)"
  let ?x = "?g\<lparr>isGet := True\<rparr>"
  let ?u = "upd_txn p (\<lambda>t. t\<lparr>ops := bt_Set B (ops t) ?x\<rparr>) d"
  have tg: "txn_get B p k d = (if key ?r = [] then (?x, ?u) else (?r, d))"
    by (simp add: txn_get_def ds_get_def Let_def getDSVersion_def)
  have kne: "k \<noteq> []" using k by (rule clean_key_ne)
  have "live r = txn_view B p d k \<and> mem_inv B d' \<and> length (txns d') = length (txns d) \<and>
    (\<forall>k'. clean_key k' \<longrightarrow> txn_view B p d' k' = txn_view B p d k') \<and>
    (\<exists>t'. d' = upd_txn p (\<lambda>t. t\<lparr>ops := t'\<rparr>) d)"
  proof (cases "key ?r = []")
    case False
    have "d = upd_txn p (\<lambda>t. t\<lparr>ops := ops (txn_at d p)\<rparr>) d"
      by (simp add: upd_txn_def txn_at_def)
    with False tg get inv show ?thesis by (auto simp: txn_view_def txn_item_def)
  next
    case True
    then have rd: "r = ?x" "d' = ?u" using tg get by auto
    have empty: "vers B (ops ?t) k (getTxnVersion ?t) = {}"
      using L True kne by (cases rule: ds_get_cases [where t = "ops ?t" and k = k and v = "getTxnVersion ?t"])
        (auto simp: vers_def)
    have gk: "key ?g = k \<or> ?g = zero_item" using L by (rule ds_get_key)
    have gv: "version ?g \<le> getTxnVersion ?t"
      using ds_get_version [OF L, of "ds_values d" k "dsVersion ?t"] txn_version_less [OF inv p]
      by (simp add: getTxnVersion_def getDSVersion_def)
    have "op_inv B d ?t ?x" using gk k ds_get_version [OF L, of "ds_values d" k "dsVersion ?t"] by (auto simp: op_inv_def)
    then have "mem_inv B ?u" by (intro mem_inv_upd_txn [OF inv p] txn_inv_Set [OF L])
    moreover have "txn_view B p ?u k' = txn_view B p d k'" if k': "clean_key k'" for k'
    proof (cases "key ?g = k'")
      case False
      then have "ds_get B (bt_Set B (ops ?t) ?x) k' (getTxnVersion ?t) = ds_get B (ops ?t) k' (getTxnVersion ?t)"
        by (intro ds_get_Set_other [OF L]) auto
      then show ?thesis using p by (simp add: txn_view_def txn_item_def getTxnVersion_def getDSVersion_def)
    next
      case eq: True
      then have "k' = k" using gk clean_key_ne [OF k'] by (auto simp: zero_item_def)
      then have "ds_get B (bt_Set B (ops ?t) ?x) k' (getTxnVersion ?t) = ?x"
        using eq gv empty by (intro ds_get_Set_same [OF L]) auto
      then show ?thesis
        using p True eq \<open>k' = k\<close> kne
        by (simp add: txn_view_def txn_item_def getTxnVersion_def getDSVersion_def txn_item_simp)
    qed
    ultimately show ?thesis
      using rd True by (auto simp: txn_view_def txn_item_def getDSVersion_def txn_item_simp upd_txn_def)
  qed
  then show "live r = txn_view B p d k" and "mem_inv B d'" and "length (txns d') = length (txns d)"
    and "\<And>k'. clean_key k' \<Longrightarrow> txn_view B p d' k' = txn_view B p d k'"
    and "\<exists>t'. d' = upd_txn p (\<lambda>t. t\<lparr>ops := t'\<rparr>) d"
    by auto
qed

section \<open>Queries\<close>

lemma fast_forward_keys: "key ` set (fast_forward xs) = key ` set xs"
  by (induction xs rule: fast_forward.induct) auto

lemma fast_forward_mem:
  "sorted_wrt byKeys xs \<Longrightarrow> it \<in> set (fast_forward xs) \<longleftrightarrow>
     it \<in> set xs \<and> (\<forall>y \<in> set xs. key y = key it \<longrightarrow> version y \<le> version it)"
proof (induction xs rule: fast_forward.induct)
  case (3 a b xs)
  show ?case
  proof (cases "key a = key b")
    case True
    with 3 show ?thesis by (auto simp: byKeys_iff)
  next
    case False
    with "3.prems" have less: "\<forall>y \<in> set (b # xs). key a < key y" by (auto simp: byKeys_iff)
    with False "3.IH"(2) "3.prems" show ?thesis by fastforce
  qed
qed auto

lemma fast_forward_sorted:
  "sorted_wrt byKeys xs \<Longrightarrow> sorted_wrt (\<lambda>a b. key a < key b) (fast_forward xs)"
proof (induction xs rule: fast_forward.induct)
  case (3 a b xs)
  show ?case
  proof (cases "key a = key b")
    case True
    with 3 show ?thesis by auto
  next
    case False
    with "3.prems" have "\<forall>y \<in> set (b # xs). key a < key y" by (auto simp: byKeys_iff)
    then have "\<forall>y \<in> set (fast_forward (b # xs)). key a < key y"
      using fast_forward_keys [of "b # xs"] by (metis (no_types, lifting) imageE imageI)
    with False 3 show ?thesis by auto
  qed
qed auto

definition emits :: "dsItem \<Rightarrow> bool" where
  "emits it \<longleftrightarrow> \<not> isDeleted it \<and> \<not> isGet it"

lemma drain_ops_eq:
  "sorted_wrt byKeys os \<Longrightarrow> drain_ops q item os =
     (map (\<lambda>it. setEntry (key it) (val it) q) (filter emits (filter (\<lambda>it. key it < key item) os)),
      (if filter (\<lambda>it. key it = key item) os = [] then item else last (filter (\<lambda>it. key it = key item) os)),
      filter (\<lambda>it. key item < key it) os)"
proof (induction os arbitrary: item)
  case (Cons x xs)
  consider "key x < key item" | "key x = key item" | "key item < key x" by fastforce
  then show ?case
  proof cases
    case 1
    with Cons show ?thesis by (auto simp: emits_def)
  next
    case 2
    with Cons.prems have "\<forall>y \<in> set xs. \<not> key y < key item" by (auto simp: byKeys_iff)
    with 2 Cons show ?thesis by (auto simp: filter_empty_conv)
  next
    case 3
    with Cons.prems have "\<forall>y \<in> set xs. key item < key y" by (auto simp: byKeys_iff)
    with 3 show ?thesis by (auto simp: filter_empty_conv filter_id_conv)
  qed
qed simp

text \<open>Which item stands for a key in the merged result.\<close>

definition merged :: "dsItem list \<Rightarrow> dsItem list \<Rightarrow> dsItem \<Rightarrow> bool" where
  "merged items os it \<longleftrightarrow> \<not> isDeleted it \<and>
     (if \<exists>i \<in> set items. key i = key it then
        (if \<exists>x \<in> set os. key x = key it then
           it \<in> set os \<and> (\<forall>x \<in> set os. key x = key it \<longrightarrow> version x \<le> version it)
         else it \<in> set items)
      else it \<in> set os \<and> \<not> isGet it)"


lemma last_of_key:
  assumes "sorted_wrt byKeys os" and "x \<in> set os" and "key x = k"
  shows "last (filter (\<lambda>it. key it = k) os) \<in> set os"
    and "key (last (filter (\<lambda>it. key it = k) os)) = k"
    and "\<And>y. y \<in> set os \<Longrightarrow> key y = k \<Longrightarrow>
      y = last (filter (\<lambda>it. key it = k) os) \<or> version y < version (last (filter (\<lambda>it. key it = k) os))"
proof -
  let ?f = "filter (\<lambda>it. key it = k) os"
  have ne: "?f \<noteq> []" using assms by (auto simp: filter_empty_conv)
  then have l: "last ?f \<in> set ?f" by (rule last_in_set)
  then show "last ?f \<in> set os" and k: "key (last ?f) = k" by auto
  show "y = last ?f \<or> version y < version (last ?f)" if "y \<in> set os" and "key y = k" for y
    using sorted_last [of byKeys ?f y] sorted_wrt_filter [OF assms(1)] that k by (auto simp: byKeys_iff)
qed

lemma merge_query_mem:
  assumes "sorted_wrt (\<lambda>a b. key a < key b) items" and "sorted_wrt byKeys os"
  shows "e \<in> set (merge_query q items os) \<longleftrightarrow>
    (\<exists>it. merged items os it \<and> e = setEntry (key it) (val it) q)"
  using assms
proof (induction items arbitrary: os)
  case Nil
  then show ?case by (auto simp: merged_def)
next
  case (Cons i items)
  let ?hi = "filter (\<lambda>it. key i < key it) os"
  let ?eq = "filter (\<lambda>it. key it = key i) os"
  let ?i = "if ?eq = [] then i else last ?eq"
  have gt: "\<forall>y \<in> set items. key i < key y" using Cons.prems(1) by auto
  have IH: "e \<in> set (merge_query q items ?hi) \<longleftrightarrow>
      (\<exists>it. merged items ?hi it \<and> e = setEntry (key it) (val it) q)"
    using Cons.IH [of ?hi] Cons.prems by (auto intro: sorted_wrt_filter)
  have low: "merged (i # items) os it \<longleftrightarrow> it \<in> set os \<and> emits it" if "key it < key i" for it
    using that gt by (auto simp: merged_def emits_def)
  have high: "merged (i # items) os it \<longleftrightarrow> merged items ?hi it" if "key i < key it" for it
  proof -
    have "(\<exists>x \<in> set ?hi. key x = key it) \<longleftrightarrow> (\<exists>x \<in> set os. key x = key it)" using that by fastforce
    moreover have "(\<forall>x \<in> set ?hi. key x = key it \<longrightarrow> version x \<le> version it) \<longleftrightarrow>
        (\<forall>x \<in> set os. key x = key it \<longrightarrow> version x \<le> version it)" using that by fastforce
    ultimately show ?thesis using that by (auto simp: merged_def)
  qed
  have hi_key: "merged items ?hi it \<Longrightarrow> key i < key it" for it
    using gt by (auto simp: merged_def split: if_splits)
  have here: "merged (i # items) os it \<longleftrightarrow> \<not> isDeleted it \<and> it = ?i" if "key it = key i" for it
  proof (cases "?eq = []")
    case True
    with that gt show ?thesis by (auto simp: merged_def filter_empty_conv)
  next
    case False
    then obtain x where x: "x \<in> set os" "key x = key i" by (auto simp: filter_empty_conv)
    from last_of_key [OF Cons.prems(2) this] False that show ?thesis
      by (auto simp: merged_def) (metis less_le_not_le order_refl)+
  qed
  have ki: "key ?i = key i"
    using last_of_key(2) [OF Cons.prems(2)] by (auto simp: filter_empty_conv)
  define m where "m = ?i"
  have "(\<exists>it. merged (i # items) os it \<and> e = setEntry (key it) (val it) q) \<longleftrightarrow>
      (\<exists>it \<in> set os. key it < key i \<and> emits it \<and> e = setEntry (key it) (val it) q) \<or>
      (\<not> isDeleted m \<and> e = setEntry (key m) (val m) q) \<or>
      (\<exists>it. merged items ?hi it \<and> e = setEntry (key it) (val it) q)" (is "?A \<longleftrightarrow> ?B")
  proof
    assume ?A
    then obtain it where it: "merged (i # items) os it" "e = setEntry (key it) (val it) q" by blast
    then show ?B
      using low [of it] here [of it, folded m_def] high [of it]
      by (cases "key it" "key i" rule: linorder_cases) blast+
  next
    assume ?B
    then show ?A
      using low here [of m, folded m_def] high hi_key ki [folded m_def] by blast
  qed
  moreover have "merge_query q (i # items) os =
      map (\<lambda>it. setEntry (key it) (val it) q) (filter emits (filter (\<lambda>it. key it < key i) os)) @
      (if isDeleted m then [] else [setEntry (key m) (val m) q]) @ merge_query q items ?hi"
    by (simp add: drain_ops_eq [OF Cons.prems(2)] m_def)
  moreover have "e \<in> set (map (\<lambda>it. setEntry (key it) (val it) q) (filter emits (filter (\<lambda>it. key it < key i) os))) \<longleftrightarrow>
      (\<exists>it \<in> set os. key it < key i \<and> emits it \<and> e = setEntry (key it) (val it) q)"
    by auto
  ultimately show ?case
    by (simp only: IH set_append Un_iff) simp
qed

text \<open>At most one operation per key is emitted.\<close>

definition emits_once :: "dsItem list \<Rightarrow> bool" where
  "emits_once os \<longleftrightarrow> (\<forall>x \<in> set os. \<forall>y \<in> set os. emits x \<longrightarrow> emits y \<longrightarrow> key x = key y \<longrightarrow> x = y)"

lemma emitted_sorted:
  assumes "sorted_wrt byKeys os" and "emits_once os"
  shows "sorted_wrt (\<lambda>a b. key a < key b) (filter emits os)"
proof -
  have "sorted_wrt byKeys (filter emits os)" using assms(1) by (rule sorted_wrt_filter)
  then show ?thesis
    by (rule sorted_wrt_mono_rel [rotated]) (use assms(2) in \<open>auto simp: emits_once_def byKeys_iff\<close>)
qed

lemma merge_query_sorted:
  assumes "sorted_wrt (\<lambda>a b. key a < key b) items" and "sorted_wrt byKeys os"
    and "emits_once os"
  shows "sorted_wrt (<) (map e_Key (merge_query q items os))"
  using assms
proof (induction items arbitrary: os)
  case Nil
  from emitted_sorted [OF Nil.prems(2,3)] show ?case
    by (simp add: sorted_wrt_map setEntry_def emits_def [abs_def] comp_def)
next
  case (Cons i items)
  let ?hi = "filter (\<lambda>it. key i < key it) os"
  let ?lo = "filter (\<lambda>it. key it < key i) os"
  let ?eq = "filter (\<lambda>it. key it = key i) os"
  let ?i = "if ?eq = [] then i else last ?eq"
  have ki: "key ?i = key i"
    using last_of_key(2) [OF Cons.prems(2)] by (auto simp: filter_empty_conv)
  have gt: "\<forall>y \<in> set items. key i < key y" using Cons.prems(1) by auto
  have sub: "sorted_wrt byKeys (filter P os)" "emits_once (filter P os)" for P
    using Cons.prems(2,3) by (auto simp: emits_once_def intro: sorted_wrt_filter)
  have hi: "sorted_wrt (<) (map e_Key (merge_query q items ?hi))"
    using Cons.IH [OF _ sub] Cons.prems(1) by simp
  have above: "key i < e_Key e" if "e \<in> set (merge_query q items ?hi)" for e
    using that gt sub(1) Cons.prems(1)
    by (auto simp: merge_query_mem merged_def setEntry_def split: if_splits)
  have lo: "sorted_wrt (\<lambda>a b. key a < key b) (filter emits ?lo)"
    using emitted_sorted [OF sub] .
  show ?case
    using hi above lo ki
    by (auto simp: drain_ops_eq [OF Cons.prems(2)] sorted_wrt_append sorted_wrt_map setEntry_def
        intro: less_trans)
qed

section \<open>Writes\<close>

lemma op_version:
  assumes L: "btree_laws byKeys B" and inv: "mem_inv B d" and p: "p < length (txns d)"
    and it: "it \<in> set (bt_Iter B (ops (txn_at d p)))"
  shows "version it \<le> dsVersion (txn_at d p) + 1"
    and "\<not> isGet it \<Longrightarrow> version it = dsVersion (txn_at d p) + 1"
    and "key it = [] \<or> clean_key (key it)"
proof -
  let ?t = "txn_at d p"
  have op: "op_inv B d ?t it" using txn_inv_at [OF inv p] it by (simp add: txn_inv_def)
  have le: "dsVersion ?t \<le> dsVersion ?t + 1" using txn_version_less [OF inv p] by simp
  show "\<not> isGet it \<Longrightarrow> version it = dsVersion ?t + 1" and "key it = [] \<or> clean_key (key it)"
    using op by (auto simp: op_inv_def zero_item_def split: if_splits)
  show "version it \<le> dsVersion ?t + 1"
    using op le by (auto simp: op_inv_def zero_item_def split: if_splits)
qed

lemma write_spec:
  assumes L: "btree_laws byKeys B" and inv: "mem_inv B d" and p: "p < length (txns d)"
    and x: "clean_key (key x)" "version x = dsVersion (txn_at d p) + 1" "\<not> isGet x"
  defines "d' \<equiv> upd_txn p (\<lambda>t. t\<lparr>ops := bt_Set B (ops t) x\<rparr>) d"
  shows "mem_inv B d'" and "txn_view B p d' k = (if k = key x then live x else txn_view B p d k)"
proof -
  let ?t = "txn_at d p"
  show "mem_inv B d'"
    unfolding d'_def using x
    by (intro mem_inv_upd_txn [OF inv p] txn_inv_Set [OF L]) (simp_all add: op_inv_def)
  show "txn_view B p d' k = (if k = key x then live x else txn_view B p d k)"
  proof (cases "k = key x")
    case True
    have "ds_get B (bt_Set B (ops ?t) x) k (dsVersion ?t + 1) = x"
      using x True op_version(1) [OF L inv p]
      by (intro ds_get_Set_same [OF L]) (auto simp: vers_def)
    then show ?thesis
      using p True clean_key_ne [OF x(1)]
      by (simp add: d'_def txn_view_def txn_item_def getTxnVersion_def getDSVersion_def)
  next
    case False
    then have "ds_get B (bt_Set B (ops ?t) x) k (dsVersion ?t + 1) = ds_get B (ops ?t) k (dsVersion ?t + 1)"
      by (intro ds_get_Set_other [OF L]) auto
    with False p show ?thesis
      by (simp add: d'_def txn_view_def txn_item_def getTxnVersion_def getDSVersion_def)
  qed
qed

section \<open>A transaction is a store\<close>

definition txn_dsrw ::
    "(dsItem, 't) btree_ops \<Rightarrow> (Query \<Rightarrow> Entry list \<Rightarrow> Entry list) \<Rightarrow> nat \<Rightarrow> ('t, 'u) Datastore DSReaderWriter" where
  "txn_dsrw B NaiveQueryApply p =
     \<lparr>ds_Get = Txn_Get B p, ds_Has = Txn_Has B p, ds_GetSize = Txn_GetSize B p, ds_Put = Txn_Put B p, ds_Delete = Txn_Delete B p,
      ds_Query = Txn_Query B NaiveQueryApply p\<rparr>"

definition kv_view :: "(dsItem, 't) btree_ops \<Rightarrow> nat \<Rightarrow> ('t, 'u) Datastore \<Rightarrow> string \<Rightarrow> bytes option" where
  "kv_view B p d k = (if clean_key k then txn_view B p d k else None)"

text \<open>
  A state in which transaction \<open>p\<close> is usable: open, writable, and begun at the current version, so
  that no other transaction has committed since. The store contract asks for the last condition:
  a query reads the latest committed versions, not the snapshot the transaction was begun at, and
  agrees with the reads by key only while nothing has been committed.
\<close>

definition txn_ok ::
    "(dsItem, 't) btree_ops \<Rightarrow> (Query \<Rightarrow> Entry list \<Rightarrow> Entry list) \<Rightarrow> nat \<Rightarrow> ('t, 'u) Datastore \<Rightarrow> bool" where
  "txn_ok B NaiveQueryApply p d \<longleftrightarrow>
     btree_laws byKeys B \<and> query_laws NaiveQueryApply \<and> mem_inv B d \<and> p < length (txns d) \<and>
     \<not> ds_closed d \<and> \<not> txn_closed (txn_at d p) \<and> \<not> discarded (txn_at d p) \<and> \<not> readOnly (txn_at d p) \<and>
     dsVersion (txn_at d p) = ds_version d"

lemma txn_ok_upd:
  "txn_ok B Q p d \<Longrightarrow> mem_inv B (upd_txn p (\<lambda>t. t\<lparr>ops := f t\<rparr>) d) \<Longrightarrow>
     txn_ok B Q p (upd_txn p (\<lambda>t. t\<lparr>ops := f t\<rparr>) d)"
  by (simp add: txn_ok_def)

lemma txn_ok_get:
  assumes ok: "txn_ok B Q p d" and k: "clean_key k"
  obtains r d' where "txn_get B p k d = (r, d')" and "kv_view B p d k = live r"
    and "txn_ok B Q p d'" and "kv_view B p d' = kv_view B p d" and "dsVersion (txn_at d' p) = dsVersion (txn_at d p)"
    and "p < length (txns d')"
proof -
  obtain r d' where g: "txn_get B p k d = (r, d')" by (cases "txn_get B p k d")
  have L: "btree_laws byKeys B" and inv: "mem_inv B d" and p: "p < length (txns d)"
    using ok by (auto simp: txn_ok_def)
  note S = txn_get_spec [OF L inv p k g]
  obtain t' where d': "d' = upd_txn p (\<lambda>t. t\<lparr>ops := t'\<rparr>) d" using S(5) by blast
  have "txn_ok B Q p d'" using txn_ok_upd [OF ok, of "\<lambda>_. t'"] S(2) d' by simp
  moreover have "kv_view B p d' = kv_view B p d" using S(4) by (auto simp: kv_view_def)
  moreover have "dsVersion (txn_at d' p) = dsVersion (txn_at d p)" "p < length (txns d')" using d' p by simp_all
  ultimately show thesis using that g S(1) k by (simp add: kv_view_def)
qed

lemma txn_ok_flags:
  assumes "txn_ok B Q p d"
  shows "\<not> ds_closed d" "\<not> txn_closed (txn_at d p)" "\<not> discarded (txn_at d p)" "\<not> readOnly (txn_at d p)"
    and "btree_laws byKeys B" "mem_inv B d" "p < length (txns d)" "query_laws Q"
  using assms by (simp_all add: txn_ok_def)

lemma Txn_Get_spec:
  assumes ok: "txn_ok B Q p d" and k: "clean_key k"
  shows "\<exists>d'. Txn_Get B p k d = ((case kv_view B p d k of None \<Rightarrow> Inl ErrNotFound | Some v \<Rightarrow> Inr v), d') \<and>
    txn_ok B Q p d' \<and> kv_view B p d' = kv_view B p d"
proof -
  obtain r d' where "txn_get B p k d = (r, d')" and "kv_view B p d k = live r"
    and "txn_ok B Q p d'" and "kv_view B p d' = kv_view B p d"
    using txn_ok_get [OF assms] by metis
  then show ?thesis
    using txn_ok_flags [OF ok] by (auto simp: Txn_Get_def live_def split: option.splits if_splits)
qed

lemma Txn_Has_spec:
  assumes ok: "txn_ok B Q p d" and k: "clean_key k"
  shows "\<exists>d'. Txn_Has B p k d = (Inr (kv_view B p d k \<noteq> None), d') \<and>
    txn_ok B Q p d' \<and> kv_view B p d' = kv_view B p d"
proof -
  obtain r d' where "txn_get B p k d = (r, d')" and "kv_view B p d k = live r"
    and "txn_ok B Q p d'" and "kv_view B p d' = kv_view B p d"
    using txn_ok_get [OF assms] by metis
  then show ?thesis
    using txn_ok_flags [OF ok] by (auto simp: Txn_Has_def live_def split: option.splits if_splits)
qed

lemma Txn_GetSize_spec:
  assumes ok: "txn_ok B Q p d" and k: "clean_key k"
  shows "\<exists>d'. Txn_GetSize B p k d =
      ((case kv_view B p d k of None \<Rightarrow> Inl ErrNotFound | Some v \<Rightarrow> Inr (length v)), d') \<and>
    txn_ok B Q p d' \<and> kv_view B p d' = kv_view B p d"
proof -
  obtain r d' where "txn_get B p k d = (r, d')" and "kv_view B p d k = live r"
    and "txn_ok B Q p d'" and "kv_view B p d' = kv_view B p d"
    using txn_ok_get [OF assms] by metis
  then show ?thesis
    using txn_ok_flags [OF ok] by (auto simp: Txn_GetSize_def live_def split: option.splits if_splits)
qed

lemma kv_write:
  assumes ok: "txn_ok B Q p d" and x: "clean_key (key x)" "version x = dsVersion (txn_at d p) + 1" "\<not> isGet x"
  defines "d' \<equiv> upd_txn p (\<lambda>t. t\<lparr>ops := bt_Set B (ops t) x\<rparr>) d"
  shows "txn_ok B Q p d'" and "kv_view B p d' = (kv_view B p d)(key x := live x)"
proof -
  note F = txn_ok_flags [OF ok]
  note W = write_spec [OF F(5-7) x]
  show "txn_ok B Q p d'" unfolding d'_def by (rule txn_ok_upd [OF ok W(1)])
  show "kv_view B p d' = (kv_view B p d)(key x := live x)"
    unfolding d'_def kv_view_def using W(2) x(1) by auto
qed

lemma Txn_Put_spec:
  assumes ok: "txn_ok B Q p d" and k: "clean_key k"
  shows "\<exists>d'. Txn_Put B p k v d = (Inr (), d') \<and> txn_ok B Q p d' \<and> kv_view B p d' = (kv_view B p d)(k \<mapsto> v)"
proof -
  let ?x = "zero_item\<lparr>key := k, version := dsVersion (txn_at d p) + 1, val := v\<rparr>"
  have x: "clean_key (key ?x)" "version ?x = dsVersion (txn_at d p) + 1" "\<not> isGet ?x" "live ?x = Some v"
    using k clean_key_ne [OF k] by (simp_all add: zero_item_def live_def absent_def)
  note W = kv_write [OF ok x(1-3)]
  have "upd_txn p (\<lambda>t. t\<lparr>ops := bt_Set B (ops t) ?x\<rparr>) d =
      upd_txn p (\<lambda>t. t\<lparr>ops := bt_Set B (ops t) (zero_item\<lparr>key := k, version := getTxnVersion t, val := v\<rparr>)\<rparr>) d"
    by (simp add: upd_txn_def txn_at_def getTxnVersion_def getDSVersion_def)
  with W x(4) txn_ok_flags [OF ok] show ?thesis by (simp add: Txn_Put_def)
qed

lemma Txn_Delete_spec:
  assumes ok: "txn_ok B Q p d" and k: "clean_key k"
  shows "\<exists>d'. Txn_Delete B p k d = (Inr (), d') \<and> txn_ok B Q p d' \<and> kv_view B p d' = (kv_view B p d)(k := None)"
proof -
  obtain r d' where g: "txn_get B p k d = (r, d')" "kv_view B p d k = live r"
    and ok': "txn_ok B Q p d'" and view: "kv_view B p d' = kv_view B p d"
    using txn_ok_get [OF assms] by metis
  let ?x = "zero_item\<lparr>key := k, version := dsVersion (txn_at d' p) + 1, isDeleted := True\<rparr>"
  have x: "clean_key (key ?x)" "version ?x = dsVersion (txn_at d' p) + 1" "\<not> isGet ?x" "live ?x = None"
    using k by (simp_all add: zero_item_def live_def absent_def)
  note W = kv_write [OF ok' x(1-3)]
  have "upd_txn p (\<lambda>t. t\<lparr>ops := bt_Set B (ops t) ?x\<rparr>) d' =
      upd_txn p (\<lambda>t. t\<lparr>ops := bt_Set B (ops t) (zero_item\<lparr>key := k, version := getTxnVersion t, isDeleted := True\<rparr>)\<rparr>) d'"
    by (simp add: upd_txn_def txn_at_def getTxnVersion_def getDSVersion_def)
  moreover have "absent r \<Longrightarrow> kv_view B p d' = (kv_view B p d)(k := None)"
    using g(2) view by (auto simp: live_def)
  ultimately show ?thesis
    using W x(4) view ok' g txn_ok_flags [OF ok] by (simp add: Txn_Delete_def)
qed


text \<open>What a query returns: an entry for every key the transaction sees below the prefix.\<close>

lemma query_items:
  assumes L: "btree_laws byKeys B" and inv: "mem_inv B d"
  shows "it \<in> set (fast_forward (bt_Iter B (ds_values d))) \<longleftrightarrow>
    key it \<noteq> [] \<and> it = ds_get B (ds_values d) (key it) (ds_version d)"
proof -
  let ?V = "bt_Iter B (ds_values d)"
  have srt: "sorted_wrt byKeys ?V" using L by (simp add: btree_laws_def)
  have vi: "values_inv B d" using inv by (simp add: mem_inv_def)
  have vers: "vers B (ds_values d) (key it) (ds_version d) = {y \<in> set ?V. key y = key it}"
    using vi by (auto simp: vers_def values_inv_def)
  show ?thesis
  proof
    assume "it \<in> set (fast_forward ?V)"
    then have it: "it \<in> set ?V" "\<forall>y \<in> set ?V. key y = key it \<longrightarrow> version y \<le> version it"
      using fast_forward_mem [OF srt] by auto
    have "ds_get B (ds_values d) (key it) (ds_version d) = it"
      by (rule ds_get_found [OF L]) (use it vers in auto)
    moreover have "key it \<noteq> []" using it(1) vi clean_key_ne by (auto simp: values_inv_def)
    ultimately show "key it \<noteq> [] \<and> it = ds_get B (ds_values d) (key it) (ds_version d)" by simp
  next
    assume *: "key it \<noteq> [] \<and> it = ds_get B (ds_values d) (key it) (ds_version d)"
    from L show "it \<in> set (fast_forward ?V)"
    proof (cases rule: ds_get_cases [where t = "ds_values d" and k = "key it" and v = "ds_version d"])
      case missing
      with * have "it = zero_item" by simp
      with * show ?thesis by (simp add: zero_item_def)
    next
      case found
      with * vers have "it \<in> set ?V" "\<forall>y \<in> set ?V. key y = key it \<longrightarrow> version y \<le> version it" by auto
      then show ?thesis using fast_forward_mem [OF srt] by auto
    qed
  qed
qed

lemma ops_items:
  assumes L: "btree_laws byKeys B" and inv: "mem_inv B d" and p: "p < length (txns d)" and k: "k \<noteq> []"
  defines "t \<equiv> txn_at d p"
  shows "vers B (ops t) k (getTxnVersion t) = {y \<in> set (bt_Iter B (ops t)). key y = k}"
    and "(\<exists>y \<in> set (bt_Iter B (ops t)). key y = k) \<longleftrightarrow> key (ds_get B (ops t) k (getTxnVersion t)) \<noteq> []"
proof -
  show v: "vers B (ops t) k (getTxnVersion t) = {y \<in> set (bt_Iter B (ops t)). key y = k}"
    using op_version(1) [OF L inv p] by (auto simp: vers_def t_def getTxnVersion_def getDSVersion_def)
  from L show "(\<exists>y \<in> set (bt_Iter B (ops t)). key y = k) \<longleftrightarrow> key (ds_get B (ops t) k (getTxnVersion t)) \<noteq> []"
    by (cases rule: ds_get_cases [where t = "ops t" and k = k and v = "getTxnVersion t"])
      (use v k in \<open>auto simp: zero_item_def\<close>)
qed

lemma query_item_clean:
  assumes "btree_laws byKeys B" and "mem_inv B d" and "it \<in> set (fast_forward (bt_Iter B (ds_values d)))"
  shows "clean_key (key it)"
proof -
  have "sorted_wrt byKeys (bt_Iter B (ds_values d))" using assms(1) by (simp add: btree_laws_def)
  with assms(2,3) show ?thesis by (auto simp: fast_forward_mem mem_inv_def values_inv_def)
qed

lemma ds_get_present:
  assumes L: "btree_laws byKeys B" and "key (ds_get B t k v) \<noteq> []"
  shows "ds_get B t k v \<in> vers B t k v" and "\<forall>y \<in> vers B t k v. version y \<le> version (ds_get B t k v)"
  using ds_get_missing [OF L, of t k v] assms(2)
  by (rule_tac ds_get_cases [OF L, of t k v]; simp add: zero_item_def)+

text \<open>The item a query reads for a key: the transaction's own, or else the latest one.\<close>

definition query_item :: "(dsItem, 't) btree_ops \<Rightarrow> ('t, 'u) Datastore \<Rightarrow> 't basicTxn \<Rightarrow> string \<Rightarrow> dsItem" where
  "query_item B d t k =
     (if key (ds_get B (ops t) k (getTxnVersion t)) = [] then ds_get B (ds_values d) k (ds_version d)
      else ds_get B (ops t) k (getTxnVersion t))"

lemma recorded_stored:
  assumes L: "btree_laws byKeys B" and "op_inv B d t y" and "isGet y" and "key y = k" and "k \<noteq> []"
  shows "\<exists>x \<in> set (bt_Iter B (ds_values d)). key x = k"
proof -
  let ?g = "ds_get B (ds_values d) k (dsVersion t)"
  have "y = ?g\<lparr>isGet := True\<rparr> \<or> (\<exists>x \<in> set (bt_Iter B (ds_values d)). key x = k)"
    using assms(2-5) by (auto simp: op_inv_def zero_item_def)
  moreover have "?g \<in> set (bt_Iter B (ds_values d))" "key ?g = k" if "y = ?g\<lparr>isGet := True\<rparr>"
  proof -
    show "key ?g = k" using that assms(4) by (metis txn_item_simp(2))
    then have "key ?g \<noteq> []" using assms(5) by simp
    then show "?g \<in> set (bt_Iter B (ds_values d))" using ds_get_present(1) [OF L] by (auto simp: vers_def)
  qed
  ultimately show ?thesis by blast
qed

lemma merged_iff:
  assumes L: "btree_laws byKeys B" and inv: "mem_inv B d" and p: "p < length (txns d)" and k: "clean_key k" "key it = k"
  defines "t \<equiv> txn_at d p"
  shows "merged (fast_forward (bt_Iter B (ds_values d))) (bt_Iter B (ops t)) it \<longleftrightarrow>
    it = query_item B d t k \<and> \<not> isDeleted it"
proof -
  have kne: "k \<noteq> []" using k(1) by (rule clean_key_ne)
  define I where "I = fast_forward (bt_Iter B (ds_values d))"
  define R where "R = bt_Iter B (ops t)"
  define g where "g = ds_get B (ds_values d) k (ds_version d)"
  define m where "m = ds_get B (ops t) k (getTxnVersion t)"
  have I: "i \<in> set I \<longleftrightarrow> i = g" if "key i = k" for i
    using query_items [OF L inv, of i] that kne by (auto simp: I_def g_def)
  have gk: "key g = k \<or> g = zero_item" unfolding g_def using L by (rule ds_get_key)
  have vm: "vers B (ops t) k (getTxnVersion t) = {y \<in> set R. key y = k}"
    and ne: "(\<exists>y \<in> set R. key y = k) \<longleftrightarrow> key m \<noteq> []"
    using ops_items [OF L inv p kne] by (simp_all add: R_def m_def t_def)
  have item: "query_item B d t k = (if key m = [] then g else m)"
    by (simp add: query_item_def m_def g_def)
  show ?thesis
  proof (cases "key m = []")
    case True
    with ne have none: "\<not> (\<exists>x \<in> set R. key x = key it)" using k(2) by blast
    then have "it \<notin> set R" by blast
    with none I k(2) gk show ?thesis
      unfolding item merged_def I_def [symmetric] R_def [symmetric] using True by auto
  next
    case False
    have m: "m \<in> set R" "key m = k" "\<forall>y \<in> set R. key y = k \<longrightarrow> version y \<le> version m"
      using ds_get_present [OF L, of "ops t" k "getTxnVersion t"] False unfolding vm m_def by auto
    have item': "query_item B d t k = m" using False by (simp add: item)
    have here: "\<exists>x \<in> set R. key x = key it" using m(1,2) k(2) by (intro bexI [of _ m]) simp_all
    have uniq: "y = m" if "y \<in> set R" "key y = k" "version y = version m" for y
      using that m(1,2) bt_sorted_unique [OF L, of y "ops t" m] by (simp add: R_def)
    show ?thesis
    proof (cases "key g = k")
      case True
      then have "g \<in> set I" using I by simp
      with True k(2) have inI: "\<exists>i \<in> set I. key i = key it" by (intro bexI [of _ g]) simp_all
      have "it = m" if "it \<in> set R" "\<forall>x \<in> set R. key x = key it \<longrightarrow> version x \<le> version it"
      proof (rule uniq [OF that(1) k(2)])
        show "version it = version m" using m that k(2) by (intro order.antisym) simp_all
      qed
      then show ?thesis
        unfolding item' merged_def I_def [symmetric] R_def [symmetric]
        using inI here m k(2) by (simp only: if_True) blast
    next
      case gne: False
      have noI: "\<not> (\<exists>i \<in> set I. key i = key it)" using I gne k(2) by auto
      have nget: "\<not> isGet y" if "y \<in> set R" "key y = k" for y
      proof
        assume "isGet y"
        moreover have "op_inv B d t y"
          using txn_inv_at [OF inv p] that(1) by (simp add: txn_inv_def R_def t_def)
        ultimately have "\<exists>x \<in> set (bt_Iter B (ds_values d)). key x = k"
          using that(2) kne recorded_stored [OF L] by blast
        then have "\<exists>i \<in> set I. key i = k" using fast_forward_keys by (metis I_def image_iff)
        with noI k(2) show False by blast
      qed
      then have "version y = dsVersion t + 1" if "y \<in> set R" "key y = k" for y
        using that op_version(2) [OF L inv p] by (simp add: R_def t_def)
      then have "it = m" if "it \<in> set R" using uniq [OF that k(2)] that m(1,2) k(2) by simp
      then show ?thesis
        unfolding item' merged_def I_def [symmetric] R_def [symmetric]
        using noI m(1) nget [OF m(1,2)] by (simp only: if_False) blast
    qed
  qed
qed

definition query_view :: "(dsItem, 't) btree_ops \<Rightarrow> nat \<Rightarrow> ('t, 'u) Datastore \<Rightarrow> string \<Rightarrow> bytes option" where
  "query_view B p d k = (if clean_key k then live (query_item B d (txn_at d p) k) else None)"

lemma query_view_ok: "txn_ok B Q p d \<Longrightarrow> query_view B p d = kv_view B p d"
  by (simp add: fun_eq_iff query_view_def query_item_def kv_view_def txn_view_def txn_item_def
      getDSVersion_def txn_ok_def)

lemma merged_view:
  assumes L: "btree_laws byKeys B" and inv: "mem_inv B d" and p: "p < length (txns d)"
  shows "(\<exists>it. merged (fast_forward (bt_Iter B (ds_values d))) (bt_Iter B (ops (txn_at d p))) it \<and>
      key it = k \<and> val it = v) \<longleftrightarrow> query_view B p d k = Some v"
proof (cases "clean_key k")
  case True
  let ?i = "query_item B d (txn_at d p) k"
  have key: "key ?i = k \<or> key ?i = []"
    using ds_get_key [OF L, of "ops (txn_at d p)" k "getTxnVersion (txn_at d p)"]
      ds_get_key [OF L, of "ds_values d" k "ds_version d"]
    by (auto simp: query_item_def zero_item_def)
  have "query_view B p d k = live ?i" using True by (simp add: query_view_def)
  then have "query_view B p d k = Some v \<longleftrightarrow> key ?i = k \<and> \<not> isDeleted ?i \<and> val ?i = v"
    using key clean_key_ne [OF True] by (auto simp: live_def absent_def)
  with merged_iff [OF L inv p True] show ?thesis by metis
next
  case False
  have "clean_key (key it)"
    if it: "merged (fast_forward (bt_Iter B (ds_values d))) (bt_Iter B (ops (txn_at d p))) it" for it
  proof (cases "\<exists>i \<in> set (fast_forward (bt_Iter B (ds_values d))). key i = key it")
    case True
    then show ?thesis using query_item_clean [OF L inv] by metis
  next
    case none: False
    with it have "it \<in> set (bt_Iter B (ops (txn_at d p)))" "\<not> isGet it" by (auto simp: merged_def)
    then show ?thesis using txn_inv_at [OF inv p] by (auto simp: txn_inv_def op_inv_def)
  qed
  with False show ?thesis by (auto simp: query_view_def)
qed

lemma Txn_Query_entries:
  assumes L: "btree_laws byKeys B" and Q: "query_laws Q" and inv: "mem_inv B d" and p: "p < length (txns d)"
    and open': "\<not> ds_closed d" "\<not> discarded (txn_at d p)" and k: "clean_key k"
  shows "\<exists>es. Txn_Query B Q p \<lparr>q_Prefix = k, q_KeysOnly = False\<rparr> d = (Inr es, d) \<and> distinct (map e_Key es) \<and>
    (\<forall>k' v. (k', v) \<in> set (map (\<lambda>e. (e_Key e, e_Value e)) es) \<longleftrightarrow> query_view B p d k' = Some v \<and> below k k')"
proof -
  let ?q = "\<lparr>q_Prefix = k, q_KeysOnly = False\<rparr>"
  let ?I = "fast_forward (bt_Iter B (ds_values d))"
  let ?R = "bt_Iter B (ops (txn_at d p))"
  let ?es = "merge_query ?q ?I ?R"
  have srt: "sorted_wrt byKeys ?R" "sorted_wrt (\<lambda>a b. key a < key b) ?I"
    using L by (simp_all add: btree_laws_def fast_forward_sorted)
  have "emits_once ?R"
    using op_version(2) [OF L inv p] bt_sorted_unique [OF L] by (auto simp: emits_once_def emits_def)
  then have dist: "distinct (map e_Key ?es)"
    using merge_query_sorted [OF srt(2,1)] strict_sorted_iff by blast
  have entries: "(k', v) \<in> (\<lambda>e. (e_Key e, e_Value e)) ` set ?es \<longleftrightarrow> query_view B p d k' = Some v" for k' v
  proof -
    have "set ?es = (\<lambda>it. setEntry (key it) (val it) ?q) ` {it. merged ?I ?R it}"
      using merge_query_mem [OF srt(2,1)] by blast
    then have "(\<lambda>e. (e_Key e, e_Value e)) ` set ?es = (\<lambda>it. (key it, val it)) ` {it. merged ?I ?R it}"
      by (simp add: image_image setEntry_def)
    then have "(k', v) \<in> (\<lambda>e. (e_Key e, e_Value e)) ` set ?es \<longleftrightarrow>
        (\<exists>it. merged ?I ?R it \<and> key it = k' \<and> val it = v)"
      by (simp only: image_iff mem_Collect_eq Bex_def prod.inject) metis
    then show ?thesis by (simp only: merged_view [OF L inv p])
  qed
  have filt: "(k', v) \<in> set (map (\<lambda>e. (e_Key e, e_Value e)) (filter (\<lambda>e. below k (e_Key e)) es)) \<longleftrightarrow>
      (k', v) \<in> (\<lambda>e. (e_Key e, e_Value e)) ` set es \<and> below k k'" for k' v es
    by auto
  have "Txn_Query B Q p ?q d = (Inr (filter (\<lambda>e. below k (e_Key e)) ?es), d)"
    using open' Q k by (simp add: Txn_Query_def query_laws_def)
  moreover note distinct_map_filter [OF dist, of "\<lambda>e. below k (e_Key e)"]
  ultimately show ?thesis by (intro exI conjI allI) (assumption | simp only: filt entries)+
qed

lemma Txn_Query_spec:
  assumes ok: "txn_ok B Q p d" and k: "clean_key k"
  shows "\<exists>es d'. Txn_Query B Q p \<lparr>q_Prefix = k, q_KeysOnly = False\<rparr> d = (Inr es, d') \<and>
    txn_ok B Q p d' \<and> kv_view B p d' = kv_view B p d \<and> distinct (map e_Key es) \<and>
    (\<forall>k' v. (k', v) \<in> set (map (\<lambda>e. (e_Key e, e_Value e)) es) \<longleftrightarrow> kv_view B p d k' = Some v \<and> below k k')"
proof -
  note F = txn_ok_flags [OF ok]
  from Txn_Query_entries [OF F(5,8,6,7,1,3) k] ok show ?thesis
    by (simp only: query_view_ok [OF ok]) blast
qed

text \<open>
  Every client of the store contract can run on a transaction of the memory datastore.
\<close>

interpretation mem_txn: kv_store "txn_dsrw B Q p" "kv_view B p" "txn_ok B Q p"
  for B :: "(dsItem, 't) btree_ops" and Q :: "Query \<Rightarrow> Entry list \<Rightarrow> Entry list" and p :: nat
  by unfold_locales
    (simp_all only: txn_dsrw_def DSReaderWriter.simps Txn_Get_spec Txn_Has_spec Txn_GetSize_spec Txn_Put_spec
      Txn_Delete_spec Txn_Query_spec, simp add: kv_view_def split: if_splits)

section \<open>Installing the items of a commit\<close>

definition set_all :: "(dsItem, 't) btree_ops \<Rightarrow> 't \<Rightarrow> dsItem list \<Rightarrow> 't" where
  "set_all B vs its = foldl (bt_Set B) vs its"

lemma set_all_mem:
  assumes "btree_laws byKeys B" and "x \<in> set (bt_Iter B (set_all B vs its))"
  shows "x \<in> set (bt_Iter B vs) \<or> x \<in> set its"
  using assms(2) unfolding set_all_def
  by (induction its rule: rev_induct) (auto simp: Iter_Set [OF assms(1)])

lemma set_all_old:
  assumes L: "btree_laws byKeys B" and "y \<in> set (bt_Iter B vs)" and "\<forall>it \<in> set its. version y < version it"
  shows "y \<in> set (bt_Iter B (set_all B vs its))"
  using assms(2,3) unfolding set_all_def
  by (induction its rule: rev_induct) (auto simp: Iter_Set [OF L])

lemma ds_get_set_all:
  assumes L: "btree_laws byKeys B" and its: "\<forall>it \<in> set its. version it = v"
    and old: "\<forall>y \<in> set (bt_Iter B vs). version y \<le> v"
  shows "ds_get B (set_all B vs its) k v' =
    (case find (\<lambda>it. key it = k) (rev its) of
       Some it \<Rightarrow> if v \<le> v' then it else ds_get B vs k v'
     | None \<Rightarrow> ds_get B vs k v')"
  using its
proof (induction its rule: rev_induct)
  case Nil
  then show ?case by (simp add: set_all_def)
next
  case (snoc x xs)
  have step: "set_all B vs (xs @ [x]) = bt_Set B (set_all B vs xs) x" by (simp add: set_all_def)
  have le: "version y \<le> v" if "y \<in> set (bt_Iter B (set_all B vs xs))" for y
    using set_all_mem [OF L that] old snoc.prems by auto
  show ?case
  proof (cases "key x = k \<and> v \<le> v'")
    case True
    have "ds_get B (bt_Set B (set_all B vs xs) x) k v' = x"
      using True snoc.prems le by (intro ds_get_Set_same [OF L]) (auto simp: vers_def)
    with True step show ?thesis by simp
  next
    case False
    then have "ds_get B (bt_Set B (set_all B vs xs) x) k v' = ds_get B (set_all B vs xs) k v'"
      using snoc.prems by (intro ds_get_Set_other [OF L]) auto
    with False snoc step show ?thesis by (auto split: option.splits)
  qed
qed

text \<open>The items a transaction and a batch write.\<close>

definition txn_writes :: "(dsItem, 't) btree_ops \<Rightarrow> 't basicTxn \<Rightarrow> u64 \<Rightarrow> dsItem list" where
  "txn_writes B t v = map (\<lambda>it. it\<lparr>version := v\<rparr>) (filter (\<lambda>it. \<not> isGet it) (bt_Iter B (ops t)))"

definition batch_item :: "u64 \<Rightarrow> string \<Rightarrow> op \<Rightarrow> dsItem" where
  "batch_item v k op =
     (if op_delete op then zero_item\<lparr>key := k, version := v, isDeleted := True\<rparr>
      else zero_item\<lparr>key := k, version := v, val := op_value op\<rparr>)"

definition batch_writes :: "basicBatch \<Rightarrow> string list \<Rightarrow> u64 \<Rightarrow> dsItem list" where
  "batch_writes b order v = map (\<lambda>k. batch_item v k (the (b k))) (filter (\<lambda>k. b k \<noteq> None) order)"

lemma foldl_filter_map:
  "foldl (\<lambda>s x. if P x then s else f s (g x)) s xs = foldl f s (map g (filter (\<lambda>x. \<not> P x) xs))"
  by (induction xs arbitrary: s) auto

lemma ds_commit_eq:
  "ds_commit B NewKey t d =
     (case checkForConflicts B NewKey t d of
        Inl e \<Rightarrow> (Inl e, d)
      | Inr _ \<Rightarrow> (Inr (), d\<lparr>ds_version := ds_version d + 1,
          ds_values := set_all B (ds_values d) (txn_writes B t (ds_version d + 1))\<rparr>))"
  by (simp add: ds_commit_def nextVersion_def Let_def set_all_def txn_writes_def foldl_filter_map split: sum.splits)

lemma Batch_Commit_eq:
  "Batch_Commit B order b d =
     d\<lparr>ds_version := ds_version d + 1,
       ds_values := set_all B (ds_values d) (batch_writes b order (ds_version d + 1))\<rparr>"
proof -
  have "foldl (\<lambda>vs k. case b k of None \<Rightarrow> vs | Some op \<Rightarrow>
      if op_delete op then bt_Set B vs (zero_item\<lparr>key := k, version := v, isDeleted := True\<rparr>)
      else bt_Set B vs (zero_item\<lparr>key := k, version := v, val := op_value op\<rparr>)) vs order =
    set_all B vs (batch_writes b order v)" for v vs
    unfolding set_all_def batch_writes_def
    by (induction order arbitrary: vs) (auto simp: batch_item_def split: option.splits)
  then show ?thesis by (simp add: Batch_Commit_def nextVersion_def Let_def)
qed

lemma find_rev_Some: "find P (rev xs) = Some x \<Longrightarrow> x \<in> set xs \<and> P x"
  by (metis find_Some_iff length_rev nth_mem set_rev)

lemma find_rev_unique:
  assumes "\<forall>x \<in> set xs. \<forall>y \<in> set xs. P x \<longrightarrow> P y \<longrightarrow> x = y" and "x \<in> set xs" and "P x"
  shows "find P (rev xs) = Some x"
proof -
  have "find P (rev xs) \<noteq> None" using assms(2,3) by (auto simp: find_None_iff)
  then obtain y where "find P (rev xs) = Some y" by blast
  with find_rev_Some [OF this] assms show ?thesis by metis
qed

definition install :: "(dsItem, 't) btree_ops \<Rightarrow> (u64 \<Rightarrow> dsItem list) \<Rightarrow> ('t, 'u) Datastore \<Rightarrow> ('t, 'u) Datastore" where
  "install B its d = d\<lparr>ds_version := ds_version d + 1,
     ds_values := set_all B (ds_values d) (its (ds_version d + 1))\<rparr>"

definition installable :: "(u64 \<Rightarrow> dsItem list) \<Rightarrow> bool" where
  "installable its \<longleftrightarrow> (\<forall>v. \<forall>it \<in> set (its v). clean_key (key it) \<and> version it = v \<and> \<not> isGet it)"

text \<open>
  Versions are 64-bit: \<open>room\<close> says that the counter is far enough from wrapping for one more commit.
\<close>

definition room :: "('t, 'u) Datastore \<Rightarrow> bool" where
  "room d \<longleftrightarrow> ds_version d < - 2"

lemma room_version:
  assumes "room d"
  shows "ds_version d < ds_version d + 1" and "ds_version d + 1 < - 1"
proof -
  have "ds_version d < - 1" using assms unfolding room_def by (rule less_trans) simp
  then show "ds_version d < ds_version d + 1" by (rule inc_version)
  have "unat (ds_version d) < unat (- 2 :: u64)" using assms by (simp only: room_def word_less_nat_alt)
  moreover have "unat (- 2 :: u64) = 2 ^ 64 - 2" by simp
  moreover have "unat (- 1 :: u64) = 2 ^ 64 - 1" by (simp add: unsigned_minus_1_eq_mask mask_eq_exp_minus_1)
  moreover have "unat (ds_version d + 1) = (unat (ds_version d) + 1) mod 2 ^ 64" by (simp add: unat_word_ariths)
  ultimately show "ds_version d + 1 < - 1" by (simp add: word_less_nat_alt)
qed

lemma install_get_old:
  assumes L: "btree_laws byKeys B" and inv: "mem_inv B d" and room: "room d" and its: "installable its"
    and v: "v \<le> ds_version d"
  shows "ds_get B (ds_values (install B its d)) k v = ds_get B (ds_values d) k v"
proof -
  have "\<forall>y \<in> set (bt_Iter B (ds_values d)). version y \<le> ds_version d + 1"
    using inv room_version(1) [OF room] by (fastforce simp: mem_inv_def values_inv_def)
  moreover have "\<not> ds_version d + 1 \<le> v" using v room_version(1) [OF room] by auto
  ultimately show ?thesis
    using ds_get_set_all [OF L, of "its (ds_version d + 1)" "ds_version d + 1" "ds_values d" k v] its
    by (auto simp: install_def installable_def split: option.splits)
qed


lemma install_simps [simp]:
  "txns (install B its d) = txns d" "inFlightTxn (install B its d) = inFlightTxn d"
  "ds_closed (install B its d) = ds_closed d" "ds_version (install B its d) = ds_version d + 1"
  "txn_at (install B its d) p = txn_at d p"
  by (simp_all add: install_def txn_at_def)

lemma install_txn_inv:
  assumes "btree_laws byKeys B" and "mem_inv B d" and "room d" and "installable its" and t: "txn_inv B d t"
  shows "txn_inv B (install B its d) t"
proof -
  have "dsVersion t \<le> ds_version d" using t by (simp add: txn_inv_def)
  moreover from this have "dsVersion t \<le> ds_version d + 1"
    using room_version(1) [OF assms(3)] by simp
  moreover have "y \<in> set (bt_Iter B (ds_values (install B its d)))" if "y \<in> set (bt_Iter B (ds_values d))" for y
  proof -
    have "version y < ds_version d + 1"
      using that assms(2) room_version(1) [OF assms(3)] by (auto simp: mem_inv_def values_inv_def intro: le_less_trans)
    then show ?thesis
      using that assms(4) by (auto simp: install_def installable_def intro: set_all_old [OF assms(1)])
  qed
  ultimately show ?thesis
    using t install_get_old [OF assms(1-4)] by (fastforce simp: txn_inv_def op_inv_def)
qed

lemma install_mem_inv:
  assumes L: "btree_laws byKeys B" and inv: "mem_inv B d" and room: "room d" and its: "installable its"
  shows "mem_inv B (install B its d)"
proof -
  note v = room_version [OF room]
  have "values_inv B (install B its d)"
    unfolding values_inv_def
  proof
    fix it assume "it \<in> set (bt_Iter B (ds_values (install B its d)))"
    then have "it \<in> set (bt_Iter B (ds_values d)) \<or> it \<in> set (its (ds_version d + 1))"
      using set_all_mem [OF L] by (auto simp: install_def)
    then show "clean_key (key it) \<and> version it \<le> ds_version (install B its d) \<and> \<not> isGet it"
      using its inv v(1) by (fastforce simp: installable_def mem_inv_def values_inv_def)
  qed
  moreover have "\<forall>t \<in> set (txns d). txn_inv B (install B its d) t"
    using install_txn_inv [OF assms] inv by (simp add: mem_inv_def)
  ultimately show ?thesis using v(2) by (simp add: mem_inv_def)
qed

lemma install_view:
  assumes "btree_laws byKeys B" and "mem_inv B d" and "room d" and "installable its" and "p < length (txns d)"
  shows "txn_view B p (install B its d) k = txn_view B p d k"
proof -
  have "getDSVersion (txn_at d p) \<le> ds_version d"
    using txn_inv_at [OF assms(2,5)] by (simp add: txn_inv_def getDSVersion_def)
  then show ?thesis
    using install_get_old [OF assms(1-4)] by (simp add: txn_view_def txn_item_def)
qed

lemma install_latest:
  assumes L: "btree_laws byKeys B" and inv: "mem_inv B d" and room: "room d" and its: "installable its"
  shows "snapshot B (install B its d) (ds_version d + 1) k =
    (case find (\<lambda>it. key it = k) (rev (its (ds_version d + 1))) of
       Some it \<Rightarrow> live it | None \<Rightarrow> snapshot B d (ds_version d) k)"
proof -
  let ?v = "ds_version d + 1"
  have le: "\<forall>y \<in> set (bt_Iter B (ds_values d)). version y \<le> ds_version d" "\<forall>y \<in> set (bt_Iter B (ds_values d)). version y \<le> ?v"
    using inv room_version(1) [OF room] by (fastforce simp: mem_inv_def values_inv_def)+
  then have "vers B (ds_values d) k ?v = vers B (ds_values d) k (ds_version d)" by (auto simp: vers_def)
  then have "ds_get B (ds_values d) k ?v = ds_get B (ds_values d) k (ds_version d)" by (rule ds_get_cong [OF L])
  then show ?thesis
    using ds_get_set_all [OF L _ le(2), of "its ?v" k ?v] its
    by (auto simp: install_def snapshot_def installable_def split: option.splits)
qed

lemma installable_txn:
  assumes "btree_laws byKeys B" and "mem_inv B d" and "p < length (txns d)"
  shows "installable (txn_writes B (txn_at d p))"
  using txn_inv_at [OF assms(2,3)] by (auto simp: installable_def txn_writes_def txn_inv_def op_inv_def)

lemma installable_batch:
  "\<forall>k \<in> dom b. clean_key k \<Longrightarrow> installable (batch_writes b order)"
  by (auto simp: installable_def batch_writes_def batch_item_def zero_item_def)

end
