(* ===== verification/MemVersions.thy ===== *)
theory MemVersions
  imports MemTxn
begin

text \<open>
  The purge of the in-memory datastore removes versions of a key that a newer one supersedes: its
  loop ends, what a lookup from the purge's version on finds stays the same, and the invariant of
  the datastore and its transactions is kept.
\<close>

section \<open>Deleting from a tree\<close>

lemma sorted_separates:
  assumes "sorted_wrt lt xs" and "x \<in> set xs" and "y \<in> set xs" and "x \<noteq> y"
  shows "lt x y \<or> lt y x"
  using assms by (induction xs) auto

lemma Iter_delete_list:
  assumes "btree_laws lt B" and "set xs \<subseteq> set (bt_Iter B t)" and irrefl: "\<And>x. \<not> lt x x"
  shows "set (bt_Iter B (foldl (bt_Delete B) t xs)) = set (bt_Iter B t) - set xs"
  using assms(2)
proof (induction xs rule: rev_induct)
  case (snoc x xs)
  let ?t = "foldl (bt_Delete B) t xs"
  have "set (bt_Iter B (bt_Delete B ?t x)) = {y \<in> set (bt_Iter B ?t). lt x y \<or> lt y x}"
    using assms(1) unfolding btree_laws_def by blast
  moreover have "sorted_wrt lt (bt_Iter B t)" using assms(1) unfolding btree_laws_def by blast
  ultimately show ?case
    using snoc irrefl sorted_separates [of lt "bt_Iter B t" x] by auto
qed simp

lemma byDSVersion_irrefl: "\<not> byDSVersion x x"
  by (simp add: byDSVersion_def)

lemma byKeys_irrefl: "\<not> byKeys x x"
  by (simp add: byKeys_def)

section \<open>Old versions\<close>

lemma purge_scan_superseded:
  assumes "sorted_wrt byKeys (item # rest)" and "x \<in> set (purge_scan v item tot rest)"
  shows "x \<in> set (item # rest) \<and> (\<exists>y \<in> set rest. key y = key x \<and> version x < version y \<and> version y \<le> v)"
  using assms
proof (induction v item tot rest rule: purge_scan.induct)
  case (2 v item tot cur rest)
  have srt: "sorted_wrt byKeys (item # rest)" "sorted_wrt byKeys (cur # rest)" using "2.prems"(1) by auto
  have here: "key item = key cur \<Longrightarrow> \<not> version cur > v \<Longrightarrow> x = item \<Longrightarrow>
      \<exists>y \<in> set (cur # rest). key y = key x \<and> version x < version y \<and> version y \<le> v"
    using "2.prems"(1) by (auto simp: byKeys_iff)
  show ?case
    using "2.IH" "2.prems"(2) srt here by (auto split: if_splits)
qed simp

lemma purge_scan_done:
  assumes "sorted_wrt byKeys (item # rest)" and "purge_scan v item tot rest = []" and "tot = 0"
  shows "\<forall>x \<in> set (item # rest). \<forall>y \<in> set (item # rest). key x = key y \<longrightarrow> version x < version y \<longrightarrow> v < version y"
  using assms
proof (induction v item tot rest rule: purge_scan.induct)
  case (2 v item tot cur rest)
  have srt: "sorted_wrt byKeys (item # rest)" "sorted_wrt byKeys (cur # rest)" using "2.prems"(1) by auto
  have after: "\<forall>z \<in> set (cur # rest). byKeys item z" and after': "\<forall>z \<in> set rest. byKeys cur z"
    using "2.prems"(1) by auto
  show ?case
  proof (cases "version cur > v")
    case True
    with "2.prems" srt have IH: "\<forall>x \<in> set (item # rest). \<forall>y \<in> set (item # rest).
        key x = key y \<longrightarrow> version x < version y \<longrightarrow> v < version y"
      by (intro "2.IH"(1)) simp_all
    have "v < version y"
      if "x \<in> set (item # cur # rest)" "y \<in> set (item # cur # rest)" "key x = key y" "version x < version y" for x y
    proof (cases "x = cur \<or> y = cur")
      case True
      with that \<open>version cur > v\<close> show ?thesis by auto
    next
      case False
      with that IH show ?thesis by auto
    qed
    then show ?thesis by blast
  next
    case False
    with "2.prems" have ne: "key item \<noteq> key cur" by (auto split: if_splits)
    with False "2.prems" srt have IH: "\<forall>x \<in> set (cur # rest). \<forall>y \<in> set (cur # rest).
        key x = key y \<longrightarrow> version x < version y \<longrightarrow> v < version y"
      by (intro "2.IH"(3)) (simp_all split: if_splits)
    have "key item < key z" if "z \<in> set (cur # rest)" for z
      using after after' ne that by (auto simp: byKeys_iff)
    then have "x \<noteq> item \<and> y \<noteq> item"
      if "x \<in> set (item # cur # rest)" "y \<in> set (item # cur # rest)" "key x = key y" "version x < version y" for x y
      using that by (metis less_irrefl set_ConsD)
    with IH show ?thesis by (metis set_ConsD)
  qed
qed simp

text \<open>One round of the purge: what it deletes is superseded, so it changes no snapshot from \<open>v\<close> on.\<close>

lemma purge_items_superseded:
  assumes "btree_laws byKeys B" and "x \<in> set (purge_items v (bt_Iter B t))"
  shows "x \<in> set (bt_Iter B t)" and "\<exists>y \<in> set (bt_Iter B t). key y = key x \<and> version x < version y \<and> version y \<le> v"
proof -
  have "sorted_wrt byKeys (bt_Iter B t)" using assms(1) by (simp add: btree_laws_def)
  moreover obtain item rest where "bt_Iter B t = item # rest" "x \<in> set (purge_scan v item 0 rest)"
    using assms(2) by (cases "bt_Iter B t") (auto simp: purge_items_def)
  ultimately show "x \<in> set (bt_Iter B t)" "\<exists>y \<in> set (bt_Iter B t). key y = key x \<and> version x < version y \<and> version y \<le> v"
    using purge_scan_superseded [of item rest x v 0] by auto
qed

lemma purge_round:
  fixes t :: 't
  assumes L: "btree_laws byKeys (B :: (dsItem, 't) btree_ops)" and "v \<le> v'"
  defines "t' \<equiv> foldl (bt_Delete B) t (purge_items v (bt_Iter B t))"
  shows "set (bt_Iter B t') = set (bt_Iter B t) - set (purge_items v (bt_Iter B t))"
    and "ds_get B t' k v' = ds_get B t k v'"
proof -
  let ?D = "set (purge_items v (bt_Iter B t))"
  show it: "set (bt_Iter B t') = set (bt_Iter B t) - ?D"
    unfolding t'_def using purge_items_superseded(1) [OF L] byKeys_irrefl by (intro Iter_delete_list [OF L]) auto
  have vs: "vers B t' k v' = vers B t k v' - ?D" using it by (auto simp: vers_def)
  show "ds_get B t' k v' = ds_get B t k v'"
    using L
  proof (cases rule: ds_get_cases [where t = t and k = k and v = v'])
    case missing
    then show ?thesis using ds_get_missing [OF L, of t'] vs by simp
  next
    case found
    have "ds_get B t k v' \<notin> ?D"
    proof
      assume "ds_get B t k v' \<in> ?D"
      from purge_items_superseded(2) [OF L this] found assms(2) show False
        by (fastforce simp: vers_def)
    qed
    with found vs show ?thesis by (intro ds_get_found [OF L]) auto
  qed
qed

lemma purge_items_none:
  assumes L: "btree_laws byKeys B" and "purge_items v (bt_Iter B t) = []"
    and "x \<in> set (bt_Iter B t)" and "y \<in> set (bt_Iter B t)" and "key x = key y" and "version x < version y"
  shows "v < version y"
proof -
  have "sorted_wrt byKeys (bt_Iter B t)" using L by (simp add: btree_laws_def)
  then show ?thesis
    using assms(2-) purge_scan_done [of "hd (bt_Iter B t)" "tl (bt_Iter B t)" v 0]
    by (cases "bt_Iter B t") (auto simp: purge_items_def)
qed

text \<open>
  The loop with enough fuel: a round that deletes something makes the tree smaller, so it ends, and
  then no two versions up to \<open>v\<close> of one key are left.
\<close>

lemma purge_loop_ends:
  fixes B :: "(dsItem, 't) btree_ops"
  assumes L: "btree_laws byKeys B" and "card (set (bt_Iter B t)) < n"
  shows "\<exists>t'. purge_loop B v n t = Some t' \<and> set (bt_Iter B t') \<subseteq> set (bt_Iter B t) \<and>
    (\<forall>k. \<forall>v' \<ge> v. ds_get B t' k v' = ds_get B t k v') \<and>
    (\<forall>x \<in> set (bt_Iter B t'). \<forall>y \<in> set (bt_Iter B t'). key x = key y \<longrightarrow> version x < version y \<longrightarrow> v < version y)"
  using assms(2)
proof (induction n arbitrary: t)
  case (Suc n)
  let ?D = "purge_items v (bt_Iter B t)"
  let ?t = "foldl (bt_Delete B) t ?D"
  show ?case
  proof (cases "?D = []")
    case True
    with purge_items_none [OF L True] show ?thesis by simp
  next
    case False
    have set: "set (bt_Iter B ?t) = set (bt_Iter B t) - set ?D" by (rule purge_round(1) [OF L order_refl])
    obtain x where "x \<in> set ?D" using False by (cases ?D) auto
    then have "set (bt_Iter B ?t) \<subset> set (bt_Iter B t)" using set purge_items_superseded(1) [OF L] by blast
    then have "card (set (bt_Iter B ?t)) < n" using Suc.prems psubset_card_mono [OF finite_set] by (meson less_Suc_eq_le less_le_trans)
    from Suc.IH [OF this] obtain t' where t': "purge_loop B v n ?t = Some t'"
      "set (bt_Iter B t') \<subseteq> set (bt_Iter B ?t)" "\<forall>k. \<forall>v' \<ge> v. ds_get B t' k v' = ds_get B ?t k v'"
      "\<forall>x \<in> set (bt_Iter B t'). \<forall>y \<in> set (bt_Iter B t'). key x = key y \<longrightarrow> version x < version y \<longrightarrow> v < version y"
      by blast
    moreover have "set (bt_Iter B t') \<subseteq> set (bt_Iter B t)" using t'(2) set by blast
    moreover have "\<forall>k. \<forall>v' \<ge> v. ds_get B t' k v' = ds_get B t k v'" using t'(3) purge_round(2) [OF L] by simp
    ultimately show ?thesis using False by (simp add: Let_def)
  qed
qed simp

definition purge_version :: "(dsTxn, 'u) btree_ops \<Rightarrow> ('t, 'u) Datastore \<Rightarrow> u64" where
  "purge_version F d = (case bt_Iter F (inFlightTxn d) of [] \<Rightarrow> getVersion d | e # _ \<Rightarrow> fl_dsVersion e)"

text \<open>What a purge does to the state: only stored items go, and none that a lookup from the purge's
  version on finds.\<close>

lemma executePurge_ends:
  assumes L: "btree_laws byKeys B"
  shows "\<exists>vs. executePurge B F d = Some (d\<lparr>ds_values := vs\<rparr>) \<and> set (bt_Iter B vs) \<subseteq> set (bt_Iter B (ds_values d)) \<and>
    (\<forall>k. \<forall>v \<ge> purge_version F d. ds_get B vs k v = ds_get B (ds_values d) k v) \<and>
    (\<forall>x \<in> set (bt_Iter B vs). \<forall>y \<in> set (bt_Iter B vs).
       key x = key y \<longrightarrow> version x < version y \<longrightarrow> purge_version F d < version y)"
proof -
  have "card (set (bt_Iter B (ds_values d))) < Suc (length (bt_Iter B (ds_values d)))"
    by (simp add: card_length le_imp_less_Suc)
  from purge_loop_ends [OF L this, of "purge_version F d"] obtain vs where
    "purge_loop B (purge_version F d) (Suc (length (bt_Iter B (ds_values d)))) (ds_values d) = Some vs"
    and "set (bt_Iter B vs) \<subseteq> set (bt_Iter B (ds_values d)) \<and>
      (\<forall>k. \<forall>v \<ge> purge_version F d. ds_get B vs k v = ds_get B (ds_values d) k v) \<and>
      (\<forall>x \<in> set (bt_Iter B vs). \<forall>y \<in> set (bt_Iter B vs).
         key x = key y \<longrightarrow> version x < version y \<longrightarrow> purge_version F d < version y)"
    by blast
  then show ?thesis
    by (intro exI [of _ vs]) (simp only: executePurge_def purge_version_def [symmetric] Let_def option.map, blast)
qed

lemma purge_keeps_newest:
  assumes L: "btree_laws byKeys B" and same: "\<forall>v \<ge> pv. ds_get B vs k v = ds_get B t k v"
    and y: "y \<in> set (bt_Iter B t)" "key y = k" "k \<noteq> []"
  shows "\<exists>m \<in> set (bt_Iter B vs). key m = k \<and> version y \<le> version m"
proof -
  let ?v = "max pv (version y)"
  have yv: "y \<in> vers B t k ?v" using y by (simp add: vers_def)
  let ?m = "ds_get B t k ?v"
  from L have "?m \<in> vers B t k ?v \<and> version y \<le> version ?m"
    by (cases rule: ds_get_cases [where t = t and k = k and v = ?v]) (use yv in auto)
  moreover have m: "ds_get B vs k ?v = ?m" using same by simp
  ultimately have "key ?m = k" "version y \<le> version ?m" by (auto simp: vers_def)
  moreover have "?m \<in> set (bt_Iter B vs)"
    using ds_get_present(1) [OF L, of vs k ?v] m \<open>key ?m = k\<close> y(3) by (simp add: vers_def)
  ultimately show ?thesis by blast
qed

lemma purge_op_inv:
  assumes L: "btree_laws byKeys B" and sub: "set (bt_Iter B vs) \<subseteq> set (bt_Iter B (ds_values d))"
    and same: "\<forall>k. \<forall>v \<ge> pv. ds_get B vs k v = ds_get B (ds_values d) k v" and op: "op_inv B d t it"
  shows "op_inv B (d\<lparr>ds_values := vs\<rparr>) t it"
proof (cases "isGet it \<and> it \<noteq> zero_item\<lparr>isGet := True\<rparr>")
  case False
  with op show ?thesis by (auto simp: op_inv_def)
next
  case True
  let ?k = "key it" and ?v = "dsVersion t"
  let ?g = "ds_get B (ds_values d) ?k ?v"
  have k: "clean_key ?k" "version it \<le> ?v"
    and it: "it = ?g\<lparr>isGet := True\<rparr> \<or> (\<exists>y \<in> set (bt_Iter B (ds_values d)). key y = ?k \<and> ?v < version y)"
    using op True by (auto simp: op_inv_def)
  note keep = purge_keeps_newest [OF L, of pv vs ?k "ds_values d"]
  have "it = (ds_get B vs ?k ?v)\<lparr>isGet := True\<rparr> \<or> (\<exists>y \<in> set (bt_Iter B vs). key y = ?k \<and> ?v < version y)"
  proof (cases "\<exists>y \<in> set (bt_Iter B (ds_values d)). key y = ?k \<and> ?v < version y")
    case True
    then show ?thesis using keep same clean_key_ne [OF k(1)] by (meson less_le_trans)
  next
    case none: False
    with it have g: "it = ?g\<lparr>isGet := True\<rparr>" by simp
    then have gk: "key ?g = ?k" by (metis txn_item_simp(2))
    then have gin: "?g \<in> vers B (ds_values d) ?k ?v" and top: "\<forall>y \<in> vers B (ds_values d) ?k ?v. version y \<le> version ?g"
      using ds_get_present [OF L, of "ds_values d" ?k ?v] clean_key_ne [OF k(1)] by auto
    obtain m where m: "m \<in> set (bt_Iter B vs)" "key m = ?k" "version ?g \<le> version m"
      using keep [of ?g] same gin clean_key_ne [OF k(1)] by (auto simp: vers_def)
    then have "m \<in> vers B (ds_values d) ?k ?v" using sub none by (force simp: vers_def)
    with top m have "version m = version ?g" by (simp add: order.antisym)
    moreover have "m \<in> set (bt_Iter B (ds_values d))" "?g \<in> set (bt_Iter B (ds_values d))"
      using m sub gin by (auto simp: vers_def)
    ultimately have "m = ?g" using bt_sorted_unique [OF L, of m "ds_values d" ?g] m(2) gk by simp
    moreover have "vers B vs ?k ?v \<subseteq> vers B (ds_values d) ?k ?v" using sub by (auto simp: vers_def)
    ultimately have "ds_get B vs ?k ?v = ?g"
      using m(1) gin top by (intro ds_get_found [OF L]) (auto simp: vers_def)
    with g show ?thesis by simp
  qed
  with True k show ?thesis by (simp add: op_inv_def)
qed

lemma purge_mem_inv:
  assumes L: "btree_laws byKeys B" and inv: "mem_inv B d" and purge: "executePurge B F d = Some d'"
  shows "mem_inv B d'" and "txns d' = txns d"
    and "purge_version F d \<le> dsVersion (txn_at d q) \<Longrightarrow> txn_view B q d' k = txn_view B q d k"
proof -
  obtain vs where d': "d' = d\<lparr>ds_values := vs\<rparr>" and sub: "set (bt_Iter B vs) \<subseteq> set (bt_Iter B (ds_values d))"
    and same: "\<forall>k. \<forall>v \<ge> purge_version F d. ds_get B vs k v = ds_get B (ds_values d) k v"
    using executePurge_ends [OF L, of F d] purge by (auto simp only: option.inject)
  have "txn_inv B d' t" if "txn_inv B d t" for t
    using that purge_op_inv [OF L sub same] by (auto simp: txn_inv_def d')
  then show "mem_inv B d'" using inv sub by (auto simp: mem_inv_def values_inv_def d')
  show "txns d' = txns d" by (simp add: d')
  show "txn_view B q d' k = txn_view B q d k" if "purge_version F d \<le> dsVersion (txn_at d q)"
    using that same by (simp add: txn_view_def txn_item_def d' txn_at_def getDSVersion_def)
qed

end
