(* ===== verification/ListTree.thy ===== *)
theory ListTree
  imports MemStore
begin

text \<open>
  A sorted list with the operations of the B-tree package. It shows that \<open>btree_laws\<close> can hold and
  lets the witnesses of the datastore's properties compute.
\<close>

definition ins :: "('i \<Rightarrow> 'i \<Rightarrow> bool) \<Rightarrow> 'i list \<Rightarrow> 'i \<Rightarrow> 'i list" where
  "ins lt xs x = filter (\<lambda>y. lt y x) xs @ x # filter (\<lambda>y. lt x y) xs"

definition canon :: "('i \<Rightarrow> 'i \<Rightarrow> bool) \<Rightarrow> 'i list \<Rightarrow> 'i list" where
  "canon lt xs = foldl (ins lt) [] xs"

definition list_tree :: "('i \<Rightarrow> 'i \<Rightarrow> bool) \<Rightarrow> ('i, 'i list) btree_ops" where
  "list_tree lt =
     \<lparr>bt_New = [], bt_Set = (\<lambda>t x. t @ [x]),
      bt_Delete = (\<lambda>t x. filter (\<lambda>y. lt x y \<or> lt y x) (canon lt t)),
      bt_Clear = (\<lambda>t. []),
      bt_Descend = (\<lambda>t p. rev (filter (\<lambda>y. \<not> lt p y) (canon lt t))),
      bt_Iter = canon lt, bt_Height = length\<rparr>"

definition weak_order :: "('i \<Rightarrow> 'i \<Rightarrow> bool) \<Rightarrow> bool" where
  "weak_order lt \<longleftrightarrow> (\<forall>x. \<not> lt x x) \<and> (\<forall>x y z. lt x y \<longrightarrow> lt y z \<longrightarrow> lt x z)"

lemma ins_sorted: "weak_order lt \<Longrightarrow> sorted_wrt lt xs \<Longrightarrow> sorted_wrt lt (ins lt xs x)"
  by (auto simp: ins_def sorted_wrt_append sorted_wrt_filter weak_order_def)

lemma canon_sorted: "weak_order lt \<Longrightarrow> sorted_wrt lt (canon lt xs)"
  unfolding canon_def by (induction xs rule: rev_induct) (simp_all add: ins_sorted)

lemma canon_id: "weak_order lt \<Longrightarrow> sorted_wrt lt xs \<Longrightarrow> canon lt xs = xs"
proof (induction xs rule: rev_induct)
  case (snoc x xs)
  then have "\<forall>y \<in> set xs. lt y x \<and> \<not> lt x y" by (auto simp: sorted_wrt_append weak_order_def)
  with snoc show ?case
    by (auto simp: canon_def ins_def sorted_wrt_append filter_id_conv filter_empty_conv)
qed (simp add: canon_def)

lemma list_tree_laws:
  assumes "weak_order lt"
  shows "btree_laws lt (list_tree lt)"
proof -
  have "canon lt (filter P (canon lt t)) = filter P (canon lt t)" for P t
    using assms by (intro canon_id) (simp_all add: sorted_wrt_filter canon_sorted)
  moreover have "set (canon lt (t @ [x])) = insert x {y \<in> set (canon lt t). lt x y \<or> lt y x}" for t x
    by (auto simp: canon_def ins_def)
  ultimately show ?thesis
    using canon_sorted [OF assms] by (simp add: btree_laws_def list_tree_def canon_def)
qed

lemma byKeys_order: "weak_order byKeys" and byDSVersion_order: "weak_order byDSVersion"
  by (auto simp: weak_order_def byKeys_def byDSVersion_def split: if_splits)

abbreviation "items_tree \<equiv> list_tree byKeys"
abbreviation "txns_tree \<equiv> list_tree byDSVersion"

lemmas items_tree_laws = list_tree_laws [OF byKeys_order]
lemmas txns_tree_laws = list_tree_laws [OF byDSVersion_order]

text \<open>Likewise for the key cleaning and the query filter of the datastore package.\<close>

definition plain_NewKey :: "string \<Rightarrow> string" where
  "plain_NewKey s = (if s = [] then ''/'' else s)"

definition plain_query :: "Query \<Rightarrow> Entry list \<Rightarrow> Entry list" where
  "plain_query q es = (if q_Prefix q = [] then es else filter (\<lambda>e. below (q_Prefix q) (e_Key e)) es)"

lemma plain_laws: "newkey_laws plain_NewKey" "query_laws plain_query"
  using clean_key_ne by (auto simp: newkey_laws_def plain_NewKey_def query_laws_def plain_query_def)

end
