(* ===== verification/MemRun.thy ===== *)
theory MemRun
  imports MemVersions ListTree
begin

text \<open>
  Executions of the in-memory datastore: every operation keeps the invariant and what the other
  transactions see, the step relation of the operations, and what a commit does to the store.
\<close>

section \<open>Every operation keeps the invariant and the views of the other transactions\<close>

lemma registry_frame [simp]:
  "mem_inv B (d\<lparr>inFlightTxn := u\<rparr>) = mem_inv B d" "txn_view B p (d\<lparr>inFlightTxn := u\<rparr>) = txn_view B p d"
  "snapshot B (d\<lparr>inFlightTxn := u\<rparr>) = snapshot B d" "txn_at (d\<lparr>inFlightTxn := u\<rparr>) p = txn_at d p"
  "upd_txn p f (d\<lparr>inFlightTxn := u\<rparr>) = (upd_txn p f d)\<lparr>inFlightTxn := u\<rparr>"
  by (simp_all add: mem_inv_def values_inv_def txn_inv_def op_inv_def txn_view_def txn_item_def
      snapshot_def txn_at_def upd_txn_def fun_eq_iff)

lemma closed_frame [simp]:
  "mem_inv B (d\<lparr>ds_closed := c\<rparr>) = mem_inv B d" "txn_view B p (d\<lparr>ds_closed := c\<rparr>) = txn_view B p d"
  by (simp_all add: mem_inv_def values_inv_def txn_inv_def op_inv_def txn_view_def txn_item_def
      txn_at_def fun_eq_iff)

lemma view_upd_txn:
  assumes "p < length (txns d)" and "q \<noteq> p \<or> ops (f (txn_at d p)) = ops (txn_at d p) \<and> dsVersion (f (txn_at d p)) = dsVersion (txn_at d p)"
  shows "txn_view B q (upd_txn p f d) k = txn_view B q d k"
  using assms by (auto simp: txn_view_def txn_item_def getTxnVersion_def getDSVersion_def)

text \<open>
  A step acts on one transaction, on the datastore, or is a purge of the versions before \<open>v\<close>. A purge
  spares the transactions begun at \<open>v\<close> or later.
\<close>

datatype actor = OnStore | OnTxn nat | OnPurge u64

definition spares :: "actor \<Rightarrow> 't basicTxn \<Rightarrow> bool" where
  "spares e t \<longleftrightarrow> (case e of OnPurge v \<Rightarrow> v \<le> dsVersion t | _ \<Rightarrow> True)"

lemma spares_simps [simp]:
  "spares OnStore t" "spares (OnTxn p) t" "spares (OnPurge v) t \<longleftrightarrow> v \<le> dsVersion t"
  by (simp_all add: spares_def)

text \<open>\<open>keeps B e d d'\<close>: the step keeps the invariant, and every transaction it does not act on.\<close>

definition same_txn :: "'t basicTxn \<Rightarrow> 't basicTxn \<Rightarrow> bool" where
  "same_txn t t' \<longleftrightarrow> ops t' = ops t \<and> dsVersion t' = dsVersion t \<and> discarded t' = discarded t \<and>
     readOnly t' = readOnly t \<and> (txn_closed t \<longrightarrow> txn_closed t')"

lemma same_txn_refl [simp]: "same_txn t t"
  by (simp add: same_txn_def)

lemma same_txn_trans: "same_txn t t' \<Longrightarrow> same_txn t' t'' \<Longrightarrow> same_txn t t''"
  by (simp add: same_txn_def)

definition keeps :: "(dsItem, 't) btree_ops \<Rightarrow> actor \<Rightarrow> ('t, 'u) Datastore \<Rightarrow> ('t, 'u) Datastore \<Rightarrow> bool" where
  "keeps B e d d' \<longleftrightarrow> mem_inv B d' \<and> length (txns d) \<le> length (txns d') \<and>
     (\<forall>q < length (txns d). e \<noteq> OnTxn q \<longrightarrow> same_txn (txn_at d q) (txn_at d' q) \<and>
        (spares e (txn_at d q) \<longrightarrow> (\<forall>k. txn_view B q d' k = txn_view B q d k)))"

lemma same_txn_spares: "same_txn t t' \<Longrightarrow> spares e t' = spares e t"
  by (simp add: same_txn_def spares_def split: actor.splits)

lemma keeps_trans: "keeps B e d d' \<Longrightarrow> keeps B e d' d'' \<Longrightarrow> keeps B e d d''"
  by (auto simp: keeps_def same_txn_spares intro: same_txn_trans)

lemma keeps_refl: "mem_inv B d \<Longrightarrow> keeps B e d d"
  by (simp add: keeps_def)

lemma keeps_upd:
  assumes "mem_inv B (upd_txn p f d)" and "p < length (txns d)"
    and "e = OnTxn p \<or> same_txn (txn_at d p) (f (txn_at d p))"
  shows "keeps B e d (upd_txn p f d)"
  using assms view_upd_txn [OF assms(2)] by (auto simp: keeps_def same_txn_def)

lemma keeps_get:
  assumes "btree_laws byKeys B" and "mem_inv B d" and "p < length (txns d)" and "clean_key k"
  shows "keeps B (OnTxn p) d (snd (txn_get B p k d))"
proof -
  obtain r d' where g: "txn_get B p k d = (r, d')" by (cases "txn_get B p k d")
  with txn_get_spec(2,5) [OF assms g] keeps_upd [OF _ assms(3)] show ?thesis by auto
qed

lemma keeps_write:
  assumes "btree_laws byKeys B" and "mem_inv B d" and "p < length (txns d)"
    and "\<And>t. clean_key (key (x t)) \<and> version (x t) = getTxnVersion t \<and> \<not> isGet (x t)"
  shows "keeps B (OnTxn p) d (upd_txn p (\<lambda>t. t\<lparr>ops := bt_Set B (ops t) (x t)\<rparr>) d)"
  using assms
  by (intro keeps_upd mem_inv_upd_txn txn_inv_Set) (simp_all add: op_inv_def getTxnVersion_def getDSVersion_def)

lemma keeps_reads:
  assumes "btree_laws byKeys B" and "mem_inv B d" and "p < length (txns d)" and "clean_key k"
  shows "keeps B (OnTxn p) d (snd (Txn_Get B p k d))" and "keeps B (OnTxn p) d (snd (Txn_GetSize B p k d))"
    and "keeps B (OnTxn p) d (snd (Txn_Has B p k d))"
  using keeps_get [OF assms] keeps_refl [OF assms(2)]
  by (auto simp: Txn_Get_def Txn_GetSize_def Txn_Has_def Let_def split: prod.splits)

lemma keeps_Put:
  assumes "btree_laws byKeys B" and "mem_inv B d" and "p < length (txns d)" and "clean_key k"
  shows "keeps B (OnTxn p) d (snd (Txn_Put B p k v d))"
proof -
  have "keeps B (OnTxn p) d (upd_txn p (\<lambda>t. t\<lparr>ops := bt_Set B (ops t)
      (zero_item\<lparr>key := k, version := getTxnVersion t, val := v\<rparr>)\<rparr>) d)"
    by (rule keeps_write [OF assms(1-3)]) (simp add: assms(4) zero_item_def)
  then show ?thesis by (simp add: Txn_Put_def Let_def keeps_refl [OF assms(2)])
qed

lemma keeps_Delete:
  assumes "btree_laws byKeys B" and "mem_inv B d" and "p < length (txns d)" and "clean_key k"
  shows "keeps B (OnTxn p) d (snd (Txn_Delete B p k d))"
proof -
  obtain r d' where g: "txn_get B p k d = (r, d')" by (cases "txn_get B p k d")
  have k: "keeps B (OnTxn p) d d'" using keeps_get [OF assms] g by simp
  then have "mem_inv B d'" "p < length (txns d')" using assms(3) by (auto simp: keeps_def)
  then have "keeps B (OnTxn p) d' (upd_txn p (\<lambda>t. t\<lparr>ops := bt_Set B (ops t)
      (zero_item\<lparr>key := k, version := getTxnVersion t, isDeleted := True\<rparr>)\<rparr>) d')"
    by (intro keeps_write [OF assms(1)]) (simp_all add: assms(4) zero_item_def)
  with k g keeps_trans show ?thesis by (auto simp: Txn_Delete_def Let_def keeps_refl [OF assms(2)])
qed

lemma keeps_Discard:
  assumes "btree_laws byKeys B" and "mem_inv B d" and "p < length (txns d)"
  shows "keeps B (OnTxn p) d (Txn_Discard B F now p d)"
proof -
  let ?d1 = "upd_txn p (\<lambda>t. t\<lparr>ops := bt_Clear B (ops t)\<rparr>) d"
  have inv: "mem_inv B ?d1"
    using assms by (intro mem_inv_upd_txn) (simp_all add: txn_inv_def btree_laws_def)
  have k1: "keeps B (OnTxn p) d ?d1" by (rule keeps_upd [OF inv assms(3)]) simp
  let ?d2 = "clearInFlightTxn F now p ?d1"
  have k2: "keeps B (OnTxn p) ?d1 ?d2" using inv by (simp add: keeps_def clearInFlightTxn_def Let_def)
  let ?d3 = "upd_txn p (\<lambda>t. t\<lparr>discarded := True\<rparr>) ?d2"
  have "mem_inv B ?d2" "p < length (txns ?d2)" using k2 assms(3) by (auto simp: keeps_def)
  then have "keeps B (OnTxn p) ?d2 ?d3"
    by (intro keeps_upd mem_inv_upd_txn) (simp_all add: txn_inv_def op_inv_def)
  with k1 k2 have "keeps B (OnTxn p) d ?d3" by (meson keeps_trans)
  then show ?thesis by (simp add: Txn_Discard_def keeps_refl [OF assms(2)])
qed

lemma keeps_install:
  assumes "btree_laws byKeys B" and "mem_inv B d" and "room d" and "installable its"
  shows "keeps B e d (install B its d)"
  using install_mem_inv [OF assms] install_view [OF assms] by (simp add: keeps_def)

lemma commit_install:
  "ds_commit B NewKey t d =
     (case checkForConflicts B NewKey t d of Inl e \<Rightarrow> (Inl e, d) | Inr _ \<Rightarrow> (Inr (), install B (txn_writes B t) d))"
  unfolding install_def by (rule ds_commit_eq)

lemma keeps_Commit:
  assumes L: "btree_laws byKeys B" and inv: "mem_inv B d" and p: "p < length (txns d)" and room: "room d"
  shows "keeps B (OnTxn p) d (snd (Txn_Commit B F NewKey now p d))"
proof -
  let ?r = "if readOnly (txn_at d p) then (Inr (), d) else ds_commit B NewKey (txn_at d p) d"
  have k: "keeps B (OnTxn p) d (snd ?r)"
    using keeps_install [OF L inv room installable_txn [OF L inv p]] keeps_refl [OF inv]
    by (auto simp: commit_install split: sum.splits)
  then have "mem_inv B (snd ?r)" "p < length (txns (snd ?r))" using p by (auto simp: keeps_def)
  then have "keeps B (OnTxn p) d (Txn_Discard B F now p (snd ?r))"
    using keeps_Discard [OF L] k keeps_trans by blast
  then show ?thesis by (simp add: Txn_Commit_def Let_def keeps_refl [OF inv] case_prod_unfold)
qed

lemma newTransaction_eq:
  "newTransaction B F now ro d =
     (length (txns d), d\<lparr>txns := txns d @ [\<lparr>ops = bt_New B, dsVersion = ds_version d, readOnly = ro,
          discarded = False, txn_closed = False\<rparr>],
        inFlightTxn := bt_Set F (inFlightTxn d) \<lparr>fl_dsVersion = ds_version d, fl_txnVersion = ds_version d + 1,
          fl_expiresAt = now + 3600, fl_txn = length (txns d)\<rparr>\<rparr>)"
  by (simp add: newTransaction_def getVersion_def Let_def)

lemma begin_spec:
  assumes "btree_laws byKeys B" and "mem_inv B d" and "newTransaction B F now ro d = (p, d')"
  shows "keeps B e d d'" and "p = length (txns d)" and "length (txns d') = Suc p"
    and "ds_version d' = ds_version d" and "ds_values d' = ds_values d" and "ds_closed d' = ds_closed d"
    and "txn_at d' p = \<lparr>ops = bt_New B, dsVersion = ds_version d, readOnly = ro, discarded = False, txn_closed = False\<rparr>"
proof -
  note d' = assms(3) [unfolded newTransaction_eq]
  have ops: "bt_Iter B (bt_New B) = []" using assms(1) by (simp add: btree_laws_def)
  show *: "p = length (txns d)" "length (txns d') = Suc p" "ds_version d' = ds_version d"
    "ds_values d' = ds_values d" "ds_closed d' = ds_closed d"
    "txn_at d' p = \<lparr>ops = bt_New B, dsVersion = ds_version d, readOnly = ro, discarded = False, txn_closed = False\<rparr>"
    using d' by (auto simp: txn_at_def)
  have tx: "txns d' = txns d @ [txn_at d' p]" using d' by (auto simp: txn_at_def)
  then have old: "txn_at d' q = txn_at d q" if "q < length (txns d)" for q
    using that by (metis nth_append txn_at_def)
  have "txn_inv B d' (txn_at d' p)" using * ops by (simp add: txn_inv_def)
  moreover have "txn_inv B d' t = txn_inv B d t" for t using * by (rule_tac txn_inv_frame)
  moreover have "values_inv B d' = values_inv B d" using * by (rule_tac values_inv_frame)
  ultimately have "mem_inv B d'" using assms(2) * tx by (simp add: mem_inv_def)
  then show "keeps B e d d'" using * old by (simp add: keeps_def txn_view_def txn_item_def)
qed

lemma txn_close_keeps: "mem_inv B d \<Longrightarrow> keeps B e d (txn_close p d)"
proof (cases "p < length (txns d)")
  case True
  moreover assume "mem_inv B d"
  ultimately show ?thesis
    unfolding txn_close_def
    by (intro keeps_upd mem_inv_upd_txn) (simp_all add: txn_inv_def op_inv_def same_txn_def)
next
  case False
  moreover assume "mem_inv B d"
  ultimately show ?thesis by (simp add: txn_close_def upd_txn_def keeps_refl list_update_beyond)
qed

lemma keeps_Close: "mem_inv B d \<Longrightarrow> keeps B e d (snd (DS_Close F d))"
proof -
  assume inv: "mem_inv B d"
  have fold: "keeps B e d (foldl (\<lambda>d e. txn_close (fl_txn e) d) d es)" if "mem_inv B d"
    for es :: "dsTxn list" and d :: "('a, 'b) Datastore"
    using that
  proof (induction es rule: rev_induct)
    case (snoc x xs)
    let ?d = "foldl (\<lambda>d e. txn_close (fl_txn e) d) d xs"
    have "keeps B e d ?d" using snoc by simp
    moreover from this have "keeps B e ?d (txn_close (fl_txn x) ?d)" by (intro txn_close_keeps) (simp add: keeps_def)
    ultimately show ?case using keeps_trans by auto
  qed (simp add: keeps_refl)
  have "keeps B e d (d\<lparr>ds_closed := True\<rparr>)" using inv by (simp add: keeps_def txn_at_def)
  then have "keeps B e d (foldl (\<lambda>d e. txn_close (fl_txn e) d) (d\<lparr>ds_closed := True\<rparr>) es)" for es :: "dsTxn list"
    by (rule keeps_trans) (rule fold, simp add: inv)
  then show ?thesis using inv by (simp add: DS_Close_def Let_def keeps_refl)
qed


section \<open>Executions\<close>

text \<open>
  The operations that change the state, each labelled with what it acts on. The
  \<open>room\<close> guards keep the 64-bit version counter from wrapping around.
\<close>

inductive mem_step ::
    "(dsItem, 't) btree_ops \<Rightarrow> (dsTxn, 'u) btree_ops \<Rightarrow> (string \<Rightarrow> string) \<Rightarrow> actor \<Rightarrow>
     ('t, 'u) Datastore \<Rightarrow> ('t, 'u) Datastore \<Rightarrow> bool"
  for B F NewKey where
  Begin: "mem_step B F NewKey OnStore d (snd (NewTransaction B F now ro d))"
| Get: "p < length (txns d) \<Longrightarrow> clean_key k \<Longrightarrow> mem_step B F NewKey (OnTxn p) d (snd (Txn_Get B p k d))"
| GetSize: "p < length (txns d) \<Longrightarrow> clean_key k \<Longrightarrow> mem_step B F NewKey (OnTxn p) d (snd (Txn_GetSize B p k d))"
| Has: "p < length (txns d) \<Longrightarrow> clean_key k \<Longrightarrow> mem_step B F NewKey (OnTxn p) d (snd (Txn_Has B p k d))"
| Put: "p < length (txns d) \<Longrightarrow> clean_key k \<Longrightarrow> mem_step B F NewKey (OnTxn p) d (snd (Txn_Put B p k v d))"
| Delete: "p < length (txns d) \<Longrightarrow> clean_key k \<Longrightarrow> mem_step B F NewKey (OnTxn p) d (snd (Txn_Delete B p k d))"
| Commit: "p < length (txns d) \<Longrightarrow> room d \<Longrightarrow> mem_step B F NewKey (OnTxn p) d (snd (Txn_Commit B F NewKey now p d))"
| Discard: "p < length (txns d) \<Longrightarrow> mem_step B F NewKey (OnTxn p) d (Txn_Discard B F now p d)"
| Batch: "room d \<Longrightarrow> \<forall>k \<in> dom b. clean_key k \<Longrightarrow> mem_step B F NewKey OnStore d (Batch_Commit B order b d)"
| DS_Put: "room d \<Longrightarrow> clean_key k \<Longrightarrow> mem_step B F NewKey OnStore d (snd (DS_Put B F NewKey now k v d))"
| DS_Delete: "room d \<Longrightarrow> clean_key k \<Longrightarrow> mem_step B F NewKey OnStore d (snd (DS_Delete B F NewKey now k d))"
| Close: "mem_step B F NewKey OnStore d (snd (DS_Close F d))"
| Purge: "executePurge B F d = Some d' \<Longrightarrow> mem_step B F NewKey (OnPurge (purge_version F d)) d d'"

inductive mem_run for B F NewKey where
  Init: "mem_run B F NewKey (NewDatastore B F)"
| Step: "mem_run B F NewKey d \<Longrightarrow> mem_step B F NewKey e d d' \<Longrightarrow> mem_run B F NewKey d'"

text \<open>
  Steps of a sequence of operations none of which acts on transaction \<open>q\<close>, and whose purges all
  spare it.
\<close>

inductive others_run for B F NewKey q where
  Done: "others_run B F NewKey q d d"
| More: "others_run B F NewKey q d d' \<Longrightarrow> mem_step B F NewKey e d' d'' \<Longrightarrow> e \<noteq> OnTxn q \<Longrightarrow>
    spares e (txn_at d' q) \<Longrightarrow> others_run B F NewKey q d d''"

lemma keeps_narrow:
  assumes "keeps B e d d'" and "keeps B (OnTxn (length (txns d))) d' d''"
  shows "keeps B e d d''"
  using assms by (auto simp: keeps_def intro: same_txn_trans)

lemma keeps_direct:
  assumes L: "btree_laws byKeys B" and inv: "mem_inv B d" and room: "room d"
    and new: "newTransaction B F now False d = (p, d1)"
    and k2: "keeps B (OnTxn p) d1 d2" and v2: "ds_version d2 = ds_version d1" and op2: "length (txns d2) = length (txns d1)"
  shows "keeps B e d (snd (Txn_Commit B F NewKey now p d2))"
proof -
  note b = begin_spec [OF L inv new]
  have "room d2" using room b(4) v2 by (simp add: room_def)
  moreover have "mem_inv B d2" "p < length (txns d2)" using k2 b(3) op2 by (auto simp: keeps_def)
  ultimately have "keeps B (OnTxn p) d2 (snd (Txn_Commit B F NewKey now p d2))" by (intro keeps_Commit [OF L])
  with k2 have "keeps B (OnTxn p) d1 (snd (Txn_Commit B F NewKey now p d2))" by (rule keeps_trans)
  with b(1,2) show ?thesis using keeps_narrow by blast
qed

lemma write_frame:
  shows "ds_version (snd (Txn_Put B p k v d)) = ds_version d" "length (txns (snd (Txn_Put B p k v d))) = length (txns d)"
    and "ds_version (snd (Txn_Delete B p k d)) = ds_version d" "length (txns (snd (Txn_Delete B p k d))) = length (txns d)"
    and "ds_values (snd (Txn_Put B p k v d)) = ds_values d" "ds_values (snd (Txn_Delete B p k d)) = ds_values d"
  by (simp_all add: Txn_Put_def Txn_Delete_def txn_get_def Let_def)

lemma keeps_Purge:
  assumes "btree_laws byKeys B" and "mem_inv B d" and "executePurge B F d = Some d'"
  shows "keeps B (OnPurge (purge_version F d)) d d'"
  using purge_mem_inv [OF assms] by (simp add: keeps_def txn_at_def)

lemma step_keeps:
  assumes "mem_step B F NewKey e d d'" and L: "btree_laws byKeys B" and inv: "mem_inv B d"
  shows "keeps B e d d'"
  using assms(1)
proof cases
  case (Begin now ro)
  show ?thesis
    using begin_spec(1) [OF L inv] Begin keeps_refl [OF inv]
    by (cases "newTransaction B F now ro d") (simp add: NewTransaction_def)
next
  case (Batch b order)
  then show ?thesis
    using keeps_install [OF L inv _ installable_batch]
    by (simp add: Batch_Commit_eq install_def)
next
  case (DS_Put k now v)
  obtain p d1 where new: "newTransaction B F now False d = (p, d1)" by (cases "newTransaction B F now False d")
  note b = begin_spec [OF L inv new]
  have "keeps B (OnTxn p) d1 (snd (Txn_Put B p k v d1))"
    using b DS_Put(4) by (intro keeps_Put [OF L]) (auto simp: keeps_def)
  then have "keeps B e d (snd (Txn_Commit B F NewKey now p (snd (Txn_Put B p k v d1))))"
    using write_frame by (intro keeps_direct [OF L inv DS_Put(3) new]) simp_all
  then show ?thesis using new DS_Put keeps_refl [OF inv] by (simp add: DS_Put_def)
next
  case (DS_Delete k now)
  obtain p d1 where new: "newTransaction B F now False d = (p, d1)" by (cases "newTransaction B F now False d")
  note b = begin_spec [OF L inv new]
  have "keeps B (OnTxn p) d1 (snd (Txn_Delete B p k d1))"
    using b DS_Delete(4) by (intro keeps_Delete [OF L]) (auto simp: keeps_def)
  then have "keeps B e d (snd (Txn_Commit B F NewKey now p (snd (Txn_Delete B p k d1))))"
    using write_frame by (intro keeps_direct [OF L inv DS_Delete(3) new]) simp_all
  then show ?thesis using new DS_Delete keeps_refl [OF inv] by (simp add: DS_Delete_def)
qed (auto intro: keeps_reads [OF L inv] keeps_Put [OF L inv] keeps_Delete [OF L inv]
    keeps_Commit [OF L inv] keeps_Discard [OF L inv] keeps_Close [OF inv] keeps_Purge [OF L inv])

lemma init_inv: "btree_laws byKeys B \<Longrightarrow> mem_inv B (NewDatastore B F)"
  by (simp add: NewDatastore_def mem_inv_def values_inv_def btree_laws_def word_greater_zero_iff)

lemma others_keep:
  assumes "others_run B F NewKey q d d'" and L: "btree_laws byKeys B" and inv: "mem_inv B d" and "q < length (txns d)"
  shows "mem_inv B d' \<and> q < length (txns d') \<and> (\<forall>k. txn_view B q d' k = txn_view B q d k) \<and>
    same_txn (txn_at d q) (txn_at d' q)"
  using assms(1) inv assms(4)
proof induction
  case (More d d' e d'')
  then have "keeps B e d' d''" using step_keeps [OF _ L] by blast
  with More show ?case by (auto simp: keeps_def same_txn_spares intro: same_txn_trans)
qed simp


section \<open>What a commit does\<close>

text \<open>
  A transaction conflicts when a key it recorded has a newer version in the store than in its
  snapshot. It records the keys it writes and the keys it reads while they have a version in the
  snapshot; a read of a key that has none is recorded as the blank item and so not checked.
\<close>

definition conflicts :: "(dsItem, 't) btree_ops \<Rightarrow> nat \<Rightarrow> ('t, 'u) Datastore \<Rightarrow> bool" where
  "conflicts B p d \<longleftrightarrow>
     (\<exists>it \<in> set (bt_Iter B (ops (txn_at d p))). clean_key (key it) \<and>
        version (ds_get B (ds_values d) (key it) (ds_version d)) \<noteq>
        version (ds_get B (ds_values d) (key it) (dsVersion (txn_at d p))))"

lemma values_keys: "mem_inv B d \<Longrightarrow> \<not> clean_key k \<Longrightarrow> vers B (ds_values d) k v = {}"
  by (auto simp: mem_inv_def values_inv_def vers_def)

lemma checkForConflicts_eq:
  assumes L: "btree_laws byKeys B" and N: "newkey_laws NewKey" and inv: "mem_inv B d" and p: "p < length (txns d)"
  shows "checkForConflicts B NewKey (txn_at d p) d = (if conflicts B p d then Inl ErrTxnConflict else Inr ())"
proof -
  let ?t = "txn_at d p"
  have same: "version (ds_get B (ds_values d) (NewKey (key it)) (ds_version d)) =
        version (ds_get B (ds_values d) (NewKey (key it)) (dsVersion ?t)) \<longleftrightarrow>
      (clean_key (key it) \<longrightarrow> version (ds_get B (ds_values d) (key it) (ds_version d)) =
        version (ds_get B (ds_values d) (key it) (dsVersion ?t)))"
    if "it \<in> set (bt_Iter B (ops ?t))" for it
  proof (cases "clean_key (key it)")
    case True
    then show ?thesis using NewKey_clean [OF N] by simp
  next
    case False
    with op_version(3) [OF L inv p that] have "key it = []" by simp
    then have "NewKey (key it) = ''/''" using N by (simp add: newkey_laws_def)
    moreover have "\<not> clean_key ''/''" using clean_key_not_root by blast
    ultimately show ?thesis
      using False ds_get_missing [OF L values_keys [OF inv]] by simp
  qed
  have "list_all (\<lambda>it. version (ds_get B (ds_values d) (NewKey (key it)) (ds_version d)) =
      version (ds_get B (ds_values d) (NewKey (key it)) (dsVersion ?t))) (bt_Iter B (ops ?t)) \<longleftrightarrow> \<not> conflicts B p d"
    using same by (auto simp: list_all_iff conflicts_def)
  moreover have "dsVersion ?t = ds_version d \<Longrightarrow> \<not> conflicts B p d" by (simp add: conflicts_def)
  ultimately show ?thesis by (auto simp: checkForConflicts_def getDSVersion_def getVersion_def)
qed

lemma same_version_same_item:
  assumes L: "btree_laws byKeys B" and le: "v' \<le> v"
    and eq: "version (ds_get B t k v) = version (ds_get B t k v')"
  shows "ds_get B t k v = ds_get B t k v'"
  using L
proof (cases rule: ds_get_cases [where t = t and k = k and v = v])
  case missing
  then have "vers B t k v' = {}" using le by (auto simp: vers_def)
  with missing show ?thesis using ds_get_missing [OF L] by metis
next
  case found
  moreover have "version (ds_get B t k v) \<le> v'" using eq ds_get_version [OF L, of t k v'] by simp
  ultimately have "ds_get B t k v \<in> vers B t k v'" "\<forall>y \<in> vers B t k v'. version y \<le> version (ds_get B t k v)"
    using le by (auto simp: vers_def)
  then show ?thesis using ds_get_found [OF L, of "ds_get B t k v" t k v'] by simp
qed

text \<open>The keys a transaction recorded (and the empty key when it read a missing one).\<close>

definition recorded :: "(dsItem, 't) btree_ops \<Rightarrow> nat \<Rightarrow> ('t, 'u) Datastore \<Rightarrow> string set" where
  "recorded B p d = key ` set (bt_Iter B (ops (txn_at d p)))"

lemma txn_view_recorded:
  assumes L: "btree_laws byKeys B" and inv: "mem_inv B d" and p: "p < length (txns d)"
    and k: "clean_key k" "k \<in> recorded B p d"
  obtains it where "it \<in> set (bt_Iter B (ops (txn_at d p)))" and "key it = k" and "txn_view B p d k = live it"
    and "\<And>x. x \<in> set (bt_Iter B (ops (txn_at d p))) \<Longrightarrow> key x = k \<Longrightarrow> \<not> isGet x \<Longrightarrow> x = it"
proof -
  let ?t = "txn_at d p"
  let ?m = "ds_get B (ops ?t) k (getTxnVersion ?t)"
  have kne: "k \<noteq> []" using k(1) by (rule clean_key_ne)
  note v = ops_items [OF L inv p kne]
  have ne: "key ?m \<noteq> []" using v(2) k(2) by (auto simp: recorded_def)
  note m = ds_get_present [OF L ne, unfolded v(1)]
  have uniq: "x = ?m" if "x \<in> set (bt_Iter B (ops ?t))" "key x = k" "\<not> isGet x" for x
  proof (rule bt_sorted_unique [OF L that(1)])
    show "?m \<in> set (bt_Iter B (ops ?t))" "key x = key ?m" using m(1) that by auto
    have "version x = dsVersion ?t + 1" using op_version(2) [OF L inv p that(1)] that by simp
    moreover have "version ?m \<le> dsVersion ?t + 1" using op_version(1) [OF L inv p] m(1) by auto
    moreover have "version x \<le> version ?m" using m(2) that by auto
    ultimately show "version x = version ?m" by simp
  qed
  have view: "txn_view B p d k = live ?m" using ne by (simp add: txn_view_def txn_item_def)
  have mem: "?m \<in> set (bt_Iter B (ops ?t))" "key ?m = k" using m(1) by simp_all
  show thesis by (rule that [OF mem view uniq])
qed

lemma no_newer:
  assumes L: "btree_laws byKeys B" and inv: "mem_inv B d"
    and same: "ds_get B (ds_values d) k (ds_version d) = ds_get B (ds_values d) k v"
    and y: "y \<in> set (bt_Iter B (ds_values d))" "key y = k"
  shows "version y \<le> v"
proof -
  have yv: "y \<in> vers B (ds_values d) k (ds_version d)"
    using y inv by (auto simp: vers_def mem_inv_def values_inv_def)
  from L have "version y \<le> version (ds_get B (ds_values d) k (ds_version d))"
    by (cases rule: ds_get_cases [where t = "ds_values d" and k = k and v = "ds_version d"]) (use yv in auto)
  also have "\<dots> \<le> v" using same ds_get_version [OF L, of "ds_values d" k v] by simp
  finally show ?thesis .
qed

lemma commit_latest:
  assumes L: "btree_laws byKeys B" and inv: "mem_inv B d" and p: "p < length (txns d)" and room: "room d"
    and ok: "\<not> conflicts B p d" and k: "clean_key k"
  shows "snapshot B (install B (txn_writes B (txn_at d p)) d) (ds_version d + 1) k =
    (if k \<in> recorded B p d then txn_view B p d k else snapshot B d (ds_version d) k)"
proof -
  let ?t = "txn_at d p" and ?v = "ds_version d + 1"
  let ?W = "txn_writes B ?t ?v"
  note latest = install_latest [OF L inv room installable_txn [OF L inv p], of k]
  have W: "x \<in> set ?W \<longleftrightarrow> (\<exists>y \<in> set (bt_Iter B (ops ?t)). \<not> isGet y \<and> x = y\<lparr>version := ?v\<rparr>)" for x
    by (auto simp: txn_writes_def)
  show ?thesis
  proof (cases "k \<in> recorded B p d")
    case False
    then have "find (\<lambda>it. key it = k) (rev ?W) = None"
      by (auto simp: find_None_iff recorded_def W)
    with False latest show ?thesis by simp
  next
    case True
    obtain it where it: "it \<in> set (bt_Iter B (ops ?t))" "key it = k" "txn_view B p d k = live it"
      and uniq: "\<And>x. x \<in> set (bt_Iter B (ops ?t)) \<Longrightarrow> key x = k \<Longrightarrow> \<not> isGet x \<Longrightarrow> x = it"
      using txn_view_recorded [OF L inv p k True] by metis
    show ?thesis
    proof (cases "isGet it")
      case False
      have "find (\<lambda>it. key it = k) (rev ?W) = Some (it\<lparr>version := ?v\<rparr>)"
      proof (rule find_rev_unique)
        show "it\<lparr>version := ?v\<rparr> \<in> set ?W" using it(1) False by (auto simp: W)
        have "x = it\<lparr>version := ?v\<rparr>" if "x \<in> set ?W" "key x = k" for x
          using that uniq by (fastforce simp: W)
        then show "\<forall>x \<in> set ?W. \<forall>y \<in> set ?W. key x = k \<longrightarrow> key y = k \<longrightarrow> x = y" by metis
      qed (simp add: it(2))
      with True it(3) latest show ?thesis by (simp add: live_def absent_def)
    next
      case get: True
      then have "find (\<lambda>it. key it = k) (rev ?W) = None" using uniq by (auto simp: find_None_iff W)
      moreover have "live it = snapshot B d (ds_version d) k"
      proof -
        have t: "txn_inv B d ?t" by (rule txn_inv_at [OF inv p])
        then have "op_inv B d ?t it" using it(1) by (simp add: txn_inv_def)
        moreover have same: "ds_get B (ds_values d) k (ds_version d) = ds_get B (ds_values d) k (dsVersion ?t)"
          using ok it k t by (intro same_version_same_item [OF L]) (auto simp: conflicts_def txn_inv_def)
        ultimately have "it = (ds_get B (ds_values d) k (dsVersion ?t))\<lparr>isGet := True\<rparr>"
          using it(2) get clean_key_ne [OF k] no_newer [OF L inv same, THEN leD] by (auto simp: op_inv_def zero_item_def)
        with same show ?thesis by (simp add: snapshot_def txn_item_simp)
      qed
      ultimately show ?thesis using True it(3) latest by simp
    qed
  qed
qed

section \<open>Properties\<close>

lemma run_inv: "mem_run B F NewKey d \<Longrightarrow> btree_laws byKeys B \<Longrightarrow> mem_inv B d"
  by (induction rule: mem_run.induct) (auto simp: init_inv keeps_def dest: step_keeps)

lemma read_results:
  assumes "btree_laws byKeys B" and "mem_inv B d" and "p < length (txns d)" and "clean_key k"
  shows "fst (Txn_Get B p k d) =
      (if txn_closed (txn_at d p) then Inl ErrClosed
       else if discarded (txn_at d p) then Inl ErrTxnDiscarded
       else case txn_view B p d k of None \<Rightarrow> Inl ErrNotFound | Some v \<Rightarrow> Inr v)"
    and "fst (Txn_GetSize B p k d) =
      (if txn_closed (txn_at d p) then Inl ErrClosed
       else if discarded (txn_at d p) then Inl ErrTxnDiscarded
       else case txn_view B p d k of None \<Rightarrow> Inl ErrNotFound | Some v \<Rightarrow> Inr (length v))"
    and "fst (Txn_Has B p k d) =
      (if ds_closed d then Inl ErrClosed
       else if discarded (txn_at d p) then Inl ErrTxnDiscarded
       else Inr (txn_view B p d k \<noteq> None))"
proof -
  obtain r d' where g: "txn_get B p k d = (r, d')" by (cases "txn_get B p k d")
  note v = txn_get_spec(1) [OF assms g, symmetric]
  show "fst (Txn_Get B p k d) =
      (if txn_closed (txn_at d p) then Inl ErrClosed
       else if discarded (txn_at d p) then Inl ErrTxnDiscarded
       else case txn_view B p d k of None \<Rightarrow> Inl ErrNotFound | Some v \<Rightarrow> Inr v)"
    using g v by (simp add: Txn_Get_def Let_def live_def)
  show "fst (Txn_GetSize B p k d) =
      (if txn_closed (txn_at d p) then Inl ErrClosed
       else if discarded (txn_at d p) then Inl ErrTxnDiscarded
       else case txn_view B p d k of None \<Rightarrow> Inl ErrNotFound | Some v \<Rightarrow> Inr (length v))"
    using g v by (simp add: Txn_GetSize_def Let_def live_def)
  show "fst (Txn_Has B p k d) =
      (if ds_closed d then Inl ErrClosed
       else if discarded (txn_at d p) then Inl ErrTxnDiscarded
       else Inr (txn_view B p d k \<noteq> None))"
    using g v by (simp add: Txn_Has_def Let_def live_def)
qed

lemma Discard_frame:
  "ds_version (Txn_Discard B F now p d) = ds_version d" "ds_values (Txn_Discard B F now p d) = ds_values d"
  "ds_closed (Txn_Discard B F now p d) = ds_closed d" "length (txns (Txn_Discard B F now p d)) = length (txns d)"
  by (simp_all add: Txn_Discard_def clearInFlightTxn_def Let_def)

lemma Discard_discarded:
  "p < length (txns d) \<Longrightarrow> discarded (txn_at (Txn_Discard B F now p d) p)"
  "p < length (txns d) \<Longrightarrow> txn_closed (txn_at (Txn_Discard B F now p d) p) = txn_closed (txn_at d p)"
  by (simp_all add: Txn_Discard_def clearInFlightTxn_def Let_def)

lemma Discard_other:
  "p < length (txns d) \<Longrightarrow> q \<noteq> p \<Longrightarrow> txn_at (Txn_Discard B F now p d) q = txn_at d q"
  by (simp add: Txn_Discard_def clearInFlightTxn_def Let_def)

lemma snapshot_frame: "ds_values d' = ds_values d \<Longrightarrow> snapshot B d' = snapshot B d"
  by (simp add: snapshot_def fun_eq_iff)

lemma Txn_Commit_eq:
  assumes "btree_laws byKeys B" and "newkey_laws NewKey" and "mem_inv B d" and "p < length (txns d)"
    and "\<not> txn_closed (txn_at d p)" and "\<not> discarded (txn_at d p)" and "\<not> readOnly (txn_at d p)"
  shows "Txn_Commit B F NewKey now p d =
    (if conflicts B p d then (Inl ErrTxnConflict, Txn_Discard B F now p d)
     else (Inr (), Txn_Discard B F now p (install B (txn_writes B (txn_at d p)) d)))"
  using assms(5-7) by (simp add: Txn_Commit_def Let_def commit_install checkForConflicts_eq [OF assms(1-4)])

lemma values_below:
  assumes "mem_inv B d" and "room d"
  shows "\<forall>y \<in> set (bt_Iter B (ds_values d)). version y \<le> ds_version d + 1"
  using assms room_version(1) [OF assms(2)] by (fastforce simp: mem_inv_def values_inv_def)

text \<open>
  C15. Whatever the operations performed since the datastore was created, purges of old versions
  included, and in whatever order, the stored items are at clean keys and not newer than the
  datastore's version, and every read a transaction recorded is the item of the snapshot it was
  begun at, or a newer version of the key is stored.
\<close>

theorem mem_reachable_inv:
  assumes "btree_laws byKeys B" and "mem_run B F NewKey d"
  shows "mem_inv B d"
  using assms run_inv by blast

text \<open>
  C2. Snapshot isolation of the reads by key: whatever the other transactions, the batches, the direct
  writes and the purges that spare the transaction do, reading a key, its size or whether it exists
  in an open transaction gives the same result (for the last one, unless the datastore itself was
  closed). Queries are not covered: they read the latest committed versions.
\<close>

theorem snapshot_isolation:
  assumes "btree_laws byKeys B" and "mem_run B F NewKey d" and "q < length (txns d)"
    and "others_run B F NewKey q d d'" and "\<not> txn_closed (txn_at d' q)" and "clean_key k"
  shows "fst (Txn_Get B q k d') = fst (Txn_Get B q k d) \<and>
    fst (Txn_GetSize B q k d') = fst (Txn_GetSize B q k d) \<and>
    (ds_closed d' = ds_closed d \<longrightarrow> fst (Txn_Has B q k d') = fst (Txn_Has B q k d))"
proof -
  have inv: "mem_inv B d" using run_inv assms(1,2) by blast
  note o = others_keep [OF assms(4,1) inv assms(3)]
  then have "mem_inv B d'" and "q < length (txns d')" by simp_all
  from read_results [OF assms(1) this assms(6)] read_results [OF assms(1) inv assms(3,6)] o assms(5)
  show ?thesis by (simp add: same_txn_def)
qed

text \<open>
  C26. What a query on a transaction returns, in any state: below the prefix, a key the transaction
  recorded has the value the transaction sees, and every other key its latest committed value, also
  one committed after the transaction was begun.
\<close>

theorem txn_query_entries:
  assumes L: "btree_laws byKeys B" and Q: "query_laws NaiveQueryApply" and "mem_run B F NewKey d"
    and p: "p < length (txns d)" and "\<not> ds_closed d" and "\<not> discarded (txn_at d p)" and "clean_key pre"
    and query: "Txn_Query B NaiveQueryApply p \<lparr>q_Prefix = pre, q_KeysOnly = False\<rparr> d = (r, d')"
  shows "\<exists>es. r = Inr es \<and> d' = d \<and> distinct (map e_Key es) \<and>
    (\<forall>k v. (k, v) \<in> (\<lambda>e. (e_Key e, e_Value e)) ` set es \<longleftrightarrow> clean_key k \<and> below pre k \<and>
       (if k \<in> recorded B p d then txn_view B p d k else snapshot B d (ds_version d) k) = Some v)"
proof -
  have inv: "mem_inv B d" using run_inv assms(1,3) by blast
  obtain es where es: "r = Inr es" "d' = d" "distinct (map e_Key es)"
    "\<forall>k v. (k, v) \<in> set (map (\<lambda>e. (e_Key e, e_Value e)) es) \<longleftrightarrow> query_view B p d k = Some v \<and> below pre k"
    using Txn_Query_entries [OF L Q inv p assms(5-7)] query by auto
  have "query_view B p d k = Some v \<longleftrightarrow> clean_key k \<and>
      (if k \<in> recorded B p d then txn_view B p d k else snapshot B d (ds_version d) k) = Some v" for k v
    using ops_items(2) [OF L inv p clean_key_ne, of k]
    by (auto simp: query_view_def query_item_def txn_view_def txn_item_def snapshot_def recorded_def)
  with es show ?thesis by (intro exI [of _ es]) (auto simp: image_def)
qed

text \<open>
  C3. A commit either finds that a key the transaction recorded (it wrote the key, or read it while
  its snapshot had a version of it) has a newer version than in its snapshot, fails with
  \<^verbatim>\<open>ErrTxnConflict\<close> and leaves the stored data as it was, or succeeds, and then every recorded key
  holds what the transaction saw and every other key what it held before. Keys read while missing
  are not recorded.
\<close>

theorem commit_outcome:
  assumes "btree_laws byKeys B" and "newkey_laws NewKey" and "mem_run B F NewKey d" and "room d"
    and "p < length (txns d)" and "\<not> txn_closed (txn_at d p)" and "\<not> discarded (txn_at d p)"
    and "\<not> readOnly (txn_at d p)" and "Txn_Commit B F NewKey now p d = (r, d')"
  shows "if conflicts B p d then r = Inl ErrTxnConflict \<and> ds_version d' = ds_version d \<and> ds_values d' = ds_values d
    else r = Inr () \<and> ds_version d' = ds_version d + 1 \<and>
      (\<forall>k. clean_key k \<longrightarrow> snapshot B d' (ds_version d') k =
         (if k \<in> recorded B p d then txn_view B p d k else snapshot B d (ds_version d) k))"
proof -
  have inv: "mem_inv B d" using run_inv assms(1,3) by blast
  note eq = Txn_Commit_eq [OF assms(1,2) inv assms(5-8), of F now, unfolded assms(9)]
  show ?thesis
  proof (cases "conflicts B p d")
    case True
    with eq show ?thesis by (simp add: Discard_frame)
  next
    case False
    then have "snapshot B d' = snapshot B (install B (txn_writes B (txn_at d p)) d)"
      using eq by (intro snapshot_frame) (simp add: Discard_frame)
    with eq False commit_latest [OF assms(1) inv assms(5,4) False] show ?thesis
      by (simp add: Discard_frame)
  qed
qed


lemma install_conflicts:
  assumes L: "btree_laws byKeys B" and inv: "mem_inv B d" and room: "room d" and its: "installable its"
    and p: "p < length (txns d)"
    and disj: "\<forall>it \<in> set (bt_Iter B (ops (txn_at d p))). clean_key (key it) \<longrightarrow> key it \<notin> key ` set (its (ds_version d + 1))"
  shows "conflicts B p (install B its d) = conflicts B p d"
proof -
  let ?v = "ds_version d + 1"
  have "ds_get B (ds_values (install B its d)) k x = ds_get B (ds_values d) k x" if "k \<notin> key ` set (its ?v)" for k x
  proof -
    have "find (\<lambda>it. key it = k) (rev (its ?v)) = None" using that by (auto simp: find_None_iff)
    then show ?thesis
      using ds_get_set_all [OF L _ values_below [OF inv room], of "its ?v" k x] its
      by (simp add: install_def installable_def)
  qed
  moreover have "ds_get B (ds_values d) k ?v = ds_get B (ds_values d) k (ds_version d)" for k
    using inv values_below [OF inv room] by (intro ds_get_cong [OF L]) (auto simp: vers_def mem_inv_def values_inv_def)
  ultimately show ?thesis using disj by (auto simp: conflicts_def)
qed

lemma get_missing:
  assumes L: "btree_laws byKeys B" and inv: "mem_inv B d" and p: "p < length (txns d)" and k: "clean_key k"
    and new: "k \<notin> recorded B p d" and none: "\<forall>x \<in> set (bt_Iter B (ds_values d)). key x \<noteq> k"
  shows "txn_get B p k d = (zero_item\<lparr>isGet := True\<rparr>,
    upd_txn p (\<lambda>t. t\<lparr>ops := bt_Set B (ops t) (zero_item\<lparr>isGet := True\<rparr>)\<rparr>) d)"
proof -
  have "key (ds_get B (ops (txn_at d p)) k (getTxnVersion (txn_at d p))) = []"
    using ops_items(2) [OF L inv p clean_key_ne [OF k]] new by (auto simp: recorded_def)
  moreover have "ds_get B (ds_values d) k v = zero_item" for v
    using none by (intro ds_get_missing [OF L]) (auto simp: vers_def)
  ultimately show ?thesis by (simp add: txn_get_def ds_get_def Let_def)
qed

lemma commit_apart:
  assumes L: "btree_laws byKeys B" and N: "newkey_laws NewKey" and inv: "mem_inv B d" and room: "room d"
    and "p \<noteq> q" and p: "p < length (txns d)" and q: "q < length (txns d)"
    and op: "\<not> txn_closed (txn_at d p)" "\<not> discarded (txn_at d p)" "\<not> readOnly (txn_at d p)"
    and oq: "\<not> txn_closed (txn_at d q)" "\<not> discarded (txn_at d q)" "\<not> readOnly (txn_at d q)"
    and apart: "\<forall>k \<in> recorded B p d. clean_key k \<longrightarrow> k \<notin> recorded B q d" and ok: "\<not> conflicts B p d"
    and commit: "Txn_Commit B F NewKey now q d = (Inr (), d')"
  shows "fst (Txn_Commit B F NewKey now' p d') = Inr ()"
proof -
  let ?W = "txn_writes B (txn_at d q)"
  have d': "d' = Txn_Discard B F now q (install B ?W d)"
    using Txn_Commit_eq [OF L N inv q oq, of F now] commit by (auto split: if_splits)
  have "conflicts B p (install B ?W d) = conflicts B p d"
    using apart by (intro install_conflicts [OF L inv room installable_txn [OF L inv q] p])
      (auto simp: txn_writes_def recorded_def)
  with ok have "\<not> conflicts B p d'"
    using \<open>p \<noteq> q\<close> q by (simp add: d' conflicts_def Discard_frame Discard_other)
  moreover have "keeps B (OnTxn q) d d'" using keeps_Commit [OF L inv q room, of F NewKey now] commit by simp
  then have "mem_inv B d'" "p < length (txns d')" using p by (auto simp: keeps_def)
  moreover have "\<not> txn_closed (txn_at d' p)" "\<not> discarded (txn_at d' p)" "\<not> readOnly (txn_at d' p)"
    using op \<open>p \<noteq> q\<close> q by (simp_all add: d' Discard_other)
  ultimately show ?thesis using Txn_Commit_eq [OF L N, of d' p F now'] by simp
qed

lemma commit_recorded:
  assumes L: "btree_laws byKeys B" and N: "newkey_laws NewKey" and inv: "mem_inv B d" and room: "room d"
    and q: "q < length (txns d)" and "\<not> readOnly (txn_at d q)" and "clean_key k" and "k \<in> recorded B q d"
    and commit: "Txn_Commit B F NewKey now q d = (Inr (), d')"
  shows "snapshot B d' (ds_version d') k = txn_view B q d k"
proof -
  have "\<not> txn_closed (txn_at d q)" "\<not> discarded (txn_at d q)"
    using commit by (auto simp: Txn_Commit_def Let_def split: if_splits)
  then have nc: "\<not> conflicts B q d" and d': "d' = Txn_Discard B F now q (install B (txn_writes B (txn_at d q)) d)"
    using Txn_Commit_eq [OF L N inv q _ _ assms(6), of F now] commit by (auto split: if_splits)
  have "snapshot B d' = snapshot B (install B (txn_writes B (txn_at d q)) d)"
    by (rule snapshot_frame) (simp add: d' Discard_frame)
  then show ?thesis using commit_latest [OF L inv q room nc assms(7)] assms(8) by (simp add: d' Discard_frame)
qed

text \<open>
  A read of a missing key is not checked: a transaction that found no version of a key commits
  although another transaction has written that key and committed in between, when the two share no
  other recorded key and the first had no conflict before.
\<close>

theorem missing_read_unchecked:
  assumes L: "btree_laws byKeys B" and N: "newkey_laws NewKey" and "mem_run B F NewKey d" and room: "room d"
    and "p \<noteq> q" and p: "p < length (txns d)" and q: "q < length (txns d)"
    and op: "\<not> txn_closed (txn_at d p)" "\<not> discarded (txn_at d p)" "\<not> readOnly (txn_at d p)"
    and oq: "\<not> txn_closed (txn_at d q)" "\<not> discarded (txn_at d q)" "\<not> readOnly (txn_at d q)"
    and k: "clean_key k" and new: "k \<notin> recorded B p d" and none: "\<forall>x \<in> set (bt_Iter B (ds_values d)). key x \<noteq> k"
    and apart: "recorded B p d \<inter> recorded B q d \<subseteq> {[]}" and ok: "\<not> conflicts B p d"
    and read: "Txn_Get B p k d = (r, d1)" and wrote: "Txn_Put B q k v d1 = (r', d2)"
    and commit: "Txn_Commit B F NewKey now q d2 = (Inr (), d3)"
  shows "r = Inl ErrNotFound \<and> snapshot B d3 (ds_version d3) k = Some v \<and>
    fst (Txn_Commit B F NewKey now' p d3) = Inr ()"
proof -
  have inv: "mem_inv B d" using run_inv assms(1,3) by blast
  let ?z = "zero_item\<lparr>isGet := True\<rparr>" and ?x = "zero_item\<lparr>key := k, version := dsVersion (txn_at d q) + 1, val := v\<rparr>"
  note get = get_missing [OF L inv p k new none]
  have r: "r = Inl ErrNotFound" and d1: "d1 = upd_txn p (\<lambda>t. t\<lparr>ops := bt_Set B (ops t) ?z\<rparr>) d"
    using read op get by (auto simp: Txn_Get_def absent_def zero_item_def)
  have d2: "d2 = upd_txn q (\<lambda>t. t\<lparr>ops := bt_Set B (ops t) ?x\<rparr>) d1"
    using wrote oq \<open>p \<noteq> q\<close> p q unfolding d1
    by (auto simp: Txn_Put_def upd_txn_def txn_at_def getTxnVersion_def getDSVersion_def Let_def)
  have inv1: "mem_inv B d1" using keeps_reads(1) [OF L inv p k] read by (simp add: keeps_def)
  have q1: "q < length (txns d1)" using q d1 by simp
  then have inv2: "mem_inv B d2" using keeps_Put [OF L inv1 q1 k, of v] wrote by (simp add: keeps_def)
  have t2: "txn_at d2 q = (txn_at d q)\<lparr>ops := bt_Set B (ops (txn_at d q)) ?x\<rparr>"
    "txn_at d2 p = (txn_at d p)\<lparr>ops := bt_Set B (ops (txn_at d p)) ?z\<rparr>"
    and f2: "ds_values d2 = ds_values d" "ds_version d2 = ds_version d" "length (txns d2) = length (txns d)"
    using \<open>p \<noteq> q\<close> p q by (simp_all add: d2 d1)
  have pq: "room d2" "p < length (txns d2)" "q < length (txns d2)" using room p q by (simp_all add: room_def f2)
  have rec: "recorded B q d2 \<subseteq> insert k (recorded B q d)" "recorded B p d2 \<subseteq> insert [] (recorded B p d)" "k \<in> recorded B q d2"
    by (auto simp: recorded_def t2 Iter_Set [OF L] zero_item_def)
  have "txn_view B q d2 k = Some v"
    using write_spec(2) [OF L inv1 q1, of ?x k] k clean_key_ne [OF k] \<open>p \<noteq> q\<close> p
    by (simp add: d2 d1 zero_item_def live_def absent_def)
  then have "snapshot B d3 (ds_version d3) k = Some v"
    using commit_recorded [OF L N inv2 pq(1,3) _ k rec(3) commit] oq t2 by simp
  moreover have "\<forall>k' \<in> recorded B p d2. clean_key k' \<longrightarrow> k' \<notin> recorded B q d2"
    using rec new apart clean_key_ne by fastforce
  moreover have "\<not> conflicts B p d2"
    using ok clean_key_ne by (auto simp: conflicts_def t2 f2 Iter_Set [OF L] zero_item_def)
  ultimately show ?thesis
    using r commit_apart [OF L N inv2 pq(1) \<open>p \<noteq> q\<close> pq(2,3) _ _ _ _ _ _ _ _ commit] op oq t2 by simp
qed

text \<open>
  C30. The order in which Go visits the batch's map does not matter: after a batch commit a key of
  the batch holds the batch's last operation for it and every other key what it held before.
\<close>

theorem batch_commit_any_order:
  assumes L: "btree_laws byKeys B" and "mem_run B F NewKey d" and room: "room d"
    and clean: "\<forall>k \<in> dom b. clean_key k" and order: "set order = dom b"
  shows "snapshot B (Batch_Commit B order b d) (ds_version d + 1) k =
    (case b k of None \<Rightarrow> snapshot B d (ds_version d) k
     | Some op \<Rightarrow> if op_delete op then None else Some (op_value op))"
proof -
  have inv: "mem_inv B d" using run_inv assms(1,2) by blast
  let ?W = "batch_writes b order (ds_version d + 1)"
  have mem: "x \<in> set ?W \<longleftrightarrow> (\<exists>k op. b k = Some op \<and> x = batch_item (ds_version d + 1) k op)" for x
  proof -
    have "set ?W = (\<lambda>k. batch_item (ds_version d + 1) k (the (b k))) ` dom b"
      using order by (auto simp: batch_writes_def)
    then show ?thesis by (simp only: image_iff) (metis domD domI option.sel)
  qed
  have key: "key (batch_item v k op) = k" for v k op by (simp add: batch_item_def)
  have "snapshot B (Batch_Commit B order b d) (ds_version d + 1) k =
      (case find (\<lambda>it. key it = k) (rev ?W) of Some it \<Rightarrow> live it | None \<Rightarrow> snapshot B d (ds_version d) k)"
    using install_latest [OF L inv room installable_batch [OF clean], of order k]
    by (simp add: Batch_Commit_eq install_def)
  moreover have "find (\<lambda>it. key it = k) (rev ?W) = map_option (batch_item (ds_version d + 1) k) (b k)"
  proof (cases "b k")
    case None
    then show ?thesis by (auto simp: find_None_iff mem key)
  next
    case (Some op)
    then have "x = batch_item (ds_version d + 1) k op" if "x \<in> set ?W" "key x = k" for x
      using that key by (auto simp: mem)
    then have "\<forall>x \<in> set ?W. \<forall>y \<in> set ?W. key x = k \<longrightarrow> key y = k \<longrightarrow> x = y" by metis
    moreover have "batch_item (ds_version d + 1) k op \<in> set ?W" unfolding mem using Some by blast
    ultimately have "find (\<lambda>it. key it = k) (rev ?W) = Some (batch_item (ds_version d + 1) k op)"
      by (rule find_rev_unique) (rule key)
    with Some show ?thesis by simp
  qed
  moreover have "live (batch_item v k op) = (if op_delete op then None else Some (op_value op))"
    if "b k = Some op" for v op
  proof -
    have "k \<noteq> []" using that clean by (blast dest: clean_key_ne)
    then show ?thesis by (simp add: live_def absent_def batch_item_def zero_item_def)
  qed
  ultimately show ?thesis by (cases "b k") simp_all
qed

text \<open>
  C29. A query on the datastore returns exactly the keys below the prefix that have a value in the
  latest version, each once and with that value.
\<close>

theorem ds_query_latest:
  assumes L: "btree_laws byKeys B" and Q: "query_laws NaiveQueryApply" and "mem_run B F NewKey d"
    and "\<not> ds_closed d" and "clean_key p"
    and query: "DS_Query B NaiveQueryApply \<lparr>q_Prefix = p, q_KeysOnly = False\<rparr> d = (r, d')"
  shows "\<exists>es. r = Inr es \<and> d' = d \<and> distinct (map e_Key es) \<and>
    (\<forall>k v. (k, v) \<in> (\<lambda>e. (e_Key e, e_Value e)) ` set es \<longleftrightarrow>
       snapshot B d (ds_version d) k = Some v \<and> below p k)"
proof -
  have inv: "mem_inv B d" using run_inv assms(1,3) by blast
  let ?I = "filter (\<lambda>it. \<not> isDeleted it) (fast_forward (bt_Iter B (ds_values d)))"
  let ?e = "\<lambda>it. setEntry (key it) (val it) \<lparr>q_Prefix = p, q_KeysOnly = False\<rparr>"
  let ?es = "filter (\<lambda>e. below p (e_Key e)) (map ?e ?I)"
  have "r = Inr ?es" "d' = d" using query assms(4,5) Q by (auto simp: DS_Query_def query_laws_def)
  moreover have "sorted_wrt (\<lambda>a b. key a < key b) (fast_forward (bt_Iter B (ds_values d)))"
    using L by (simp add: btree_laws_def fast_forward_sorted)
  then have "sorted_wrt (<) (map key ?I)" by (simp add: sorted_wrt_map sorted_wrt_filter)
  then have "distinct (map key ?I)" using strict_sorted_iff by blast
  then have "distinct (map e_Key (map ?e ?I))" by (simp add: setEntry_def comp_def)
  then have "distinct (map e_Key ?es)" by (rule distinct_map_filter)
  moreover have "(k, v) \<in> (\<lambda>e. (e_Key e, e_Value e)) ` set ?es \<longleftrightarrow>
       snapshot B d (ds_version d) k = Some v \<and> below p k" for k v
  proof -
    let ?g = "ds_get B (ds_values d) k (ds_version d)"
    have "snapshot B d (ds_version d) k = Some v \<longleftrightarrow> key ?g = k \<and> k \<noteq> [] \<and> \<not> isDeleted ?g \<and> val ?g = v"
      using ds_get_key [OF L, of "ds_values d" k "ds_version d"]
      by (auto simp: snapshot_def live_def absent_def zero_item_def)
    also have "\<dots> \<longleftrightarrow> (\<exists>it. key it = k \<and> it \<in> set (fast_forward (bt_Iter B (ds_values d))) \<and> \<not> isDeleted it \<and> val it = v)"
      unfolding query_items [OF L inv] by metis
    finally have "snapshot B d (ds_version d) k = Some v \<longleftrightarrow>
        (\<exists>it. key it = k \<and> it \<in> set (fast_forward (bt_Iter B (ds_values d))) \<and> \<not> isDeleted it \<and> val it = v)" .
    moreover have "(\<lambda>e. (e_Key e, e_Value e)) ` set ?es =
        (\<lambda>it. (key it, val it)) ` {it \<in> set ?I. below p (key it)}"
      by (simp add: filter_map comp_def setEntry_def image_image)
    moreover have "(k, v) \<in> (\<lambda>it. (key it, val it)) ` {it \<in> set ?I. below p (key it)} \<longleftrightarrow>
        (\<exists>it. key it = k \<and> it \<in> set (fast_forward (bt_Iter B (ds_values d))) \<and> \<not> isDeleted it \<and> val it = v \<and> below p k)"
      by (simp only: image_iff mem_Collect_eq prod.inject set_filter Bex_def) metis
    ultimately show ?thesis by (simp only: simp_thms ex_simps(1) conj_assoc [symmetric])
  qed
  ultimately show ?thesis by (intro exI [of _ ?es]) simp
qed

text \<open>
  C28. A transaction ends once: when neither it nor the datastore is closed, every further operation
  on it after its commit, successful or not, fails with \<^verbatim>\<open>ErrTxnDiscarded\<close> and changes nothing.
\<close>

theorem txn_ends_once:
  assumes "p < length (txns d)" and "\<not> txn_closed (txn_at d p)" and "\<not> ds_closed d"
    and "Txn_Commit B F NewKey now p d = (r, d')"
  shows "Txn_Get B p k d' = (Inl ErrTxnDiscarded, d') \<and> Txn_Has B p k d' = (Inl ErrTxnDiscarded, d') \<and>
    Txn_GetSize B p k d' = (Inl ErrTxnDiscarded, d') \<and> Txn_Put B p k v d' = (Inl ErrTxnDiscarded, d') \<and> Txn_Delete B p k d' = (Inl ErrTxnDiscarded, d') \<and>
    Txn_Query B Q p q d' = (Inl ErrTxnDiscarded, d') \<and>
    Txn_Commit B F NewKey now' p d' = (Inl ErrTxnDiscarded, d') \<and> Txn_Discard B F now' p d' = d'"
proof -
  let ?r = "if readOnly (txn_at d p) then (Inr (), d) else ds_commit B NewKey (txn_at d p) d"
  have f: "txns (snd ?r) = txns d" "ds_closed (snd ?r) = ds_closed d"
    by (auto simp: commit_install split: sum.splits)
  then have t: "txn_at (snd ?r) p = txn_at d p" by (simp add: txn_at_def)
  have "discarded (txn_at d p) \<and> d' = d \<or> d' = Txn_Discard B F now p (snd ?r)"
    using assms(2,4) by (auto simp: Txn_Commit_def Let_def split: if_splits prod.splits)
  then have "discarded (txn_at d' p) \<and> \<not> txn_closed (txn_at d' p) \<and> \<not> ds_closed d'"
    using assms(1-3) f t Discard_discarded [of p "snd ?r" B F now] by (auto simp: Discard_frame)
  then show ?thesis
    by (simp add: Txn_Get_def Txn_Has_def Txn_GetSize_def Txn_Put_def Txn_Delete_def Txn_Query_def Txn_Commit_def Txn_Discard_def)
qed

text \<open>
  C14. A transaction is a store: a transaction begun on an open datastore is in a usable state of the
  store contract and starts out seeing exactly the latest version, and all its operations follow
  the contract from there.
\<close>

theorem txn_refines_store:
  assumes L: "btree_laws byKeys B" and Q: "query_laws NaiveQueryApply" and "mem_run B F NewKey d"
    and new: "NewTransaction B F now False d = (Inr p, d')"
  shows "kv_store (txn_dsrw B NaiveQueryApply p) (kv_view B p) (txn_ok B NaiveQueryApply p) \<and>
    txn_ok B NaiveQueryApply p d' \<and>
    (\<forall>k. clean_key k \<longrightarrow> kv_view B p d' k = snapshot B d (ds_version d) k)"
proof -
  have inv: "mem_inv B d" using run_inv assms(1,3) by blast
  have new': "newTransaction B F now False d = (p, d')" and "\<not> ds_closed d"
    using new by (auto simp: NewTransaction_def split: if_splits prod.splits)
  note b = begin_spec [OF L inv new']
  have ok: "txn_ok B NaiveQueryApply p d'"
    using b(1) [of OnStore] b(2-) L Q \<open>\<not> ds_closed d\<close> by (simp add: txn_ok_def keeps_def)
  have "ds_get B (bt_New B) k v = zero_item" for k v
    using L by (intro ds_get_missing) (simp_all add: vers_def btree_laws_def)
  then have "txn_view B p d' k = snapshot B d (ds_version d) k" for k
    using b(5,7) by (simp add: txn_view_def txn_item_def snapshot_def getDSVersion_def zero_item_def)
  then show ?thesis
    using ok mem_txn.kv_store_axioms by (simp add: kv_view_def)
qed

section \<open>A concrete execution\<close>

text \<open>Two transactions begun together that write the same key; the first commits.\<close>

definition w0 :: "(dsItem list, dsTxn list) Datastore" where
  "w0 = NewDatastore items_tree txns_tree"

definition w1 where "w1 = snd (NewTransaction items_tree txns_tree 0 False w0)"
definition w2 where "w2 = snd (NewTransaction items_tree txns_tree 0 False w1)"
definition w3 where "w3 = snd (Txn_Put items_tree 0 ''/a'' [1] w2)"
definition w4 where "w4 = snd (Txn_Put items_tree 1 ''/a'' [2] w3)"
definition w5 where "w5 = snd (Txn_Commit items_tree txns_tree plain_NewKey 0 0 w4)"

lemma clean_a: "clean_key ''/a''"
  by code_simp

lemma w_run:
  "mem_run items_tree txns_tree plain_NewKey w1" "mem_run items_tree txns_tree plain_NewKey w2"
  "mem_run items_tree txns_tree plain_NewKey w4"
proof -
  have 0: "mem_run items_tree txns_tree plain_NewKey w0" unfolding w0_def by (rule mem_run.Init)
  show 1: "mem_run items_tree txns_tree plain_NewKey w1"
    unfolding w1_def by (rule mem_run.Step [OF 0 mem_step.Begin])
  show 2: "mem_run items_tree txns_tree plain_NewKey w2"
    unfolding w2_def by (rule mem_run.Step [OF 1 mem_step.Begin])
  have "length (txns w2) = 2" "length (txns w3) = 2" by code_simp+
  then show "mem_run items_tree txns_tree plain_NewKey w4"
    unfolding w4_def w3_def
    by (intro mem_run.Step [OF mem_run.Step [OF 2 mem_step.Put] mem_step.Put]) (simp_all add: clean_a w3_def)
qed

lemma w_room: "room w1" "room w4"
  by (simp_all add: room_def) code_simp+

lemma w4_txns:
  "length (txns w4) = 2" "\<not> readOnly (txn_at w4 0)" "\<not> readOnly (txn_at w4 1)"
  "\<not> txn_closed (txn_at w4 0)" "\<not> discarded (txn_at w4 0)"
  "\<not> txn_closed (txn_at w4 1)" "\<not> discarded (txn_at w4 1)" "\<not> ds_closed w4"
  by code_simp+

lemma w4_commit: "Txn_Commit items_tree txns_tree plain_NewKey 0 0 w4 = (Inr (), w5)"
proof -
  have "fst (Txn_Commit items_tree txns_tree plain_NewKey 0 0 w4) = Inr ()" by code_simp
  then show ?thesis unfolding w5_def by (metis prod.collapse)
qed

theorem mem_reachable_inv_witness: "\<exists>d'. executePurge items_tree txns_tree w4 = Some d' \<and> mem_inv items_tree d'"
proof -
  obtain d' where d': "executePurge items_tree txns_tree w4 = Some d'"
    using executePurge_ends [OF items_tree_laws] by blast
  then have "mem_run items_tree txns_tree plain_NewKey d'" by (rule mem_run.Step [OF w_run(3) mem_step.Purge])
  from mem_reachable_inv [OF items_tree_laws this] d' show ?thesis by blast
qed

theorem snapshot_isolation_witness:
  "fst (Txn_Get items_tree 0 ''/a'' (snd (DS_Put items_tree txns_tree plain_NewKey 0 ''/a'' [9] w1))) = Inl ErrNotFound"
proof -
  let ?d = "snd (DS_Put items_tree txns_tree plain_NewKey 0 ''/a'' [9] w1)"
  have "others_run items_tree txns_tree plain_NewKey 0 w1 ?d"
    by (rule others_run.More [OF others_run.Done mem_step.DS_Put [OF w_room(1) clean_a]]) simp_all
  moreover have "0 < length (txns w1)" "\<not> txn_closed (txn_at ?d 0)" by code_simp+
  ultimately have "fst (Txn_Get items_tree 0 ''/a'' ?d) = fst (Txn_Get items_tree 0 ''/a'' w1)"
    using snapshot_isolation [OF items_tree_laws w_run(1)] clean_a by blast
  also have "\<dots> = Inl ErrNotFound" by code_simp
  finally show ?thesis .
qed

theorem commit_outcome_witness:
  "snapshot items_tree w5 (ds_version w5) ''/a'' = Some [1] \<and> ds_version w5 = 1"
proof -
  have nc: "\<not> conflicts items_tree 0 w4" unfolding conflicts_def by simp code_simp
  have "0 < length (txns w4)" using w4_txns(1) by simp
  from commit_outcome [OF items_tree_laws plain_laws(1) w_run(3) w_room(2) this w4_txns(4,5,2) w4_commit] nc
  have "ds_version w5 = ds_version w4 + 1 \<and> (\<forall>k. clean_key k \<longrightarrow> snapshot items_tree w5 (ds_version w5) k =
         (if k \<in> recorded items_tree 0 w4 then txn_view items_tree 0 w4 k else snapshot items_tree w4 (ds_version w4) k))"
    by argo
  moreover have "''/a'' \<in> recorded items_tree 0 w4" "txn_view items_tree 0 w4 ''/a'' = Some [1]" "ds_version w4 + 1 = 1"
    by code_simp+
  ultimately show ?thesis using clean_a by metis
qed


text \<open>The query of an open transaction returns a value committed after the transaction was begun.\<close>

definition y1 where "y1 = snd (DS_Put items_tree txns_tree plain_NewKey 0 ''/b/c'' [7] w1)"

theorem txn_query_entries_witness:
  "\<exists>es. fst (Txn_Query items_tree plain_query 0 \<lparr>q_Prefix = ''/b'', q_KeysOnly = False\<rparr> y1) = Inr es \<and>
     (''/b/c'', [7]) \<in> (\<lambda>e. (e_Key e, e_Value e)) ` set es \<and> fst (Txn_Get items_tree 0 ''/b/c'' y1) = Inl ErrNotFound"
proof -
  obtain r d' where q: "Txn_Query items_tree plain_query 0 \<lparr>q_Prefix = ''/b'', q_KeysOnly = False\<rparr> y1 = (r, d')"
    by fastforce
  have k: "clean_key ''/b/c''" "clean_key ''/b''" "below ''/b'' ''/b/c''" by code_simp+
  have run: "mem_run items_tree txns_tree plain_NewKey y1"
    unfolding y1_def by (rule mem_run.Step [OF w_run(1) mem_step.DS_Put [OF w_room(1) k(1)]])
  have y: "0 < length (txns y1)" "\<not> ds_closed y1" "\<not> discarded (txn_at y1 0)" "''/b/c'' \<notin> recorded items_tree 0 y1"
    "snapshot items_tree y1 (ds_version y1) ''/b/c'' = Some [7]" "fst (Txn_Get items_tree 0 ''/b/c'' y1) = Inl ErrNotFound"
    by code_simp+
  from txn_query_entries [OF items_tree_laws plain_laws(2) run y(1-3) k(2) q]
  obtain es where "r = Inr es" "\<forall>k v. (k, v) \<in> (\<lambda>e. (e_Key e, e_Value e)) ` set es \<longleftrightarrow> clean_key k \<and> below ''/b'' k \<and>
       (if k \<in> recorded items_tree 0 y1 then txn_view items_tree 0 y1 k else snapshot items_tree y1 (ds_version y1) k) = Some v"
    by blast
  with k y q show ?thesis by simp
qed

definition z1 where "z1 = snd (Txn_Get items_tree 1 ''/a'' w2)"
definition z2 where "z2 = snd (Txn_Put items_tree 0 ''/a'' [7] z1)"
definition z3 where "z3 = snd (Txn_Commit items_tree txns_tree plain_NewKey 0 0 z2)"

theorem missing_read_unchecked_witness:
  "snapshot items_tree z3 (ds_version z3) ''/a'' = Some [7] \<and>
   fst (Txn_Commit items_tree txns_tree plain_NewKey 0 1 z3) = Inr ()"
proof -
  obtain r r' where z: "Txn_Get items_tree 1 ''/a'' w2 = (r, z1)" "Txn_Put items_tree 0 ''/a'' [7] z1 = (r', z2)"
    unfolding z1_def z2_def by (metis prod.collapse)
  have "fst (Txn_Commit items_tree txns_tree plain_NewKey 0 0 z2) = Inr ()" by code_simp
  then have c: "Txn_Commit items_tree txns_tree plain_NewKey 0 0 z2 = (Inr (), z3)" unfolding z3_def by (metis prod.collapse)
  have r: "room w2" unfolding room_def by code_simp
  have w: "(1::nat) \<noteq> 0" "1 < length (txns w2)" "0 < length (txns w2)" "\<not> txn_closed (txn_at w2 1)" "\<not> discarded (txn_at w2 1)"
    "\<not> readOnly (txn_at w2 1)" "\<not> txn_closed (txn_at w2 0)" "\<not> discarded (txn_at w2 0)" "\<not> readOnly (txn_at w2 0)"
    by code_simp+
  have n: "''/a'' \<notin> recorded items_tree 1 w2" "\<forall>x \<in> set (bt_Iter items_tree (ds_values w2)). key x \<noteq> ''/a''"
    "recorded items_tree 1 w2 \<inter> recorded items_tree 0 w2 \<subseteq> {[]}"
    by code_simp+
  have "\<not> conflicts items_tree 1 w2" unfolding conflicts_def by simp code_simp
  from missing_read_unchecked [OF items_tree_laws plain_laws(1) w_run(2) r w clean_a n this z c] show ?thesis by blast
qed

theorem batch_commit_any_order_witness:
  "snapshot items_tree (Batch_Commit items_tree [''/a''] (Batch_Put ''/a'' [3] newBasicBatch) w4) 1 ''/a'' = Some [3]"
proof -
  have "ds_version w4 + 1 = 1" by code_simp
  with batch_commit_any_order [OF items_tree_laws w_run(3) w_room(2),
      of "Batch_Put ''/a'' [3] newBasicBatch" "[''/a'']" "''/a''"] clean_a
  show ?thesis by (simp add: Batch_Put_def newBasicBatch_def)
qed

theorem ds_query_latest_witness:
  "\<exists>es. fst (DS_Query items_tree plain_query \<lparr>q_Prefix = ''/a'', q_KeysOnly = False\<rparr> w4) = Inr es \<and> distinct (map e_Key es)"
proof -
  obtain r d' where "DS_Query items_tree plain_query \<lparr>q_Prefix = ''/a'', q_KeysOnly = False\<rparr> w4 = (r, d')"
    by fastforce
  with ds_query_latest [OF items_tree_laws plain_laws(2) w_run(3) w4_txns(8) clean_a this]
  show ?thesis by auto
qed

theorem txn_ends_once_witness: "Txn_Put items_tree 0 ''/b'' [4] w5 = (Inl ErrTxnDiscarded, w5)"
proof -
  have "(0::nat) < length (txns w4)" by (simp add: w4_txns)
  from txn_ends_once [OF this w4_txns(4,8) w4_commit] show ?thesis by blast
qed

theorem txn_refines_store_witness:
  "\<exists>p d'. NewTransaction items_tree txns_tree 3 False w4 = (Inr p, d') \<and> txn_ok items_tree plain_query p d'"
proof -
  obtain p d' where new: "NewTransaction items_tree txns_tree 3 False w4 = (Inr p, d')"
    using w4_txns(8) by (simp add: NewTransaction_def newTransaction_def Let_def)
  from txn_refines_store [OF items_tree_laws plain_laws(2) w_run(3) this] new show ?thesis by blast
qed

end
