(* ===== verification/Replicas.thy ===== *)
theory Replicas
  imports Document MemRun
begin

text \<open>
  Documents kept in transactions of the in-memory datastore: the properties of the replicated data
  types for that store, and the round trips of their deltas.
\<close>

section \<open>Properties\<close>

text \<open>
  C1. Strong convergence: two replicas of a document, in whatever datastores, that start from the
  same document and have received the same field and document deltas, in whatever orders and
  however often each, both merge without error and then hold the same document: the same marker
  and, for every field, the same priority and value, deletions included.
\<close>

theorem document_converges:
  fixes ops ops' :: "'c doc_op list"
  assumes "newkey_laws NewKey" and "doc_wf k" and "txn_ok B Q p d" and "txn_ok B' Q' p' d'"
    and "doc_inv k (kv_view B p d)" and "doc_inv k (kv_view B' p' d')"
    and "abs_doc k (kv_view B p d) = abs_doc k (kv_view B' p' d')"
    and "\<forall>op \<in> set ops. op_clean op" and "set ops = set ops'"
  shows "\<exists>e e'. run_ops NewKey (txn_dsrw B Q p) k sv ops d = (Inr (), e) \<and>
    run_ops NewKey (txn_dsrw B' Q' p') k sv' ops' d' = (Inr (), e') \<and>
    abs_doc k (kv_view B p e) = abs_doc k (kv_view B' p' e')"
proof -
  note R = kv_store.run_ops_refine [OF mem_txn.kv_store_axioms _ assms(1,2)]
  obtain e where e: "run_ops NewKey (txn_dsrw B Q p) k sv ops d = (Inr (), e)"
    "abs_doc k (kv_view B p e) = fold apply_op ops (abs_doc k (kv_view B p d))"
    using R [OF assms(3,5,8)] by blast
  have "\<forall>op \<in> set ops'. op_clean op" using assms(8,9) by simp
  then obtain e' where e': "run_ops NewKey (txn_dsrw B' Q' p') k sv' ops' d' = (Inr (), e')"
    "abs_doc k (kv_view B' p' e') = fold apply_op ops' (abs_doc k (kv_view B' p' d'))"
    using R [OF assms(4,6)] by blast
  show ?thesis using e e' assms(7) apply_ops_set [OF assms(9)] by metis
qed

text \<open>
  C12. The last writer wins: a field of a live document that has received deltas, in whatever order
  and however often, reads as the value of the greatest one, by priority first and then by the
  bytes of the value, not by the identity of the delta.
\<close>

theorem register_reads_greatest:
  fixes ds :: "LWWRegDelta list"
  assumes "newkey_laws NewKey" and "doc_wf k" and "clean_part f" and "txn_ok B Q p d" and "doc_inv k (kv_view B p d)"
    and "\<not> marked_deleted k (kv_view B p d)" and "kv_view B p d (vkey k f) = None" and "kv_view B p d (pkey k f) = None"
    and "ds \<noteq> []" and "\<forall>x \<in> set ds. 0 < lw_Priority x"
  shows "\<exists>d'. run_ops NewKey (txn_dsrw B Q p) k sv (map (FieldDelta f) ds :: 'c doc_op list) d = (Inr (), d') \<and>
    fst (Reg_Value NewKey (NewLWWRegister (txn_dsrw B Q p) sv (WithFieldId k f) n) d') =
      Inr (snd (Max ((\<lambda>x. (lw_Priority x, lw_Data x)) ` set ds)))"
proof -
  let ?D = "txn_dsrw B Q p" and ?view = "kv_view B p" and ?g = "\<lambda>x. (lw_Priority x, lw_Data x)"
  have "(?view d (vkey k f) = None \<and> ?view d (pkey k f) = None \<and> ds \<noteq> []) \<or> (\<exists>v. ?view d (vkey k f) = Some (LWW_REGISTER # v))"
    using assms(7-9) by simp
  from kv_store.field_deltas_spec [OF mem_txn.kv_store_axioms assms(4,1-3,5,6,10) this, where sv = sv and ?'c = 'c]
  obtain d' v where d': "run_ops NewKey ?D k sv (map (FieldDelta f) ds :: 'c doc_op list) d = (Inr (), d')"
    "txn_ok B Q p d'" "\<not> marked_deleted k (?view d')" "?view d' (vkey k f) = Some (LWW_REGISTER # v)"
    "(stored_prio k (?view d') f, stored_value k (?view d') f) =
      fold (\<lambda>x c. lww c (?g x)) ds (stored_prio k (?view d) f, stored_value k (?view d) f)"
    by blast
  have "(0 :: u64, [] :: bytes) \<le> ?g x" if "x \<in> set ds" for x
    using assms(10) that by (auto simp: less_eq_prod_def)
  then have "fold (\<lambda>x c. lww c (?g x)) ds (stored_prio k (?view d) f, stored_value k (?view d) f) = Max (?g ` set ds)"
    using assms(6-9) by (intro fold_lww_Max) (simp_all add: stored_prio_def stored_value_def tkey_def)
  with d'(5) have "stored_value k (?view d') f = snd (Max (?g ` set ds))" by (simp add: prod_eq_iff)
  then show ?thesis
    using d'(1) kv_store.Reg_Value_spec [OF mem_txn.kv_store_axioms d'(2) assms(1-3) d'(3,4), of sv n] by auto
qed

text \<open>
  C13. A deletion is final: once a replica has merged a deleting delta of a document, whatever other
  deltas of the document and its fields came before or after it, no field of it can be read.
\<close>

theorem deletion_final:
  fixes ops :: "'c doc_op list"
  assumes "newkey_laws NewKey" and "doc_wf k" and "clean_part f" and "txn_ok B Q p d" and "doc_inv k (kv_view B p d)"
    and "\<forall>op \<in> set ops. op_clean op" and "DocDelta c \<in> set ops" and "IsDeleted (cd_Status c)"
  shows "\<exists>d'. run_ops NewKey (txn_dsrw B Q p) k sv ops d = (Inr (), d') \<and>
    fst (Reg_Value NewKey (NewLWWRegister (txn_dsrw B Q p) sv (WithFieldId k f) n) d') = Inl ErrNotFound"
proof -
  obtain d' where d': "run_ops NewKey (txn_dsrw B Q p) k sv ops d = (Inr (), d')" "txn_ok B Q p d'"
    "doc_inv k (kv_view B p d')" "abs_doc k (kv_view B p d') = fold apply_op ops (abs_doc k (kv_view B p d))"
    using kv_store.run_ops_refine [OF mem_txn.kv_store_axioms assms(4,1,2,5,6)] by blast
  have "fst (fold apply_op ops (abs_doc k (kv_view B p d))) = Some [DeletedObjectMarker]"
    using assms(7,8) by (intro deletion_sticks) blast
  with d'(4) have "fst (abs_doc k (kv_view B p d')) = Some [DeletedObjectMarker]" by simp
  then have "marked_deleted k (kv_view B p d')" by (simp add: abs_doc_def marked_deleted_def)
  then show ?thesis
    using d' kv_store.deleted_field_hidden [OF mem_txn.kv_store_axioms d'(2) assms(1-3) d'(3)] by blast
qed

section \<open>A concrete replica\<close>

definition w_key :: DataStoreKey where
  "w_key = \<lparr>dk_CollectionID = ''1'', dk_InstanceType = [], dk_DocKey = ''bae'', dk_FieldId = []\<rparr>"

definition w_delta :: "u64 \<Rightarrow> bytes \<Rightarrow> LWWRegDelta" where
  "w_delta prio data =
     \<lparr>lw_SchemaVersionID = [], lw_Priority = prio, lw_Data = data, lw_DocKey = [], lw_FieldName = ''name''\<rparr>"

definition w_delete :: "nat CompositeDAGDelta" where
  "w_delete = \<lparr>cd_SchemaVersionID = [], cd_Priority = 3, cd_Data = [], cd_DocKey = [], cd_SubDAGs = [],
     cd_Status = Deleted, cd_FieldName = []\<rparr>"

lemma w_key_wf: "doc_wf w_key" "clean_part ''2''"
  by code_simp+

lemma w1_view: "kv_view items_tree 0 w1 = (\<lambda>_. None)"
proof -
  have "ds_values w1 = []" "ops (txn_at w1 0) = []" by code_simp+
  moreover have "ds_get items_tree [] k v = zero_item" for k v
    by (rule ds_get_missing [OF items_tree_laws]) (simp add: vers_def list_tree_def canon_def)
  ultimately show ?thesis
    by (simp add: kv_view_def txn_view_def txn_item_def live_def absent_def zero_item_def fun_eq_iff)
qed

lemma w1_ok: "txn_ok items_tree plain_query 0 w1"
proof -
  have "\<not> ds_closed w1" "0 < length (txns w1)" "\<not> txn_closed (txn_at w1 0)" "\<not> discarded (txn_at w1 0)"
    "\<not> readOnly (txn_at w1 0)" "dsVersion (txn_at w1 0) = ds_version w1"
    by code_simp+
  then show ?thesis
    using items_tree_laws plain_laws(2) run_inv [OF w_run(1) items_tree_laws] by (simp add: txn_ok_def)
qed

lemma w1_inv: "doc_inv k (kv_view items_tree 0 w1)" "\<not> marked_deleted k (kv_view items_tree 0 w1)"
  by (simp_all add: w1_view doc_inv_def marked_deleted_def)

theorem document_converges_witness:
  "\<exists>e e'. run_ops plain_NewKey (txn_dsrw items_tree plain_query 0) w_key []
      [FieldDelta ''2'' (w_delta 1 [7]), DocDelta w_delete] w1 = (Inr (), e) \<and>
    run_ops plain_NewKey (txn_dsrw items_tree plain_query 0) w_key []
      [DocDelta w_delete, FieldDelta ''2'' (w_delta 1 [7]), DocDelta w_delete] w1 = (Inr (), e') \<and>
    abs_doc w_key (kv_view items_tree 0 e) = abs_doc w_key (kv_view items_tree 0 e')"
  by (rule document_converges [OF plain_laws(1) w_key_wf(1) w1_ok w1_ok w1_inv(1) w1_inv(1) refl])
    (auto simp: w_key_wf)

theorem register_reads_greatest_witness:
  "\<exists>d'. run_ops plain_NewKey (txn_dsrw items_tree plain_query 0) w_key []
      (map (FieldDelta ''2'') [w_delta 2 [5], w_delta 1 [9]] :: nat doc_op list) w1 = (Inr (), d') \<and>
    fst (Reg_Value plain_NewKey (NewLWWRegister (txn_dsrw items_tree plain_query 0) [] (WithFieldId w_key ''2'') []) d') = Inr [5]"
proof -
  have "Max ((\<lambda>x. (lw_Priority x, lw_Data x)) ` set [w_delta 2 [5], w_delta 1 [9]]) = (2, [5])"
    by code_simp
  then show ?thesis
    using register_reads_greatest [OF plain_laws(1) w_key_wf w1_ok w1_inv, of "[w_delta 2 [5], w_delta 1 [9]]" "[]" "[]"]
    by (simp add: w1_view w_delta_def)
qed

theorem deletion_final_witness:
  "\<exists>d'. run_ops plain_NewKey (txn_dsrw items_tree plain_query 0) w_key []
      [FieldDelta ''2'' (w_delta 1 [7]), DocDelta w_delete, FieldDelta ''2'' (w_delta 5 [8])] w1 = (Inr (), d') \<and>
    fst (Reg_Value plain_NewKey (NewLWWRegister (txn_dsrw items_tree plain_query 0) [] (WithFieldId w_key ''2'') []) d') = Inl ErrNotFound"
  by (rule deletion_final [OF plain_laws(1) w_key_wf w1_ok w1_inv(1), of _ w_delete])
    (auto simp: w_key_wf w_delete_def IsDeleted_def Deleted_def)

end
