(* ===== verification/Packages.thy ===== *)
theory Packages
  imports ClockSpec ListTree
begin

text \<open>
  Concrete packages that satisfy the laws assumed of the third-party code, so that what is proved
  under those laws can be applied: keys are concatenated, a CID is a number, greater than the CIDs
  a node links to, and deltas are written field by field with every byte escaped.
\<close>

section \<open>Datastore keys\<close>

definition plain_ds :: ds_ops where
  "plain_ds = \<lparr>pk_NewKey = plain_NewKey, pk_ChildString = (\<lambda>p k. p @ k), pt_ConvertKey = (\<lambda>p k. p @ k),
     pt_InvertKey = (\<lambda>p k. drop (length p) k), pk_NaiveQueryApply = plain_query\<rparr>"

lemma plain_ds_laws: "ds_laws plain_ds"
  by (simp add: ds_laws_def plain_ds_def plain_laws)

section \<open>CIDs, blocks and nodes\<close>

definition nat_cid :: "nat cid_ops" where
  "nat_cid = \<lparr>cid_String = format_uint, cid_Decode = (\<lambda>s. Inr (digits_value s)),
     cid_Bytes = (\<lambda>c. to_bytes (format_uint c))\<rparr>"

lemma digits_clean: "clean_part (format_uint n)"
proof -
  have "CHR ''.'' \<notin> set (format_uint n)" by (rule not_digit_notin) (simp add: is_digit_def)
  then have "format_uint n \<noteq> ''.''" "format_uint n \<noteq> ''..''" by (metis list.set_intros(1))+
  then show ?thesis by (simp add: clean_part_def key_part_def)
qed

lemma nat_cid_laws: "cid_laws nat_cid" "clean_part (cid_String nat_cid c)"
  by (simp_all add: cid_laws_def nat_cid_def inj_def to_bytes_eq_iff digits_clean)

definition nat_block :: "nat block_ops" where
  "nat_block = \<lparr>bo_Defined = (\<lambda>c. True), bo_DsKey = (\<lambda>c. CHR ''/'' # format_uint c), bo_Sum = (\<lambda>c b. Inr c),
     bo_NewBlockWithCid = (\<lambda>b c. Inr \<lparr>blk_Cid = c, blk_RawData = b\<rparr>)\<rparr>"

lemma nat_block_laws: "block_laws nat_block"
  by (simp add: block_laws_def nat_block_def clean_key_Cons digits_clean)

type_synonym plain_node = "bytes \<times> nat DAGLink list"

definition plain_dag :: "(nat, plain_node) dag_ops" where
  "plain_dag = \<lparr>dag_NodeWithData = (\<lambda>b. (b, [])), dag_SetCidBuilder = Inr,
     dag_AddRawLink = (\<lambda>name c n. Inr (fst n, snd n @ [\<lparr>dl_Name = name, dl_Cid = c\<rparr>])),
     dag_Data = fst, dag_Links = snd, dag_Cid = (\<lambda>n. Suc (sum_list (map dl_Cid (snd n)))), dag_RawData = fst\<rparr>"

lemma plain_dag_laws: "dag_laws plain_dag"
proof -
  have "dl_Cid l \<noteq> Suc (sum_list (map dl_Cid ls))" if "l \<in> set ls" for l :: "nat DAGLink" and ls
  proof -
    have "dl_Cid l \<le> sum_list (map dl_Cid ls)" using that by (intro member_le_sum_list) simp_all
    then show ?thesis by simp
  qed
  then show ?thesis by (simp add: dag_laws_def plain_dag_def)
qed

section \<open>Deltas as bytes\<close>

fun enc_bytes :: "bytes \<Rightarrow> bytes" where
  "enc_bytes [] = [0]"
| "enc_bytes (b # bs) = 1 # b # enc_bytes bs"

fun dec_bytes :: "bytes \<Rightarrow> bytes \<times> bytes" where
  "dec_bytes (t # b # r) = (if t = 0 then ([], b # r) else (case dec_bytes r of (x, r') \<Rightarrow> (b # x, r')))"
| "dec_bytes r = ([], [])"

lemma dec_enc: "r \<noteq> [] \<Longrightarrow> dec_bytes (enc_bytes b @ r) = (b, r)"
  by (induction b) (auto simp: neq_Nil_conv)

fun dec_fields :: "nat \<Rightarrow> bytes \<Rightarrow> bytes list" where
  "dec_fields 0 r = []"
| "dec_fields (Suc n) r = (case dec_bytes r of (x, r') \<Rightarrow> x # dec_fields n r')"

definition enc_fields :: "bytes list \<Rightarrow> bytes" where
  "enc_fields bs = concat (map enc_bytes bs) @ [0]"

lemma dec_fields_enc: "dec_fields (length bs) (enc_fields bs) = bs"
proof (induction bs)
  case (Cons b bs)
  have "dec_bytes (enc_bytes b @ enc_fields bs) = (b, enc_fields bs)" by (rule dec_enc) (simp add: enc_fields_def)
  with Cons show ?case by (simp add: enc_fields_def)
qed simp

definition plain_codec :: codec_ops where
  "plain_codec =
     \<lparr>enc_lww = (\<lambda>d. Inr (enc_fields [to_bytes (lw_SchemaVersionID d), put_uvarint (lw_Priority d), lw_Data d, lw_DocKey d, to_bytes (lw_FieldName d)])),
      dec_lww = (\<lambda>b. let f = dec_fields 5 b in
        Inr \<lparr>lw_SchemaVersionID = of_bytes (f ! 0), lw_Priority = fst (uvarint (f ! 1)), lw_Data = f ! 2, lw_DocKey = f ! 3, lw_FieldName = of_bytes (f ! 4)\<rparr>),
      enc_comp = (\<lambda>d. Inr (enc_fields [to_bytes (cw_SchemaVersionID d), put_uvarint (cw_Priority d), cw_Data d, cw_DocKey d, [cw_Status d], to_bytes (cw_FieldName d)])),
      dec_comp = (\<lambda>b. let f = dec_fields 6 b in
        Inr \<lparr>cw_SchemaVersionID = of_bytes (f ! 0), cw_Priority = fst (uvarint (f ! 1)), cw_Data = f ! 2, cw_DocKey = f ! 3, cw_Status = hd (f ! 4), cw_FieldName = of_bytes (f ! 5)\<rparr>)\<rparr>"

lemma dec_fields_5: "dec_fields 5 (enc_fields [a, b, c, d, e]) = [a, b, c, d, e]"
  using dec_fields_enc [of "[a, b, c, d, e]"] by (simp add: eval_nat_numeral)

lemma dec_fields_6: "dec_fields 6 (enc_fields [a, b, c, d, e, f]) = [a, b, c, d, e, f]"
  using dec_fields_enc [of "[a, b, c, d, e, f]"] by (simp add: eval_nat_numeral)

lemma plain_codec_laws: "codec_laws plain_codec"
  by (simp add: codec_laws_def plain_codec_def Let_def dec_fields_5 dec_fields_6)

definition plain_pkgs :: "(nat, plain_node) pkgs" where
  "plain_pkgs = \<lparr>x_ds = plain_ds, x_cid = nat_cid, x_block = nat_block, x_dag = plain_dag, x_codec = plain_codec\<rparr>"

lemma plain_pkgs_laws: "clock_laws plain_pkgs"
  by (simp add: clock_laws_def plain_pkgs_def plain_ds_laws nat_cid_laws nat_block_laws plain_dag_laws plain_codec_laws)

end
