(* ===== verification/MerkleRun.thy ===== *)
theory MerkleRun
  imports MerkleCrdt Replicas Packages
begin

text \<open>
  The Merkle CRDTs on a transaction of the in-memory datastore, through the stores of its
  multistore: what a local update, the processing of a node and a deletion do to the heads, the
  blocks and the document.
\<close>

section \<open>The contracts on a transaction\<close>

interpretation mem_prefixed: kv_store "prefixed L (txn_dsrw B Q p) P" "\<lambda>d. sub_view P (kv_view B p d)"
    "\<lambda>d. txn_ok B Q p d \<and> ds_laws L \<and> clean_key P \<and> True"
  for L :: ds_ops and B :: "(dsItem, 't) btree_ops" and Q :: "Query \<Rightarrow> Entry list \<Rightarrow> Entry list" and p :: nat and P :: string
  by (rule kv_store.prefixed_kv [OF mem_txn.kv_store_axioms]) simp

interpretation mem_register: replicated "txn_dsrw B Q p" "kv_view B p"
    "\<lambda>d. txn_ok B Q p d \<and> clock_laws X \<and> doc_wf k \<and> clean_part f"
    "reg_data X (NewLWWRegister (Datastore_of (MultiStoreFrom (x_ds X) (txn_dsrw B Q p))) sv (WithFieldId k f) n)"
    "doc_inv k" "\<lambda>w. w" "\<lambda>d w. case d of LWWDelta x \<Rightarrow> merge_field k w f (lw_Priority x, lw_Data x) | _ \<Rightarrow> w"
    "\<lambda>d. \<exists>x. d = LWWDelta x"
  for X :: "('c, 'n) pkgs" and B :: "(dsItem, 't) btree_ops" and Q :: "Query \<Rightarrow> Entry list \<Rightarrow> Entry list" and p :: nat
    and k :: DataStoreKey and f sv n :: string
  by (rule kv_store.register_replicated [OF mem_txn.kv_store_axioms])

interpretation mem_composite: replicated "txn_dsrw B Q p" "kv_view B p"
    "\<lambda>d. txn_ok B Q p d \<and> clock_laws X \<and> doc_wf k"
    "comp_data X (NewCompositeDAG (Datastore_of (MultiStoreFrom (x_ds X) (txn_dsrw B Q p))) sv k n)"
    "doc_inv k" "abs_doc k" "\<lambda>d. case d of CompositeDelta x \<Rightarrow> apply_op (DocDelta x) | _ \<Rightarrow> id"
    "\<lambda>d. \<exists>x. d = CompositeDelta x"
  for X :: "('c, 'n) pkgs" and B :: "(dsItem, 't) btree_ops" and Q :: "Query \<Rightarrow> Entry list \<Rightarrow> Entry list" and p :: nat
    and k :: DataStoreKey and sv n :: string
  by (rule kv_store.composite_replicated [OF mem_txn.kv_store_axioms])

section \<open>Properties\<close>

text \<open>
  C7. A field that is set locally to one value after the other reads as the last of them. However
  many heads its DAG had, it then has a single one, as many levels above the highest old head as
  values were set; the heights do not wrap as long as they fit in 64 bits.
\<close>

theorem register_local_history:
  fixes X :: "('c, 'n) pkgs"
  assumes "clock_laws X" and "txn_ok B Q p d" and "doc_wf k" and "clean_part f"
    and "ms = MultiStoreFrom (x_ds X) (txn_dsrw B Q p)" and "ns = ToHeadStoreKey (WithFieldId k f)"
    and "m = NewMerkleLWWRegister X (Datastore_of ms) (Headstore ms) (DAGstore ms) sv (WithFieldId k f) n"
    and "heads_inv X ns (sub_view ''/db/heads'' (kv_view B p d))" and "doc_inv k (sub_view ''/db/data'' (kv_view B p d))"
    and "\<not> marked_deleted k (sub_view ''/db/data'' (kv_view B p d))"
    and "stored_prio k (sub_view ''/db/data'' (kv_view B p d)) f \<le> top_height X ns (sub_view ''/db/heads'' (kv_view B p d))"
    and "vs \<noteq> []" and "unat (top_height X ns (sub_view ''/db/heads'' (kv_view B p d))) + length vs < 2 ^ 64"
  shows "\<exists>c h d'. set_values X m vs d = (Inr (), d') \<and>
    head_map X ns (sub_view ''/db/heads'' (kv_view B p d')) = [c \<mapsto> h] \<and>
    unat h = unat (top_height X ns (sub_view ''/db/heads'' (kv_view B p d))) + length vs \<and>
    fst (ML_Value X m d') = Inr (last vs)"
  using kv_store.set_values_spec [OF mem_txn.kv_store_axioms, OF assms(2,1,3,4,6,8-13), of sv n] unfolding assms(5,7) by blast

text \<open>
  C8. Processing a node of a field's DAG whose links do not include its root asks for exactly the
  linked blocks that are not stored, and the root takes the place of the heads it links to: it
  becomes a head when the node starts a DAG or links to a head or a stored block, and otherwise the
  heads stay as they are until its children have been processed.
\<close>

theorem processed_node_heads:
  fixes X :: "('c, 'n) pkgs" and node :: 'n
  assumes "clock_laws X" and "txn_ok B Q p d" and "doc_wf k" and "clean_part f"
    and "ms = MultiStoreFrom (x_ds X) (txn_dsrw B Q p)" and "ns = ToHeadStoreKey (WithFieldId k f)"
    and "mc = NewMerkleClock (Headstore ms) (DAGstore ms) ns (reg_data X (NewLWWRegister (Datastore_of ms) sv (WithFieldId k f) n))"
    and "doc_inv k (sub_view ''/db/data'' (kv_view B p d))"
    and "heads = head_map X ns (sub_view ''/db/heads'' (kv_view B p d))"
    and "known = (\<lambda>c. sub_view ''/db/blocks'' (kv_view B p d) (bo_DsKey (x_block X) c) \<noteq> None)"
    and "links = dag_Links (x_dag X) node" and "root \<notin> dl_Cid ` set links" and "\<forall>c \<in> dom heads. known c"
  shows "\<exists>d'. ProcessNode X mc root prio (LWWDelta x) node d = (Inr (filter (\<lambda>c. \<not> known c) (map dl_Cid links)), d') \<and>
    head_map X ns (sub_view ''/db/heads'' (kv_view B p d')) =
      (if (\<forall>l \<in> set links. dl_Name l \<noteq> ''_head'') \<or> (\<exists>l \<in> set links. known (dl_Cid l))
       then (heads |` (- dl_Cid ` set links))(root \<mapsto> prio) else heads)"
proof -
  let ?cs = "map dl_Cid links" and ?m = "first_head root prio links heads"
  have nsw: "ns_wf ns" using ns_wf_field [OF assms(3,4)] assms(6) by simp
  have r: "root \<notin> set ?cs" using assms(12) by simp
  have m: "\<forall>c \<in> dom ?m. known c \<or> c = root" using assms(13) by (auto simp: first_head_def)
  note ch = link_children_unknown [OF r m, of prio]
  have "fold (link_head root prio known) ?cs ?m =
      (if (\<forall>l \<in> set links. dl_Name l \<noteq> ''_head'') \<or> (\<exists>l \<in> set links. known (dl_Cid l))
       then (heads |` (- dl_Cid ` set links))(root \<mapsto> prio) else heads)"
    (is "?l = ?r")
  proof (cases "\<exists>c \<in> set ?cs. c \<in> dom ?m \<or> known c")
    case True
    then have "\<exists>l \<in> set links. known (dl_Cid l)" using r m by auto
    moreover have "(?m |` (- set ?cs))(root \<mapsto> prio) = (heads |` (- dl_Cid ` set links))(root \<mapsto> prio)"
      by (auto simp: first_head_def restrict_map_def fun_eq_iff)
    ultimately show ?thesis using link_head_heads [OF r, of prio known ?m] True by simp
  next
    case False
    then have "heads |` (- dl_Cid ` set links) = heads"
      by (auto simp: first_head_def restrict_map_def fun_eq_iff dom_def split: if_splits)
    moreover have "\<not> (\<exists>l \<in> set links. known (dl_Cid l))" using False by auto
    ultimately show ?thesis
      using link_head_heads [OF r, of prio known ?m] False by (auto simp: first_head_def list_ex_iff)
  qed
  with ch show ?thesis
    using mem_register.ProcessNode_step [of B Q p d X k f X ns "LWWDelta x" sv n root prio node] assms(1-4,8) nsw
    unfolding assms(5,7,9,10,11) by (auto simp: heads_upd_def)
qed

text \<open>
  C19. A delta put into a node is read back from it. A register's delta comes back as it was; a
  composite's comes back with all its fields, but its links are the links of the node, the head
  links \<^verbatim>\<open>_head\<close> included: only links named \<^verbatim>\<open>head\<close>, which no node has, are left out.
\<close>

theorem delta_round_trip:
  fixes X :: "('c, 'n) pkgs"
  assumes "clock_laws X" and "makeNode X (Some delta) heads = Inr nd"
  shows "case delta of
      LWWDelta d \<Rightarrow> Reg_DeltaDecode (x_codec X) (x_dag X) (ProtoNode nd) = Inr (LWWDelta d)
    | CompositeDelta d \<Rightarrow>
        (\<exists>links. Comp_DeltaDecode (x_codec X) (x_dag X) (ProtoNode nd) = Inr (CompositeDelta (d\<lparr>cd_SubDAGs := links\<rparr>)) \<and>
           set links = (\<lambda>h. \<lparr>dl_Name = ''_head'', dl_Cid = h\<rparr>) ` set heads \<union> {l \<in> set (cd_SubDAGs d). dl_Name l \<noteq> ''head''})"
proof -
  obtain n' where "makeNode X (Some delta) heads = Inr n'" and m: "Marshal (x_codec X) delta = Inr (dag_Data (x_dag X) n')"
    and l: "set (dag_Links (x_dag X) n') = (\<lambda>h. \<lparr>dl_Name = ''_head'', dl_Cid = h\<rparr>) ` set heads \<union> set (delta_links (Some delta))"
    using makeNode_spec [OF assms(1), of delta heads] by blast
  then have n: "n' = nd" using assms(2) by simp
  have dec: "enc_lww (x_codec X) x = Inr b \<Longrightarrow> dec_lww (x_codec X) b = Inr x"
    "enc_comp (x_codec X) y = Inr b \<Longrightarrow> dec_comp (x_codec X) b = Inr y" for x y b
    using clock_lawsD(6) [OF assms(1)] unfolding codec_laws_def by (metis sum.inject(2))+
  show ?thesis
  proof (cases delta)
    case (LWWDelta d)
    then show ?thesis using m dec(1) by (simp add: n Reg_DeltaDecode_def)
  next
    case (CompositeDelta d)
    let ?links = "filter (\<lambda>link. dl_Name link \<noteq> ''head'') (dag_Links (x_dag X) nd)"
    have "set ?links = (\<lambda>h. \<lparr>dl_Name = ''_head'', dl_Cid = h\<rparr>) ` set heads \<union> {l \<in> set (cd_SubDAGs d). dl_Name l \<noteq> ''head''}"
      using l CompositeDelta by (auto simp: n)
    moreover have "Comp_DeltaDecode (x_codec X) (x_dag X) (ProtoNode nd) = Inr (CompositeDelta (d\<lparr>cd_SubDAGs := ?links\<rparr>))"
      using m dec(2) CompositeDelta by (simp add: n Comp_DeltaDecode_def)
    ultimately show ?thesis using CompositeDelta by auto
  qed
qed

text \<open>The four stores a multistore makes of its root.\<close>

definition stores_of :: "'s multistore \<Rightarrow> 's DSReaderWriter list" where
  "stores_of ms = [Systemstore ms, Datastore_of ms, Headstore ms, bs_store (ds_Blockstore (DAGstore ms))]"

lemma stores_of_prefixed:
  assumes "ds_laws L" and "i < 4"
  shows "stores_of (MultiStoreFrom L D) ! i = prefixed L D (store_prefixes ! i)" and "store_prefixes ! i \<in> set store_prefixes"
proof -
  have "stores_of (MultiStoreFrom L D) = map (prefixed L D) store_prefixes" and "length store_prefixes = 4"
    by (simp_all add: stores_of_def store_prefixes_def MultiStoreFrom_stores [OF assms(1)] NewDAGStore_def NewBlockstore_def)
  with assms(2) show "stores_of (MultiStoreFrom L D) ! i = prefixed L D (store_prefixes ! i)"
    and "store_prefixes ! i \<in> set store_prefixes" by simp_all
qed

lemma store_prefixes_distinct: "i < 4 \<Longrightarrow> j < 4 \<Longrightarrow> i \<noteq> j \<Longrightarrow> store_prefixes ! i \<noteq> store_prefixes ! j"
  by (subst nth_eq_iff_index_eq) (simp_all add: store_prefixes_def)

lemma store_read:
  assumes "ds_laws L" and "txn_ok B Q p d" and "P \<in> set store_prefixes" and "clean_key k"
  shows "fst (ds_Get (prefixed L (txn_dsrw B Q p) P) k d) =
    (case sub_view P (kv_view B p d) k of None \<Rightarrow> Inl ErrNotFound | Some v \<Rightarrow> Inr v)"
  using kv_store.Get [OF mem_prefixed.kv_store_axioms [of L B Q p P] _ assms(4), of d] assms store_prefix_clean by auto

lemma store_writes:
  assumes "ds_laws L" and "txn_ok B Q p d" and P: "P \<in> set store_prefixes" and "clean_key k"
  obtains d1 d2 where "ds_Put (prefixed L (txn_dsrw B Q p) P) k v d = (Inr (), d1)" and "txn_ok B Q p d1"
    and "sub_view P (kv_view B p d1) = (sub_view P (kv_view B p d))(k \<mapsto> v)"
    and "\<And>P'. P' \<in> set store_prefixes \<Longrightarrow> P' \<noteq> P \<Longrightarrow> sub_view P' (kv_view B p d1) = sub_view P' (kv_view B p d)"
    and "ds_Delete (prefixed L (txn_dsrw B Q p) P) k d = (Inr (), d2)" and "txn_ok B Q p d2"
    and "sub_view P (kv_view B p d2) = (sub_view P (kv_view B p d))(k := None)"
    and "\<And>P'. P' \<in> set store_prefixes \<Longrightarrow> P' \<noteq> P \<Longrightarrow> sub_view P' (kv_view B p d2) = sub_view P' (kv_view B p d)"
proof -
  note kv = kv_store.store_kv [OF mem_txn.kv_store_axioms [of B Q p] P, of L "other_views P (kv_view B p d)"]
  have ok: "txn_ok B Q p d \<and> ds_laws L \<and> clean_key P \<and> other_views P (kv_view B p d) = other_views P (kv_view B p d)"
    using assms(1,2) store_prefix_clean [OF P] by simp
  obtain d1 where d1: "ds_Put (prefixed L (txn_dsrw B Q p) P) k v d = (Inr (), d1)"
    "txn_ok B Q p d1 \<and> ds_laws L \<and> clean_key P \<and> other_views P (kv_view B p d1) = other_views P (kv_view B p d)"
    "sub_view P (kv_view B p d1) = (sub_view P (kv_view B p d))(k \<mapsto> v)"
    using kv_store.PutE [OF kv, OF ok assms(4)] .
  obtain d2 where d2: "ds_Delete (prefixed L (txn_dsrw B Q p) P) k d = (Inr (), d2)"
    "txn_ok B Q p d2 \<and> ds_laws L \<and> clean_key P \<and> other_views P (kv_view B p d2) = other_views P (kv_view B p d)"
    "sub_view P (kv_view B p d2) = (sub_view P (kv_view B p d))(k := None)"
    using kv_store.DeleteE [OF kv, OF ok assms(4)] .
  show thesis using that [OF d1(1) _ d1(3) _ d2(1) _ d2(3)] d1(2) d2(2) other_viewsD by metis
qed

text \<open>
  C18. The four stores of a multistore do not interfere: a write or a deletion through one of them
  succeeds, changes what that store returns for its key and for no other key, and changes nothing
  that another of the stores returns.
\<close>

theorem multistore_isolated:
  assumes L: "ds_laws L" and ok: "txn_ok B Q p d" and k: "clean_key k" and k': "clean_key k'"
    and ms: "ms = MultiStoreFrom L (txn_dsrw B Q p)" and i: "i < 4" and j: "j < 4" and "i \<noteq> j"
    and put: "ds_Put (stores_of ms ! i) k v d = (r1, d1)" and del: "ds_Delete (stores_of ms ! i) k d = (r2, d2)"
  shows "r1 = Inr () \<and> txn_ok B Q p d1 \<and>
    fst (ds_Get (stores_of ms ! i) k' d1) = (if k' = k then Inr v else fst (ds_Get (stores_of ms ! i) k' d)) \<and>
    fst (ds_Get (stores_of ms ! j) k' d1) = fst (ds_Get (stores_of ms ! j) k' d) \<and>
    r2 = Inr () \<and> txn_ok B Q p d2 \<and>
    fst (ds_Get (stores_of ms ! i) k' d2) = (if k' = k then Inl ErrNotFound else fst (ds_Get (stores_of ms ! i) k' d)) \<and>
    fst (ds_Get (stores_of ms ! j) k' d2) = fst (ds_Get (stores_of ms ! j) k' d)"
proof -
  let ?P = "store_prefixes ! i" and ?P' = "store_prefixes ! j"
  note s = stores_of_prefixed [OF L i] stores_of_prefixed [OF L j]
  have ne: "?P' \<noteq> ?P" using store_prefixes_distinct [OF j i] \<open>i \<noteq> j\<close> by simp
  note read = store_read [OF L _ s(2) k'] store_read [OF L _ s(4) k']
  show ?thesis
    using put del s(4) ne unfolding ms s
    by (rule_tac store_writes [OF L ok s(2) k, of v]) (simp add: read ok)
qed

text \<open>
  Deleting a document locally succeeds and makes its composite DAG a single head; from then on
  none of its fields can be read.
\<close>

theorem document_deleted_locally:
  fixes X :: "('c, 'n) pkgs"
  assumes "clock_laws X" and "txn_ok B Q p d" and "doc_wf k" and "clean_part f" and "clean_part g"
    and "ms = MultiStoreFrom (x_ds X) (txn_dsrw B Q p)" and "ns = ToHeadStoreKey (WithFieldId k f)"
    and "m = NewMerkleCompositeDAG X (Datastore_of ms) (Headstore ms) (DAGstore ms) sv (WithFieldId k f) n"
    and "heads_inv X ns (sub_view ''/db/heads'' (kv_view B p d))" and "doc_inv k (sub_view ''/db/data'' (kv_view B p d))"
    and "\<forall>l \<in> set links. dl_Name l \<noteq> ''_head''"
  shows "\<exists>nd prio d'. MC_Delete X m links d = (Inr (nd, prio), d') \<and>
    head_map X ns (sub_view ''/db/heads'' (kv_view B p d')) = [dag_Cid (x_dag X) nd \<mapsto> prio] \<and>
    fst (ML_Value X (NewMerkleLWWRegister X (Datastore_of ms) (Headstore ms) (DAGstore ms) sv (WithFieldId k g) n') d') = Inl ErrNotFound"
proof -
  let ?c = "(Comp_Set (x_cid X) (mcd_reg m) [] links)\<lparr>cd_Status := Deleted\<rparr>"
  have "\<forall>l \<in> set (cd_SubDAGs ?c). dl_Name l \<noteq> ''_head''" using assms(11) by (simp add: Comp_Set_def)
  note step = kv_store.MC_Publish_step [OF mem_txn.kv_store_axioms, OF assms(2,1,3,4,7,9,10) this, of sv n, folded assms(6), folded assms(8)]
  then obtain nd d' where pub: "Publish X (mcd_base m) (CompositeDelta ?c) d =
      (Inr (nd, CompositeDelta (?c\<lparr>cd_Priority := next_height X ns (sub_view ''/db/heads'' (kv_view B p d))\<rparr>)), d')"
    "txn_ok B Q p d'" "heads_upd X ns (sub_view ''/db/heads'' (kv_view B p d)) (sub_view ''/db/heads'' (kv_view B p d'))
       [dag_Cid (x_dag X) nd \<mapsto> next_height X ns (sub_view ''/db/heads'' (kv_view B p d))]"
    and inv: "doc_inv k (sub_view ''/db/data'' (kv_view B p d'))"
    and abs: "abs_doc k (sub_view ''/db/data'' (kv_view B p d')) = apply_op (DocDelta ?c) (abs_doc k (sub_view ''/db/data'' (kv_view B p d)))"
    by blast
  have "marked_deleted k (sub_view ''/db/data'' (kv_view B p d'))"
    using abs by (cases "abs_doc k (sub_view ''/db/data'' (kv_view B p d))")
      (simp add: abs_doc_def marked_deleted_def IsDeleted_def Deleted_def)
  then have "fst (Reg_Value (pk_NewKey (x_ds X)) (NewLWWRegister (prefixed (x_ds X) (txn_dsrw B Q p) ''/db/data'') sv (WithFieldId k g) n') d') = Inl ErrNotFound"
    using kv_store.deleted_field_hidden [OF kv_store.data_kv(1) [OF mem_txn.kv_store_axioms, OF pub(2) assms(1)],
        OF kv_store.data_kv(2) [OF mem_txn.kv_store_axioms, OF pub(2) assms(1)]
           ds_lawsD(1) [OF clock_lawsD(1) [OF assms(1)]] assms(3,5) inv] by blast
  then show ?thesis
    using pub(1,3) kv_store.data_kv(3) [OF mem_txn.kv_store_axioms, OF pub(2) assms(1)] assms(6)
    by (intro exI [of _ nd] exI [of _ "next_height X ns (sub_view ''/db/heads'' (kv_view B p d))"] exI [of _ d'])
      (simp add: MC_Delete_def abind_def heads_upd_def ML_Value_def NewMerkleLWWRegister_def Let_def)
qed

text \<open>
  C34. The block store of a multistore: a new block that is stored is there, with its size, and is
  read back as it was stored. With the check of hashes on, it is read back only when its data hashes
  to its CID and refused with \<^verbatim>\<open>ErrHashMismatch\<close> when it hashes to another one. Storing other data
  under the same CID changes nothing, and after its deletion the block is gone.
\<close>

theorem block_round_trip:
  assumes L: "ds_laws L" and ok: "txn_ok B Q p d" and H: "block_laws H" and c: "bo_Defined H c"
    and bs: "bs = HashOnRead h (ds_Blockstore (DAGstore (MultiStoreFrom L (txn_dsrw B Q p))))"
    and new: "fst (bs_Has H bs c d) = Inr False"
    and put: "bs_Put H bs \<lparr>blk_Cid = c, blk_RawData = x\<rparr> d = (r1, d1)"
    and again: "bs_Put H bs \<lparr>blk_Cid = c, blk_RawData = x'\<rparr> d1 = (r2, d2)"
    and del: "bs_DeleteBlock H bs c d2 = (r3, d3)"
  shows "r1 = Inr () \<and> r2 = Inr () \<and> r3 = Inr () \<and>
    (\<forall>e \<in> {d1, d2}. fst (bs_Has H bs c e) = Inr True \<and> fst (bs_GetSize H bs c e) = Inr (length x) \<and>
       fst (bs_Get H bs c e) =
         (if h then (case bo_Sum H c x of Inl err \<Rightarrow> Inl err
                     | Inr c' \<Rightarrow> if c' = c then Inr \<lparr>blk_Cid = c, blk_RawData = x\<rparr> else Inl ErrHashMismatch)
          else Inr \<lparr>blk_Cid = c, blk_RawData = x\<rparr>)) \<and>
    fst (bs_Has H bs c d3) = Inr False \<and> fst (bs_GetSize H bs c d3) = Inl ipld_ErrNotFound \<and>
    fst (bs_Get H bs c d3) = Inl ipld_ErrNotFound"
proof -
  let ?P = "''/db/blocks''" and ?D = "prefixed L (txn_dsrw B Q p) ''/db/blocks''" and ?k = "bo_DsKey H c"
  let ?v = "\<lambda>d. sub_view ?P (kv_view B p d)" and ?ok = "\<lambda>d. txn_ok B Q p d \<and> ds_laws L \<and> clean_key ?P \<and> True"
  note kv = mem_prefixed.kv_store_axioms [of L B Q p ?P]
  have b: "bs = HashOnRead h (NewBlockstore ?D)"
    using bs by (simp add: MultiStoreFrom_stores [OF L] NewDAGStore_def)
  have 0: "?ok d" using ok L clean_store_keys by simp
  note reads = kv_store.bs_reads(1,2) [OF kv, OF _ H c] kv_store.bs_reads(3) [where h = h, OF kv, OF _ H c]
  have "?v d ?k = None" using new reads(1) [OF 0] by (simp add: b)
  then have 1: "r1 = Inr ()" "?ok d1" "?v d1 ?k = Some x"
    using kv_store.bs_Put_step [OF kv, OF 0 H, of "\<lparr>blk_Cid = c, blk_RawData = x\<rparr>"] put by (auto simp: b put_block_def)
  then have 2: "r2 = Inr ()" "?ok d2" "?v d2 ?k = Some x"
    using kv_store.bs_Put_step [OF kv, OF 1(2) H, of "\<lparr>blk_Cid = c, blk_RawData = x'\<rparr>"] again by (auto simp: b put_block_def)
  then have 3: "r3 = Inr ()" "?ok d3" "?v d3 ?k = None"
    using kv_store.bs_Delete_step [OF kv, OF 2(2) H, of c] del by (auto simp: b)
  show ?thesis
    using 1 2 3 reads [OF 1(2)] reads [OF 2(2)] reads [OF 3(2)] by (simp add: b)
qed

section \<open>A concrete run\<close>

lemma w1_stores: "sub_view P (kv_view items_tree 0 w1) = (\<lambda>_. None)"
  by (rule ext) (simp add: sub_view_def w1_view)

lemma empty_heads: "head_map X ns (\<lambda>_. None) = Map.empty" "heads_inv X ns (\<lambda>_. None)" "top_height X ns (\<lambda>_. None) = 0"
proof -
  show e: "head_map X ns (\<lambda>_. None) = Map.empty" by (simp add: head_map_def fun_eq_iff)
  show "heads_inv X ns (\<lambda>_. None)" "top_height X ns (\<lambda>_. None) = 0" by (simp_all add: heads_inv_def top_height_def e)
qed

lemma empty_doc: "doc_inv k (\<lambda>_. None)" "\<not> marked_deleted k (\<lambda>_. None)" "stored_prio k (\<lambda>_. None) f = 0"
  by (simp_all add: doc_inv_def marked_deleted_def stored_prio_def)

lemmas w1_facts = w1_stores empty_heads empty_doc

definition w_root :: "(dsItem list, dsTxn list) Datastore DSReaderWriter" where
  "w_root = txn_dsrw items_tree plain_query 0"

definition w_ms :: "(dsItem list, dsTxn list) Datastore multistore" where
  "w_ms = MultiStoreFrom (x_ds plain_pkgs) w_root"

definition w_reg :: "string \<Rightarrow> ((dsItem list, dsTxn list) Datastore, nat, plain_node) MerkleLWWRegister" where
  "w_reg f = NewMerkleLWWRegister plain_pkgs (Datastore_of w_ms) (Headstore w_ms) (DAGstore w_ms) [] (WithFieldId w_key f) ''name''"

definition w_comp :: "((dsItem list, dsTxn list) Datastore, nat, plain_node) MerkleCompositeDAG" where
  "w_comp = NewMerkleCompositeDAG plain_pkgs (Datastore_of w_ms) (Headstore w_ms) (DAGstore w_ms) [] (WithFieldId w_key ''C'') []"

lemma clean_C: "clean_part ''C''"
  by code_simp

theorem register_local_history_witness:
  "\<exists>c h d'. set_values plain_pkgs (w_reg ''2'') [[5], [6]] w1 = (Inr (), d') \<and>
    head_map plain_pkgs (ToHeadStoreKey (WithFieldId w_key ''2'')) (sub_view ''/db/heads'' (kv_view items_tree 0 d')) = [c \<mapsto> h] \<and>
    unat h = 2 \<and> fst (ML_Value plain_pkgs (w_reg ''2'') d') = Inr [6]"
  using register_local_history [OF plain_pkgs_laws w1_ok w_key_wf w_ms_def [unfolded w_root_def] refl w_reg_def [of "''2''"], of "[[5], [6]]"]
  by (simp add: w1_facts flip: numeral_2_eq_2)

theorem processed_node_heads_witness:
  "\<exists>d'. ProcessNode plain_pkgs (NewMerkleClock (Headstore w_ms) (DAGstore w_ms) (ToHeadStoreKey (WithFieldId w_key ''2''))
      (reg_data plain_pkgs (NewLWWRegister (Datastore_of w_ms) [] (WithFieldId w_key ''2'') []))) 9 7 (LWWDelta (w_delta 7 [1]))
      ([], [\<lparr>dl_Name = ''_head'', dl_Cid = 4\<rparr>]) w1 = (Inr [4], d') \<and>
    head_map plain_pkgs (ToHeadStoreKey (WithFieldId w_key ''2'')) (sub_view ''/db/heads'' (kv_view items_tree 0 d')) = Map.empty"
  using processed_node_heads [OF plain_pkgs_laws w1_ok w_key_wf w_ms_def [unfolded w_root_def] refl refl _ refl refl refl,
      of 9 "([], [\<lparr>dl_Name = ''_head'', dl_Cid = 4\<rparr>])" "[]" "[]" 7 "w_delta 7 [1]"]
  by (simp add: w1_facts plain_pkgs_def plain_dag_def)

theorem delta_round_trip_witness:
  "\<exists>nd. makeNode plain_pkgs (Some (LWWDelta (w_delta 1 [7]))) [3] = Inr nd \<and>
    Reg_DeltaDecode plain_codec plain_dag (ProtoNode nd) = Inr (LWWDelta (w_delta 1 [7]) :: nat Delta)"
proof -
  obtain nd where "makeNode plain_pkgs (Some (LWWDelta (w_delta 1 [7]))) [3] = Inr nd"
    using makeNode_spec [OF plain_pkgs_laws] by blast
  with delta_round_trip [OF plain_pkgs_laws this] show ?thesis by (simp add: plain_pkgs_def)
qed

theorem multistore_isolated_witness:
  "fst (ds_Get (Headstore w_ms) ''/a'' (snd (ds_Put (Datastore_of w_ms) ''/a'' [1] w1))) = fst (ds_Get (Headstore w_ms) ''/a'' w1)"
proof -
  obtain r1 d1 r2 d2 where "ds_Put (stores_of w_ms ! 1) ''/a'' [1] w1 = (r1, d1)" "ds_Delete (stores_of w_ms ! 1) ''/a'' w1 = (r2, d2)"
    by (metis surj_pair)
  moreover have "w_ms = MultiStoreFrom plain_ds (txn_dsrw items_tree plain_query 0)"
    by (simp add: w_ms_def w_root_def plain_pkgs_def)
  ultimately have "fst (ds_Get (stores_of w_ms ! 2) ''/a'' d1) = fst (ds_Get (stores_of w_ms ! 2) ''/a'' w1)"
    using multistore_isolated [OF plain_ds_laws w1_ok clean_a clean_a, of w_ms 1 2] by simp
  with \<open>ds_Put (stores_of w_ms ! 1) ''/a'' [1] w1 = (r1, d1)\<close> show ?thesis by (simp add: stores_of_def)
qed

theorem document_deleted_locally_witness:
  "\<exists>nd prio d'. MC_Delete plain_pkgs w_comp [] w1 = (Inr (nd, prio), d') \<and>
    fst (ML_Value plain_pkgs (w_reg ''2'') d') = Inl ErrNotFound"
proof -
  have "\<exists>nd prio d'. MC_Delete plain_pkgs w_comp [] w1 = (Inr (nd, prio), d') \<and>
    head_map plain_pkgs (ToHeadStoreKey (WithFieldId w_key ''C'')) (sub_view ''/db/heads'' (kv_view items_tree 0 d')) =
      [dag_Cid (x_dag plain_pkgs) nd \<mapsto> prio] \<and>
    fst (ML_Value plain_pkgs (w_reg ''2'') d') = Inl ErrNotFound"
    unfolding w_reg_def
    by (rule document_deleted_locally [OF plain_pkgs_laws w1_ok w_key_wf(1) clean_C w_key_wf(2) w_ms_def [unfolded w_root_def] refl w_comp_def])
      (simp_all add: w1_facts)
  then show ?thesis by (elim ex_forward) simp
qed

theorem block_round_trip_witness:
  "\<exists>bs. bs = HashOnRead True (ds_Blockstore (DAGstore w_ms)) \<and>
     fst (bs_Get (nat_block\<lparr>bo_Sum := \<lambda>c b. Inr (Suc c)\<rparr>) bs 4
       (snd (bs_Put (nat_block\<lparr>bo_Sum := \<lambda>c b. Inr (Suc c)\<rparr>) bs \<lparr>blk_Cid = 4, blk_RawData = [1]\<rparr> w1))) = Inl ErrHashMismatch"
proof -
  let ?H = "nat_block\<lparr>bo_Sum := \<lambda>c b. Inr (Suc c)\<rparr>"
  define bs :: "(dsItem list, dsTxn list) Datastore bstore"
    where "bs = HashOnRead True (ds_Blockstore (DAGstore (MultiStoreFrom plain_ds (txn_dsrw items_tree plain_query 0))))"
  have bs': "bs = HashOnRead True (ds_Blockstore (DAGstore w_ms))"
    by (simp add: bs_def w_ms_def w_root_def plain_pkgs_def)
  have H: "block_laws ?H" "bo_Defined ?H 4" using nat_block_laws by (simp_all add: block_laws_def nat_block_def)
  have new: "fst (bs_Has ?H bs 4 w1) = Inr False"
    using kv_store.bs_reads(1) [OF mem_prefixed.kv_store_axioms [of plain_ds items_tree plain_query 0 "''/db/blocks''"] _ H, of w1] w1_ok plain_ds_laws clean_store_keys
    by (simp add: bs_def MultiStoreFrom_stores [OF plain_ds_laws] NewDAGStore_def w1_facts)
  obtain r1 d1 where 1: "bs_Put ?H bs \<lparr>blk_Cid = 4, blk_RawData = [1]\<rparr> w1 = (r1, d1)" by fastforce
  obtain r2 d2 where 2: "bs_Put ?H bs \<lparr>blk_Cid = 4, blk_RawData = [1]\<rparr> d1 = (r2, d2)" by fastforce
  obtain r3 d3 where 3: "bs_DeleteBlock ?H bs 4 d2 = (r3, d3)" by fastforce
  from block_round_trip [OF plain_ds_laws w1_ok H bs_def new 1 2 3] 1 bs' show ?thesis by auto
qed

end
