(* ===== verification/CatalogSpec.thy ===== *)
theory CatalogSpec
  imports Catalog MerkleRun
begin

text \<open>
  What the catalogue promises: a new collection is found again by its name and by its schema, its
  number comes from a sequence that never gives a number twice within 64 bits, and an update of a
  schema that the validation accepts keeps the existing fields in their places.
\<close>

section \<open>Updates of a schema\<close>

text \<open>
  The fields of a stored schema: numbered by their positions, with different names, the document
  key first.
\<close>

definition numbered :: "FieldDescription list \<Rightarrow> bool" where
  "numbered fs \<longleftrightarrow> fs \<noteq> [] \<and> fd_Name (hd fs) = KeyFieldName \<and> distinct (map fd_Name fs) \<and> length fs < 2 ^ 32 \<and>
     (\<forall>i < length fs. fd_ID (fs ! i) = of_nat i)"

text \<open>What the loop finds as the existing field of a proposed one.\<close>

definition existing_field :: "(FieldID_t \<rightharpoonup> FieldDescription) \<Rightarrow> FieldDescription \<Rightarrow> FieldDescription option" where
  "existing_field byID p = (if fd_ID p \<noteq> 0 \<or> fd_Name p = KeyFieldName then byID (fd_ID p) else None)"

lemma of_nat_u32_eq: "i < 2 ^ 32 \<Longrightarrow> j < 2 ^ 32 \<Longrightarrow> (of_nat i :: u32) = of_nat j \<longleftrightarrow> i = j"
  by (simp add: word_of_nat_eq_iff take_bit_nat_eq_self)

lemma fields_by_id_eq: "fields_by_id fs m = m ++ map_of (rev (map (\<lambda>f. (fd_ID f, f)) fs))"
  by (induction fs arbitrary: m) (auto simp: map_add_def fun_eq_iff split: option.splits)

lemma fields_by_id_numbered:
  assumes "numbered fs"
  shows "fields_by_id fs Map.empty x = Some f \<longleftrightarrow> (\<exists>i < length fs. x = of_nat i \<and> f = fs ! i)"
proof -
  have "distinct (map fd_ID fs)"
    using assms unfolding numbered_def distinct_conv_nth
    by (metis length_map nth_map of_nat_u32_eq order_less_trans)
  then have "distinct (map fst (rev (map (\<lambda>f. (fd_ID f, f)) fs)))" by (simp add: rev_map [symmetric] comp_def)
  then have "fields_by_id fs Map.empty x = Some f \<longleftrightarrow> f \<in> set fs \<and> fd_ID f = x"
    unfolding fields_by_id_eq by (auto simp: map_of_eq_Some_iff)
  then show ?thesis using assms by (auto simp: numbered_def in_set_conv_nth)
qed

lemma indexes_by_name_other: "n \<notin> fd_Name ` set fs \<Longrightarrow> indexes_by_name i fs m n = m n"
  by (induction fs arbitrary: i m) auto

lemma indexes_by_name_nth:
  "distinct (map fd_Name fs) \<Longrightarrow> j < length fs \<Longrightarrow> indexes_by_name i fs m (fd_Name (fs ! j)) = i + j"
proof (induction fs arbitrary: i m j)
  case (Cons f fs)
  then show ?case by (cases j) (simp_all add: indexes_by_name_other)
qed simp

lemma check_fields_ok:
  assumes "check_fields byID byName i ps hc names ids = Inr (hc', ids')"
  shows "distinct (map fd_Name ps) \<and> set names \<inter> fd_Name ` set ps = {} \<and> set ids' = set ids \<union> fd_ID ` set ps \<and>
    hc' = (hc \<or> (\<exists>p \<in> set ps. existing_field byID p = None)) \<and>
    (\<forall>j < length ps. case existing_field byID (ps ! j) of
       None \<Rightarrow> fd_ID (ps ! j) = 0 \<and> \<not> IsObject (ps ! j)
     | Some f \<Rightarrow> ps ! j = f \<and> i + j = byName (fd_Name f))"
  using assms
proof (induction ps arbitrary: i hc names ids)
  case (Cons p ps)
  have step: "check_fields byID byName (i + 1) ps (hc \<or> existing_field byID p = None) (fd_Name p # names) (fd_ID p # ids) = Inr (hc', ids')"
    "fd_Name p \<notin> set names"
    "case existing_field byID p of None \<Rightarrow> fd_ID p = 0 \<and> \<not> IsObject p | Some f \<Rightarrow> p = f \<and> i = byName (fd_Name f)"
    using Cons.prems by (auto simp: Let_def existing_field_def IsObject_def split: if_splits option.splits)
  note ih = Cons.IH [OF step(1)]
  have "case existing_field byID ((p # ps) ! j) of
       None \<Rightarrow> fd_ID ((p # ps) ! j) = 0 \<and> \<not> IsObject ((p # ps) ! j)
     | Some f \<Rightarrow> (p # ps) ! j = f \<and> i + j = byName (fd_Name f)" if "j < length (p # ps)" for j
  proof (cases j)
    case (Suc l)
    then have "l < length ps" using that by simp
    then show ?thesis using ih Suc by (auto split: option.splits)
  qed (use step(3) in \<open>simp split: option.splits\<close>)
  then show ?case using ih step(2) by auto
qed simp

lemma update_prefix:
  assumes old: "numbered fs" and ok: "check_fields (fields_by_id fs Map.empty) (indexes_by_name 0 fs (\<lambda>_. 0)) 0 ps False [] [] = Inr (hc, ids)"
    and all: "\<forall>f \<in> set fs. fd_ID f \<in> set ids" and key: "KeyFieldName \<in> fd_Name ` set ps"
  shows "\<exists>added. ps = fs @ added \<and> (\<forall>f \<in> set added. fd_ID f = 0 \<and> \<not> IsObject f) \<and> hc = (added \<noteq> []) \<and> distinct (map fd_Name ps)"
proof -
  let ?by = "fields_by_id fs Map.empty"
  note facts = check_fields_ok [OF ok]
  have ex: "p = fs ! j \<and> j < length fs" if jp: "j < length ps" "p = ps ! j" "existing_field ?by p = Some f" for j p f
  proof -
    obtain i where i: "i < length fs" "f = fs ! i"
      using jp(3) fields_by_id_numbered [OF old] by (auto simp: existing_field_def split: if_splits)
    have "p = f \<and> j = indexes_by_name 0 fs (\<lambda>_. 0) (fd_Name f)" using facts jp by force
    then show ?thesis using i old by (simp add: indexes_by_name_nth numbered_def)
  qed
  have at: "i < length ps \<and> ps ! i = fs ! i" if i: "i < length fs" for i
  proof (cases "i = 0")
    case True
    obtain j where j: "j < length ps" "fd_Name (ps ! j) = KeyFieldName" using key by (auto simp: in_set_conv_nth)
    have "existing_field ?by (ps ! j) \<noteq> None"
    proof
      assume none: "existing_field ?by (ps ! j) = None"
      then have "fd_ID (ps ! j) = of_nat 0" using facts j by force
      moreover have "?by (of_nat 0) = Some (fs ! 0)" using fields_by_id_numbered [OF old] i True by blast
      ultimately show False using none j by (simp add: existing_field_def)
    qed
    then have p: "ps ! j = fs ! j" "j < length fs" using ex [OF j(1) refl] by auto
    then have "fd_Name (fs ! j) = fd_Name (fs ! 0)" using old j hd_conv_nth [of fs] by (auto simp: numbered_def)
    then have "j = 0" using old p i True by (auto simp: numbered_def distinct_conv_nth)
    then show ?thesis using True j p by simp
  next
    case False
    have lt: "i < 2 ^ 32" "fd_ID (fs ! i) = of_nat i" using old i by (auto simp: numbered_def)
    have "fd_ID (fs ! i) \<in> fd_ID ` set ps" using all facts i by auto
    then obtain j where j: "j < length ps" "fd_ID (ps ! j) = of_nat i" using lt by (auto simp: in_set_conv_nth)
    have "(of_nat i :: u32) \<noteq> 0" using False lt of_nat_u32_eq [of i 0] by simp
    then have "existing_field ?by (ps ! j) = Some (fs ! i)"
      using j fields_by_id_numbered [OF old, of "of_nat i"] i by (auto simp: existing_field_def)
    then have p: "ps ! j = fs ! j" "j < length fs" using ex [OF j(1) refl] by auto
    then have "(of_nat j :: u32) = of_nat i" using j old by (simp add: numbered_def)
    then have "j = i" using p old lt of_nat_u32_eq [of j i] by (simp add: numbered_def)
    then show ?thesis using j p by simp
  qed
  have "length fs \<le> length ps" using at old by (cases "length fs") (auto simp: Suc_le_eq)
  then have "take (length fs) ps = fs" using at by (intro nth_equalityI) auto
  then obtain added where ps: "ps = fs @ added" by (metis append_take_drop_id)
  have none: "existing_field ?by f = None" if "f \<in> set added" for f
  proof (rule ccontr)
    assume "existing_field ?by f \<noteq> None"
    moreover obtain k where "k < length added" "f = added ! k" using \<open>f \<in> set added\<close> by (auto simp: in_set_conv_nth)
    ultimately show False using ex [of "length fs + k" f] ps by (auto simp: nth_append)
  qed
  have new: "existing_field ?by (ps ! j) = None" if "length fs \<le> j" "j < length ps" for j
    using that ps none by (auto simp: nth_append)
  have "fd_ID f = 0 \<and> \<not> IsObject f" if f: "f \<in> set added" for f
  proof -
    obtain k where k: "k < length added" "f = added ! k" using f by (auto simp: in_set_conv_nth)
    then show ?thesis using new [of "length fs + k"] facts ps by (auto dest!: spec [of _ "length fs + k"])
  qed
  moreover have old': "existing_field ?by f \<noteq> None" if f: "f \<in> set fs" for f
  proof -
    obtain k where k: "k < length fs" "f = fs ! k" using f by (auto simp: in_set_conv_nth)
    then have "fd_ID f = of_nat k" "fields_by_id fs Map.empty (of_nat k) = Some f" "k = 0 \<Longrightarrow> fd_Name f = KeyFieldName"
      using old fields_by_id_numbered [OF old, of "of_nat k" f] by (auto simp: numbered_def hd_conv_nth)
    then show ?thesis using old k of_nat_u32_eq [of k 0] by (auto simp: existing_field_def numbered_def)
  qed
  moreover have "hc = (added \<noteq> [])"
  proof -
    have "hc = (\<exists>p \<in> set ps. existing_field ?by p = None)" using facts by simp
    also have "\<dots> = (set added \<noteq> {})" unfolding ps set_append using old' none by (metis Un_iff ex_in_conv)
    finally show ?thesis by simp
  qed
  ultimately show ?thesis using ps facts by (intro exI [of _ added]) blast
qed

lemma complete_fields_nth:
  "j < length fs \<Longrightarrow> complete_fields i fs ! j =
     (fs ! j)\<lparr>fd_ID := (if fd_ID (fs ! j) = 0 then of_nat (i + j) else fd_ID (fs ! j)),
       fd_Typ := (if fd_Typ (fs ! j) = NONE_CRDT then LWW_REGISTER else fd_Typ (fs ! j))\<rparr>"
proof (induction fs arbitrary: i j)
  case (Cons f fs)
  then show ?case by (cases j) (simp_all add: Let_def)
qed simp

lemma complete_fields_length [simp]: "length (complete_fields i fs) = length fs"
  by (induction fs arbitrary: i) (simp_all add: Let_def)

lemma complete_fields_names: "map fd_Name (complete_fields i fs) = map fd_Name fs"
  by (rule nth_equalityI) (simp_all add: complete_fields_nth)

lemma complete_numbered:
  assumes "numbered fs" and "\<forall>f \<in> set added. fd_ID f = 0" and "distinct (map fd_Name (fs @ added))" and "length (fs @ added) < 2 ^ 32"
  shows "numbered (complete_fields 0 (fs @ added))"
proof -
  have id: "fd_ID ((fs @ added) ! i) = 0 \<or> fd_ID ((fs @ added) ! i) = of_nat i" if "i < length (fs @ added)" for i
    using assms(1,2) that by (cases "i < length fs") (auto simp: numbered_def nth_append)
  have "fd_ID (complete_fields 0 (fs @ added) ! i) = of_nat i" if "i < length (fs @ added)" for i
    using id [OF that] that by (auto simp: complete_fields_nth)
  moreover have "fd_Name (hd (complete_fields 0 (fs @ added))) = fd_Name (hd fs)"
    using assms(1) by (cases fs) (auto simp: numbered_def Let_def)
  ultimately show ?thesis
    using assms unfolding numbered_def complete_fields_names complete_fields_length
    by (metis append_is_Nil_conv complete_fields_length length_0_conv)
qed

section \<open>What is assumed of the packages\<close>

text \<open>
  JSON keeps descriptions whose strings are ASCII; marshalling them and hashing do not fail; the
  textual form of a CID is ASCII without slashes; \<^verbatim>\<open>ds.NewKey\<close> cleans the key of the sequence of
  collections, whose name has slashes of its own.
\<close>

definition ascii :: "string \<Rightarrow> bool" where
  "ascii s \<longleftrightarrow> list_all (\<lambda>c. of_char c < (128 :: nat)) s"

definition ascii_desc :: "CollectionDescription \<Rightarrow> bool" where
  "ascii_desc d \<longleftrightarrow> ascii (col_Name d) \<and> ascii (sd_SchemaID (col_Schema d)) \<and> ascii (sd_VersionID (col_Schema d)) \<and>
     ascii (sd_Name (col_Schema d)) \<and>
     list_all (\<lambda>f. ascii (fd_Name f) \<and> ascii (fd_Schema f) \<and> ascii (fd_RelationName f)) (sd_Fields (col_Schema d))"

definition cat_laws :: "('c, 'i) cat_pkgs \<Rightarrow> bool" where
  "cat_laws X \<longleftrightarrow> ds_laws (ca_ds X) \<and> pk_NewKey (ca_ds X) ''/seq//collection/names'' = ''/seq/collection/names'' \<and>
     (\<forall>c. clean_part (ca_String X c) \<and> ascii (ca_String X c)) \<and> (\<forall>b. \<exists>c. NewSHA256CidV1 X b = Inr c) \<and>
     (\<forall>n s. \<exists>b. ca_MarshalGlobal X n s = Inr b) \<and> (\<forall>s. \<exists>b. ca_MarshalSchema X s = Inr b) \<and>
     (\<forall>d. ascii_desc d \<longrightarrow> (\<exists>b. ca_MarshalDesc X d = Inr b \<and> ca_UnmarshalDesc X b = Inr d))"

fun sys_name :: "SystemKey \<Rightarrow> string" where
  "sys_name (CollectionKey n) = n"
| "sys_name (CollectionSchemaKey n) = n"
| "sys_name (CollectionSchemaVersionKey n) = n"
| "sys_name (P2PCollectionKey n) = n"
| "sys_name (SequenceKey n) = n"
| "sys_name (ReplicatorKey n) = n"

lemma clean_part_ne: "clean_part p \<Longrightarrow> p \<noteq> []"
  by (auto simp: clean_part_def key_part_def)

lemma sys_prefixes: "clean_key COLLECTION" "clean_key COLLECTION_SCHEMA" "clean_key COLLECTION_SCHEMA_VERSION"
    "clean_key P2P_COLLECTION" "clean_key SEQ" "clean_key REPLICATOR"
  by code_simp+

lemma sys_key_clean: "clean_part (sys_name k) \<Longrightarrow> clean_key (System_ToString k)"
proof -
  assume "clean_part (sys_name k)"
  then have "clean_key (CHR ''/'' # sys_name k)" "sys_name k \<noteq> []" by (simp_all add: clean_key_Cons clean_part_ne)
  then show ?thesis by (cases k) (simp_all add: add_part_def clean_key_append sys_prefixes)
qed

lemma sys_key_eq: "cat_laws X \<Longrightarrow> clean_part (sys_name k) \<Longrightarrow> sys_key X k = System_ToString k"
  by (simp add: cat_laws_def System_ToDS_def NewKey_clean ds_lawsD sys_key_clean)

abbreviation collection_seq :: string where
  "collection_seq \<equiv> ''/seq/collection/names''"

lemma collection_seq_key:
  assumes "cat_laws X"
  shows "sys_key X (NewSequenceKey COLLECTION) = collection_seq" and "clean_key collection_seq"
proof -
  have "System_ToString (NewSequenceKey COLLECTION) = ''/seq//collection/names''"
    by (simp add: NewSequenceKey_def add_part_def SEQ_def COLLECTION_def)
  then show "sys_key X (NewSequenceKey COLLECTION) = collection_seq" using assms by (simp add: System_ToDS_def cat_laws_def)
  show "clean_key collection_seq" by code_simp
qed

lemma collection_seq_other: "clean_part (sys_name k) \<Longrightarrow> System_ToString k \<noteq> collection_seq"
  by (cases k) (auto simp: add_part_def SEQ_def COLLECTION_def COLLECTION_SCHEMA_def COLLECTION_SCHEMA_VERSION_def
      P2P_COLLECTION_def REPLICATOR_def clean_part_def key_part_def)

declare System_ToString.simps [simp del]

abbreviation nameK :: "string \<Rightarrow> string" where "nameK n \<equiv> System_ToString (CollectionKey n)"
abbreviation schemaK :: "string \<Rightarrow> string" where "schemaK n \<equiv> System_ToString (CollectionSchemaKey n)"
abbreviation versionK :: "string \<Rightarrow> string" where "versionK n \<equiv> System_ToString (CollectionSchemaVersionKey n)"

lemmas new_key_defs = NewCollectionKey_def NewCollectionSchemaKey_def NewCollectionSchemaVersionKey_def

section \<open>New collections\<close>

lemma number_fields_nth:
  assumes "number_fields i fs = Inr gs"
  shows "length gs = length fs \<and> (\<forall>j < length fs. gs ! j = (fs ! j)\<lparr>fd_ID := of_nat (i + j)\<rparr>)"
  using assms
proof (induction fs arbitrary: i gs)
  case (Cons f fs)
  then obtain hs where hs: "number_fields (i + 1) fs = Inr hs" "gs = f\<lparr>fd_ID := of_nat i\<rparr> # hs"
    by (cases "number_fields (i + 1) fs") (auto split: if_splits)
  have "gs ! j = ((f # fs) ! j)\<lparr>fd_ID := of_nat (i + j)\<rparr>" if "j < length (f # fs)" for j
    using that Cons.IH [OF hs(1)] hs(2) by (cases j) auto
  then show ?case using Cons.IH [OF hs(1)] hs(2) by simp
qed simp

lemma number_fields_ascii:
  assumes "number_fields 0 fs = Inr gs"
    and "list_all (\<lambda>f. ascii (fd_Name f) \<and> ascii (fd_Schema f) \<and> ascii (fd_RelationName f)) fs"
  shows "list_all (\<lambda>f. ascii (fd_Name f) \<and> ascii (fd_Schema f) \<and> ascii (fd_RelationName f)) gs"
  using number_fields_nth [OF assms(1)] assms(2) by (simp add: list_all_length)

lemma newCollection_ok:
  assumes "newCollection desc = Inr c"
  shows "\<exists>fs. number_fields 0 (sd_Fields (col_Schema desc)) = Inr fs \<and>
    (\<forall>x. newCollection (desc\<lparr>col_ID := x\<rparr>) = Inr \<lparr>co_colID = x, co_schemaID = [],
      co_desc = desc\<lparr>col_ID := x, col_Schema := (col_Schema desc)\<lparr>sd_Fields := fs\<rparr>\<rparr>\<rparr>)"
  using assms
  by (cases "number_fields 0 (sd_Fields (col_Schema desc))")
    (auto simp: newCollection_def simp del: number_fields.simps split: if_splits list.splits)

text \<open>The collection that is created from a description when the last number was \<open>v\<close>.\<close>

definition created :: "CollectionDescription \<Rightarrow> u64 \<Rightarrow> collection \<Rightarrow> bool" where
  "created desc v col \<longleftrightarrow> clean_part (co_schemaID col) \<and> ascii (co_schemaID col) \<and> co_colID col = ucast (v + 1) \<and>
     number_fields 0 (sd_Fields (col_Schema desc)) = Inr (sd_Fields (col_Schema (co_desc col))) \<and>
     co_desc col = desc\<lparr>col_ID := co_colID col, col_Schema := (col_Schema desc)\<lparr>sd_SchemaID := co_schemaID col,
       sd_VersionID := co_schemaID col, sd_Fields := sd_Fields (col_Schema (co_desc col))\<rparr>\<rparr>"

lemma complete_fields_ascii:
  "list_all (\<lambda>f. ascii (fd_Name f) \<and> ascii (fd_Schema f) \<and> ascii (fd_RelationName f)) fs \<Longrightarrow>
   list_all (\<lambda>f. ascii (fd_Name f) \<and> ascii (fd_Schema f) \<and> ascii (fd_RelationName f)) (complete_fields i fs)"
  by (simp add: list_all_length complete_fields_nth)

lemma abind_step: "m s = (Inr a, s') \<Longrightarrow> abind m f s = f a s'"
  by (simp add: abind_def)

lemma abind_lift: "abind (lift_sum (Inr a)) f = f a"
  by (simp add: abind_def lift_sum_def fun_eq_iff)

section \<open>The catalogue in a store\<close>

fun next_all :: "('c, 'i) cat_pkgs \<Rightarrow> 's multistore \<Rightarrow> sequence list \<Rightarrow> ('s, u64 list) act" where
  "next_all X txn [] = ret []"
| "next_all X txn (q # qs) = abind (seq_next X txn q) (\<lambda>(n, _). abind (next_all X txn qs) (\<lambda>ns. ret (n # ns)))"

context kv_store
begin

lemma seq_get_spec:
  assumes "ok s" and "Systemstore txn = D" and "sys_key X (seq_key q) = K" and "clean_key K"
  shows "\<exists>s'. seq_get X txn q s = (case view s K of None \<Rightarrow> Inl ErrNotFound
      | Some b \<Rightarrow> map_sum id (\<lambda>v. (v, q\<lparr>seq_val := v\<rparr>)) (uint64_be b), s') \<and> ok s' \<and> view s' = view s"
  using Get [OF assms(1,4)] assms(2,3) by (auto simp: seq_get_def abind_def lift_sum_def Let_def split: option.splits sum.splits)

lemma seq_update_spec:
  assumes "ok s" and "Systemstore txn = D" and "sys_key X (seq_key q) = K" and "clean_key K"
  shows "\<exists>s'. seq_update X txn q s = (Inr (), s') \<and> ok s' \<and> view s' = (view s)(K \<mapsto> put_uint64_be (seq_val q))"
  using Put [OF assms(1,4)] assms(2,3) by (simp add: seq_update_def)

lemma seq_next_spec:
  assumes s: "ok s" and txn: "Systemstore txn = D" and K: "sys_key X (seq_key q) = K" "clean_key K"
    and v: "view s K = Some (put_uint64_be v)"
  shows "\<exists>s'. seq_next X txn q s = (Inr (v + 1, q\<lparr>seq_val := v + 1\<rparr>), s') \<and> ok s' \<and>
    view s' = (view s)(K \<mapsto> put_uint64_be (v + 1))"
proof -
  obtain s1 where 1: "seq_get X txn q s = (Inr (v, q\<lparr>seq_val := v\<rparr>), s1)" "ok s1" "view s1 = view s"
    using seq_get_spec [OF s txn K] v by auto
  have "sys_key X (seq_key (q\<lparr>seq_val := v + 1\<rparr>)) = K" using K by simp
  from seq_update_spec [OF 1(2) txn this K(2)] show ?thesis
    using 1 by (auto simp: seq_next_def abind_def Let_def)
qed

lemma getSequence_spec:
  assumes s: "ok s" and txn: "Systemstore txn = D" and K: "sys_key X (NewSequenceKey name) = K" "clean_key K" and "name \<noteq> []"
    and v: "view s K = None \<and> v = 0 \<or> view s K = Some (put_uint64_be v)"
  shows "\<exists>s'. getSequence X txn name s = (Inr \<lparr>seq_key = NewSequenceKey name, seq_val = v\<rparr>, s') \<and> ok s' \<and>
    view s' = (view s)(K \<mapsto> put_uint64_be v)"
proof -
  let ?q = "\<lparr>seq_key = NewSequenceKey name, seq_val = 0\<rparr>"
  have q: "sys_key X (seq_key ?q) = K" using K by simp
  obtain s1 where 1: "seq_get X txn ?q s = (case view s K of None \<Rightarrow> Inl ErrNotFound
      | Some b \<Rightarrow> map_sum id (\<lambda>v. (v, ?q\<lparr>seq_val := v\<rparr>)) (uint64_be b), s1)" "ok s1" "view s1 = view s"
    using seq_get_spec [OF s txn q K(2)] by blast
  show ?thesis
  proof (cases "view s K")
    case None
    then show ?thesis using v 1 seq_update_spec [OF 1(2) txn q K(2)] \<open>name \<noteq> []\<close>
      by (auto simp: getSequence_def atry_def abind_def Let_def)
  next
    case (Some b)
    then show ?thesis using v 1 \<open>name \<noteq> []\<close> by (auto simp: getSequence_def atry_def Let_def)
  qed
qed

lemma next_all_spec:
  assumes "ok s" and txn: "Systemstore txn = D" and K: "clean_key K" and "\<forall>q \<in> set qs. sys_key X (seq_key q) = K"
    and "view s K = Some (put_uint64_be v)"
  shows "\<exists>s'. next_all X txn qs s = (Inr (map (\<lambda>i. v + of_nat i) [1..<length qs + 1]), s') \<and> ok s' \<and>
    view s' = (view s)(K \<mapsto> put_uint64_be (v + of_nat (length qs)))"
  using assms(1,4,5)
proof (induction qs arbitrary: s v)
  case Nil
  then show ?case by (auto simp: fun_upd_idem)
next
  case (Cons q qs)
  obtain s1 where 1: "seq_next X txn q s = (Inr (v + 1, q\<lparr>seq_val := v + 1\<rparr>), s1)" "ok s1"
    "view s1 = (view s)(K \<mapsto> put_uint64_be (v + 1))"
    using seq_next_spec [OF Cons.prems(1) txn _ K Cons.prems(3), of X q] Cons.prems(2) by auto
  have v1: "view s1 K = Some (put_uint64_be (v + 1))" using 1(3) by simp
  obtain s2 where 2: "next_all X txn qs s1 = (Inr (map (\<lambda>i. (v + 1) + of_nat i) [1..<length qs + 1]), s2)" "ok s2"
    "view s2 = (view s1)(K \<mapsto> put_uint64_be ((v + 1) + of_nat (length qs)))"
    using Cons.IH [OF 1(2) _ v1] Cons.prems(2) by (meson list.set_intros(2))
  have "map (\<lambda>i. v + of_nat i) [1..<length (q # qs) + 1] = (v + 1) # map (\<lambda>i. (v + 1) + of_nat i) [1..<length qs + 1]"
    by (rule nth_equalityI) (auto simp: nth_Cons' algebra_simps simp del: upt_Suc)
  then show ?case using 1 2 by (auto simp: abind_def algebra_simps)
qed

lemma createCollection_spec:
  assumes s: "ok s" and X: "cat_laws X" and txn: "Systemstore txn = D" and name: "clean_part (col_Name desc)" and "ascii_desc desc"
    and new: "newCollection desc = Inr c0" and free: "view s (nameK (col_Name desc)) = None"
    and v: "view s collection_seq = None \<and> v = 0 \<or> view s collection_seq = Some (put_uint64_be v)"
  shows "\<exists>col buf s'. createCollection X txn desc s = (Inr col, s') \<and> ok s' \<and> created desc v col \<and>
    ca_UnmarshalDesc X buf = Inr (co_desc col) \<and>
    view s' = (view s)(collection_seq \<mapsto> put_uint64_be (v + 1), versionK (co_schemaID col) \<mapsto> buf,
      schemaK (co_schemaID col) \<mapsto> to_bytes (co_schemaID col),
      nameK (col_Name desc) \<mapsto> to_bytes (co_schemaID col))"
proof -
  obtain fs where fs: "number_fields 0 (sd_Fields (col_Schema desc)) = Inr fs"
    and new': "newCollection (desc\<lparr>col_ID := x\<rparr>) = Inr \<lparr>co_colID = x, co_schemaID = [],
      co_desc = desc\<lparr>col_ID := x, col_Schema := (col_Schema desc)\<lparr>sd_Fields := fs\<rparr>\<rparr>\<rparr>" for x
    using newCollection_ok [OF new] by blast
  let ?x = "ucast (v + 1) :: u32" and ?sd = "(col_Schema desc)\<lparr>sd_Fields := fs\<rparr>"
  have keys: "sys_key X (CollectionKey (col_Name desc)) = nameK (col_Name desc)"
    "clean_key (nameK (col_Name desc))"
    using name sys_key_eq [OF X] sys_key_clean by simp_all
  note seq = collection_seq_key [OF X]
  obtain s1 where 1: "ds_Has D (nameK (col_Name desc)) s = (Inr False, s1)" "ok s1" "view s1 = view s"
    using HasE [OF s keys(2)] free by auto
  obtain s2 where 2: "getSequence X txn COLLECTION s1 = (Inr \<lparr>seq_key = NewSequenceKey COLLECTION, seq_val = v\<rparr>, s2)" "ok s2"
    "view s2 = (view s)(collection_seq \<mapsto> put_uint64_be v)"
    using getSequence_spec [OF 1(2) txn seq, of v] v unfolding 1(3) by (auto simp: COLLECTION_def)
  obtain q s3 where 3: "seq_next X txn \<lparr>seq_key = NewSequenceKey COLLECTION, seq_val = v\<rparr> s2 = (Inr (v + 1, q), s3)" "ok s3"
    "view s3 = (view s)(collection_seq \<mapsto> put_uint64_be (v + 1))"
    using seq_next_spec [OF 2(2) txn, of X "\<lparr>seq_key = NewSequenceKey COLLECTION, seq_val = v\<rparr>" collection_seq v] seq 2(3) by auto
  obtain gb cid where gb: "ca_MarshalGlobal X (col_Name desc) ?sd = Inr gb" "NewSHA256CidV1 X gb = Inr cid"
    using X unfolding cat_laws_def by meson
  let ?id = "ca_String X cid"
  have id: "clean_part ?id" "ascii ?id" using X by (auto simp: cat_laws_def)
  let ?desc = "desc\<lparr>col_ID := ?x, col_Schema := ?sd\<lparr>sd_VersionID := ?id, sd_SchemaID := ?id\<rparr>\<rparr>"
  have "ascii_desc ?desc" using \<open>ascii_desc desc\<close> id number_fields_ascii [OF fs] by (simp add: ascii_desc_def)
  then obtain buf where buf: "ca_MarshalDesc X ?desc = Inr buf" "ca_UnmarshalDesc X buf = Inr ?desc"
    using X by (auto simp: cat_laws_def)
  have ks: "sys_key X (CollectionSchemaVersionKey ?id) = versionK ?id" "clean_key (versionK ?id)"
    "sys_key X (CollectionSchemaKey ?id) = schemaK ?id" "clean_key (schemaK ?id)"
    using id sys_key_eq [OF X] sys_key_clean by simp_all
  obtain s4 where 4: "ds_Put D (versionK ?id) buf s3 = (Inr (), s4)" "ok s4" "view s4 = (view s3)(versionK ?id \<mapsto> buf)"
    using PutE [OF 3(2) ks(2)] by blast
  obtain s5 where 5: "ds_Put D (schemaK ?id) (to_bytes ?id) s4 = (Inr (), s5)" "ok s5" "view s5 = (view s4)(schemaK ?id \<mapsto> to_bytes ?id)"
    using PutE [OF 4(2) ks(4)] by blast
  obtain s6 where 6: "ds_Put D (nameK (col_Name desc)) (to_bytes ?id) s5 = (Inr (), s6)" "ok s6"
    "view s6 = (view s5)(nameK (col_Name desc) \<mapsto> to_bytes ?id)"
    using PutE [OF 5(2) keys(2)] by blast
  let ?col = "\<lparr>co_colID = ?x, co_schemaID = ?id, co_desc = ?desc\<rparr>"
  have "createCollection X txn desc s = (Inr ?col, s6)"
    using 1(1) 2(1) 3(1) 4(1) 5(1) 6(1) new' [of ?x] gb buf(1) ks keys(1) txn
    by (simp add: createCollection_def new_key_defs abind_def lift_sum_def Let_def)
  moreover have "created desc v ?col" using fs id by (simp add: created_def)
  ultimately show ?thesis using buf(2) 6 unfolding 5(3) 4(3) 3(3)
    by (intro exI [of _ ?col] exI [of _ buf] exI [of _ s6]) simp
qed

lemma getCollectionByVersionID_spec:
  assumes "ok s" and "cat_laws X" and "Systemstore txn = D" and "clean_part n"
  shows "\<exists>s'. getCollectionByVersionID X txn n s = (case view s (versionK n) of None \<Rightarrow> Inl ErrNotFound
      | Some buf \<Rightarrow> map_sum id (\<lambda>d. \<lparr>co_colID = col_ID d, co_schemaID = sd_SchemaID (col_Schema d), co_desc = d\<rparr>) (ca_UnmarshalDesc X buf), s') \<and>
    ok s' \<and> view s' = view s"
proof -
  have K: "sys_key X (CollectionSchemaVersionKey n) = versionK n" "clean_key (versionK n)" "n \<noteq> []"
    using sys_key_eq [OF assms(2)] sys_key_clean assms(4) clean_part_ne by simp_all
  obtain s1 where 1: "ds_Get D (versionK n) s = (case view s (versionK n) of None \<Rightarrow> Inl ErrNotFound | Some v \<Rightarrow> Inr v, s1)"
    "ok s1" "view s1 = view s"
    using GetE [OF assms(1) K(2)] by blast
  then show ?thesis
    using assms(3) K by (cases "view s (versionK n)")
      (simp_all add: getCollectionByVersionID_def new_key_defs abind_def lift_sum_def split: sum.splits)
qed

text \<open>A collection's name and its schema both lead to its description through a version.\<close>

lemma getCollection_spec:
  assumes s: "ok s" and X: "cat_laws X" and txn: "Systemstore txn = D" and n: "clean_part n" and id: "clean_part id'"
    and buf: "view s (versionK id') = Some buf" "ca_UnmarshalDesc X buf = Inr d"
  shows "view s (nameK n) = Some (to_bytes id') \<Longrightarrow> \<exists>s'. getCollectionByName X txn n s =
      (Inr \<lparr>co_colID = col_ID d, co_schemaID = sd_SchemaID (col_Schema d), co_desc = d\<rparr>, s') \<and> ok s' \<and> view s' = view s"
    and "view s (schemaK n) = Some (to_bytes id') \<Longrightarrow> \<exists>s'. getCollectionBySchemaID X txn n s =
      (Inr \<lparr>co_colID = col_ID d, co_schemaID = sd_SchemaID (col_Schema d), co_desc = d\<rparr>, s') \<and> ok s' \<and> view s' = view s"
proof -
  assume "view s (nameK n) = Some (to_bytes id')"
  then obtain s1 where 1: "ds_Get D (nameK n) s = (Inr (to_bytes id'), s1)" "ok s1" "view s1 = view s"
    using GetE [OF s sys_key_clean [of "CollectionKey n"]] n by auto
  then show "\<exists>s'. getCollectionByName X txn n s =
      (Inr \<lparr>co_colID = col_ID d, co_schemaID = sd_SchemaID (col_Schema d), co_desc = d\<rparr>, s') \<and> ok s' \<and> view s' = view s"
    using getCollectionByVersionID_spec [OF 1(2) X txn id] buf n txn sys_key_eq [OF X, of "CollectionKey n"]
    by (auto simp: getCollectionByName_def new_key_defs abind_def clean_part_ne)
next
  assume "view s (schemaK n) = Some (to_bytes id')"
  then obtain s1 where 1: "ds_Get D (schemaK n) s = (Inr (to_bytes id'), s1)" "ok s1" "view s1 = view s"
    using GetE [OF s sys_key_clean [of "CollectionSchemaKey n"]] n by auto
  then show "\<exists>s'. getCollectionBySchemaID X txn n s =
      (Inr \<lparr>co_colID = col_ID d, co_schemaID = sd_SchemaID (col_Schema d), co_desc = d\<rparr>, s') \<and> ok s' \<and> view s' = view s"
    using getCollectionByVersionID_spec [OF 1(2) X txn id] buf n txn sys_key_eq [OF X, of "CollectionSchemaKey n"]
    by (auto simp: getCollectionBySchemaID_def new_key_defs abind_def clean_part_ne)
qed

lemma create_twice:
  assumes "ok s" and "cat_laws X" and "Systemstore txn = D" and "clean_part (col_Name desc)" and "view s (nameK (col_Name desc)) \<noteq> None"
  shows "fst (createCollection X txn desc s) = Inl ErrCollectionAlreadyExists"
proof -
  have K: "sys_key X (CollectionKey (col_Name desc)) = nameK (col_Name desc)" "clean_key (nameK (col_Name desc))"
    using sys_key_eq [OF assms(2)] sys_key_clean assms(4) by simp_all
  obtain s1 where "ds_Has D (nameK (col_Name desc)) s = (Inr True, s1)" using HasE [OF assms(1) K(2)] assms(5) by auto
  then show ?thesis using K assms(3) by (simp add: createCollection_def new_key_defs abind_def Let_def)
qed

text \<open>Storing a new version of a schema and reading the collection back.\<close>

lemma store_version:
  assumes s: "ok s" and X: "cat_laws X" and txn: "Systemstore txn = D" and n: "clean_part n" and i: "clean_part id'"
    and sid: "clean_part sid" and buf: "ca_UnmarshalDesc X buf = Inr d"
  shows "\<exists>s'. abind (ds_Put D (versionK id') buf) (\<lambda>_. abind (ds_Put D (schemaK sid) (to_bytes id')) (\<lambda>_.
      abind (ds_Put D (nameK n) (to_bytes id')) (\<lambda>_. getCollectionByName X txn n))) s =
    (Inr \<lparr>co_colID = col_ID d, co_schemaID = sd_SchemaID (col_Schema d), co_desc = d\<rparr>, s') \<and> ok s' \<and>
    view s' = (view s)(versionK id' \<mapsto> buf, schemaK sid \<mapsto> to_bytes id', nameK n \<mapsto> to_bytes id')"
proof -
  have K: "clean_key (versionK id')" "clean_key (schemaK sid)" "clean_key (nameK n)" using n i sid sys_key_clean by simp_all
  obtain s4 where 4: "ds_Put D (versionK id') buf s = (Inr (), s4)" "ok s4" "view s4 = (view s)(versionK id' \<mapsto> buf)"
    using PutE [OF s K(1)] by blast
  obtain s5 where 5: "ds_Put D (schemaK sid) (to_bytes id') s4 = (Inr (), s5)" "ok s5" "view s5 = (view s4)(schemaK sid \<mapsto> to_bytes id')"
    using PutE [OF 4(2) K(2)] by blast
  obtain s6 where 6: "ds_Put D (nameK n) (to_bytes id') s5 = (Inr (), s6)" "ok s6" "view s6 = (view s5)(nameK n \<mapsto> to_bytes id')"
    using PutE [OF 5(2) K(3)] by blast
  have v: "view s6 = (view s)(versionK id' \<mapsto> buf, schemaK sid \<mapsto> to_bytes id', nameK n \<mapsto> to_bytes id')"
    unfolding 6(3) 5(3) 4(3) ..
  obtain s7 where "getCollectionByName X txn n s6 =
      (Inr \<lparr>co_colID = col_ID d, co_schemaID = sd_SchemaID (col_Schema d), co_desc = d\<rparr>, s7)" "ok s7" "view s7 = view s6"
    using getCollection_spec(1) [OF 6(2) X txn n i _ buf] v by (auto simp: System_ToString_inj)
  then show ?thesis using 4(1) 5(1) 6(1) v by (simp add: abind_def)
qed

lemma updateCollection_spec:
  assumes s: "ok s" and X: "cat_laws X" and txn: "Systemstore txn = D" and n: "clean_part (col_Name desc)" and "ascii_desc desc"
    and i: "clean_part id'" and old: "view s (nameK (col_Name desc)) = Some (to_bytes id')" "view s (versionK id') = Some buf"
      "ca_UnmarshalDesc X buf = Inr old"
    and ok: "check_update old desc = Inr True" and sid: "clean_part (sd_SchemaID (col_Schema desc))"
  shows "\<exists>col s'. updateCollection X txn desc s = (Inr col, s') \<and> ok s' \<and> clean_part (sd_VersionID (col_Schema (co_desc col))) \<and>
    co_desc col = desc\<lparr>col_Schema := (col_Schema desc)\<lparr>sd_VersionID := sd_VersionID (col_Schema (co_desc col)),
      sd_Fields := complete_fields 0 (sd_Fields (col_Schema desc))\<rparr>\<rparr>"
proof -
  obtain s1 where 1: "getCollectionByName X txn (col_Name desc) s =
      (Inr \<lparr>co_colID = col_ID old, co_schemaID = sd_SchemaID (col_Schema old), co_desc = old\<rparr>, s1)" "ok s1" "view s1 = view s"
    using getCollection_spec(1) [OF s X txn n i old(2,3,1)] by blast
  let ?sd = "(col_Schema desc)\<lparr>sd_Fields := complete_fields 0 (sd_Fields (col_Schema desc))\<rparr>"
  obtain gb cid where gb: "ca_MarshalSchema X ?sd = Inr gb" "NewSHA256CidV1 X gb = Inr cid"
    using X unfolding cat_laws_def by meson
  let ?id = "ca_String X cid"
  have id: "clean_part ?id" "ascii ?id" using X by (auto simp: cat_laws_def)
  let ?desc = "desc\<lparr>col_Schema := ?sd\<lparr>sd_VersionID := ?id\<rparr>\<rparr>"
  have "ascii_desc ?desc" using \<open>ascii_desc desc\<close> id complete_fields_ascii by (simp add: ascii_desc_def)
  then obtain buf' where buf': "ca_MarshalDesc X ?desc = Inr buf'" "ca_UnmarshalDesc X buf' = Inr ?desc"
    using X by (auto simp: cat_laws_def)
  obtain s' where "abind (ds_Put D (versionK ?id) buf') (\<lambda>_. abind (ds_Put D (schemaK (sd_SchemaID (col_Schema desc))) (to_bytes ?id)) (\<lambda>_.
      abind (ds_Put D (nameK (col_Name desc)) (to_bytes ?id)) (\<lambda>_. getCollectionByName X txn (col_Name desc)))) s1 =
    (Inr \<lparr>co_colID = col_ID ?desc, co_schemaID = sd_SchemaID (col_Schema ?desc), co_desc = ?desc\<rparr>, s')" "ok s'"
    using store_version [OF 1(2) X txn n id(1) sid buf'(2)] by blast
  moreover have "sys_key X (CollectionSchemaVersionKey ?id) = versionK ?id" "sys_key X (CollectionKey (col_Name desc)) = nameK (col_Name desc)"
    "sys_key X (CollectionSchemaKey (sd_SchemaID (col_Schema desc))) = schemaK (sd_SchemaID (col_Schema desc))"
    using id n sid sys_key_eq [OF X] by simp_all
  moreover have "validateUpdateCollection X txn desc s = (Inr True, s1)"
    using 1(1) ok by (simp add: validateUpdateCollection_def atry_def lift_sum_def)
  ultimately have "updateCollection X txn desc s =
      (Inr \<lparr>co_colID = col_ID ?desc, co_schemaID = sd_SchemaID (col_Schema ?desc), co_desc = ?desc\<rparr>, s')"
    using gb buf'(1) txn
    by (simp add: updateCollection_def new_key_defs abind_step Let_def abind_lift)
  then show ?thesis using id \<open>ok s'\<close> by simp
qed

end

end
