(* ===== verification/CollectionSpec.thy ===== *)
theory CollectionSpec
  imports Collections CatalogSpec
begin

text \<open>
  What saving a document does to its fields, its marker and its DAGs. The fields that
  are written have registers of their own, so that the order in which Go visits them does not matter.
\<close>

section \<open>Setting a live composite\<close>

text \<open>A document gets its marker when it has none.\<close>

definition ensured :: "DataStoreKey \<Rightarrow> (string \<Rightarrow> bytes option) \<Rightarrow> string \<Rightarrow> bytes option" where
  "ensured k w = (if w (mkey k) = None then w(mkey k \<mapsto> [ObjectMarker]) else w)"

lemma ensured_field [simp]: "ensured (WithFieldId k f) = ensured k"
  by (simp add: ensured_def fun_eq_iff)

context kv_store
begin

lemma composite_live_replicated:
  fixes X :: "('c, 'n) pkgs"
  shows "replicated D view (\<lambda>s. ok s \<and> clock_laws X \<and> doc_wf k)
     (comp_data X (NewCompositeDAG (Datastore_of (MultiStoreFrom (x_ds X) D)) sv k n))
     (doc_inv k) (\<lambda>w. w) (\<lambda>_. ensured k) (\<lambda>d. \<exists>x. d = CompositeDelta x \<and> \<not> IsDeleted (cd_Status x))"
proof (intro replicated.intro kv_const replicated_axioms.intro)
  fix s and d :: "'c Delta" and i
  assume s: "ok s \<and> clock_laws X \<and> doc_wf k" and inv: "doc_inv k (dv s)"
    and "\<exists>x. d = CompositeDelta x \<and> \<not> IsDeleted (cd_Status x)"
  then obtain x where d: "d = CompositeDelta x" and live: "\<not> IsDeleted (cd_Status x)" by blast
  have X: "clock_laws X" and k: "doc_wf k" using s by simp_all
  note N = ds_lawsD(1) [OF clock_lawsD(1) [OF X]] and kv = data_kv [OF conjunct1 [OF s] X]
  obtain s' where s': "Comp_Merge (pk_NewKey (x_ds X))
      (NewCompositeDAG (prefixed (x_ds X) D ''/db/data'') sv k n) (CompositeDelta x) s = (Inr (), s')"
    "ok s' \<and> ds_laws (x_ds X) \<and> clean_key ''/db/data'' \<and>
      other_views ''/db/data'' (view s') = other_views ''/db/data'' (view s)"
    "dv s' = ensured k (dv s)"
    unfolding ensured_def using kv_store.doc_ensure_spec [OF kv(1), OF kv(2) N k live, of sv n] by blast
  moreover have "doc_inv k (ensured k (dv s))" using doc_ensured_spec [OF k inv] by (simp add: ensured_def)
  ultimately show "\<exists>s'. rd_Merge (comp_data X (NewCompositeDAG (Datastore_of (MultiStoreFrom (x_ds X) D)) sv k n)) d i s = (Inr (), s') \<and>
      (ok s' \<and> clock_laws X \<and> doc_wf k) \<and>
      other_views ''/db/data'' (view s') = other_views ''/db/data'' (view s) \<and> doc_inv k (dv s') \<and> dv s' = ensured k (dv s)"
    using X k by (intro exI [of _ s']) (simp add: comp_data_def d kv(3))
qed

lemma MC_Set_step:
  fixes X :: "('c, 'n) pkgs"
  assumes "ok s" and X: "clock_laws X" and k: "doc_wf k" and f: "clean_part f" and ns: "ns = ToHeadStoreKey (WithFieldId k f)"
    and inv: "heads_inv X ns (hv s)" "doc_inv k (dv s)" and names: "\<forall>l \<in> set links. dl_Name l \<noteq> ''_head''"
  shows "\<exists>nd s'. MC_Set X (merkle_comp X sv (WithFieldId k f) n) patch links s = (Inr (nd, next_height X ns (hv s)), s') \<and> ok s' \<and>
    heads_upd X ns (hv s) (hv s') [dag_Cid (x_dag X) nd \<mapsto> next_height X ns (hv s)] \<and>
    doc_inv k (dv s') \<and> dv s' = ensured k (dv s)"
proof -
  let ?comp = "NewCompositeDAG (Datastore_of (MultiStoreFrom (x_ds X) D)) sv (WithFieldId k f) n"
  let ?d = "CompositeDelta (Comp_Set (x_cid X) ?comp patch links)" and ?h = "next_height X ns (hv s)"
  have nsw: "ns_wf ns" using ns_wf_field [OF k f] by (simp add: ns)
  note add = replicated.AddDAGNode_spec [OF composite_live_replicated [where sv = sv and n = n and X = X and k = "WithFieldId k f"],
      OF _ X nsw inv(1), where d = ?d]
  have "\<exists>cs nd s'. AddDAGNode X (NewMerkleClock (Headstore (MultiStoreFrom (x_ds X) D)) (DAGstore (MultiStoreFrom (x_ds X) D)) ns
      (comp_data X ?comp)) ?d s = (Inr (nd, SetPriority ?h ?d), s') \<and> (ok s' \<and> clock_laws X \<and> doc_wf (WithFieldId k f)) \<and>
    set cs = dom (head_map X ns (hv s)) \<and> makeNode X (Some (SetPriority ?h ?d)) cs = Inr nd \<and>
    heads_upd X ns (hv s) (hv s') [dag_Cid (x_dag X) nd \<mapsto> ?h] \<and>
    bv s' = put_block (x_block X) \<lparr>blk_Cid = dag_Cid (x_dag X) nd, blk_RawData = dag_RawData (x_dag X) nd\<rparr> (bv s) \<and>
    doc_inv k (dv s') \<and> dv s' = ensured k (dv s) \<and>
    sub_view ''/db/system'' (view s') = sub_view ''/db/system'' (view s)"
    using add assms(1) X k inv(2) names by (simp add: Comp_Set_def IsDeleted_def)
  then show ?thesis
    by (auto simp: MC_Set_def Publish_def NewMerkleCompositeDAG_def Let_def ns abind_def Comp_Set_def)
qed

end

section \<open>Fields of a document\<close>

definition field_id :: "collection \<Rightarrow> string \<Rightarrow> string" where
  "field_id c n = (case tryGetSchemaFieldID c n of None \<Rightarrow> [] | Some i \<Rightarrow> format_uint (unat i))"

abbreviation entry_id :: "collection \<Rightarrow> string \<times> simpleField \<Rightarrow> string" where
  "entry_id c \<equiv> \<lambda>e. field_id c (fst e)"

text \<open>What is written for a value.\<close>

definition saved_bytes :: "('u, 'c) doc_pkgs \<Rightarrow> ('u, 'c) Value \<Rightarrow> error + bytes" where
  "saved_bytes P vl = (if v_delete vl then Inr [] else dp_Marshal P (v_value vl))"

text \<open>
  An entry of the document that can be saved to a register of its own: when it is dirty, its value
  is a writable register value of a field of the schema that is not the id of a secondary relation.
\<close>

definition dirty :: "('u, 'c) Document \<Rightarrow> string \<times> simpleField \<Rightarrow> bool" where
  "dirty doc e \<longleftrightarrow> (case GetValueWithField doc (snd e) of Inl _ \<Rightarrow> False | Inr vl \<Rightarrow> v_isDirty vl)"

definition writable :: "('u, 'c) doc_pkgs \<Rightarrow> collection \<Rightarrow> ('u, 'c) Document \<Rightarrow> string \<times> simpleField \<Rightarrow> bool" where
  "writable P c doc e \<longleftrightarrow>
     (case GetValueWithField doc (snd e) of
        Inl _ \<Rightarrow> False
      | Inr vl \<Rightarrow> v_isDirty vl \<longrightarrow>
          v_t vl = LWW_REGISTER \<and> v_cbor vl \<and> (case saved_bytes P vl of Inl _ \<Rightarrow> False | Inr _ \<Rightarrow> True) \<and> fst e \<noteq> ''_head'' \<and>
          (case GetField (co_desc c) (fst e) of
             None \<Rightarrow> False
           | Some fd \<Rightarrow> \<not> IsObject fd \<and> isSecondaryIDField c fd = None))"

text \<open>
  The register of a field is in order: its heads are readable, and the next height is greater than
  the priority of the stored value and does not wrap.
\<close>

definition ready :: "('c, 'n) pkgs \<Rightarrow> DataStoreKey \<Rightarrow> (string \<Rightarrow> bytes option) \<Rightarrow> (string \<Rightarrow> bytes option) \<Rightarrow> string \<Rightarrow> bool" where
  "ready X k hw dw f \<longleftrightarrow> heads_inv X (ToHeadStoreKey (WithFieldId k f)) hw \<and>
     stored_prio k dw f \<le> top_height X (ToHeadStoreKey (WithFieldId k f)) hw \<and>
     unat (top_height X (ToHeadStoreKey (WithFieldId k f)) hw) + 1 < 2 ^ 64"

lemma ready_next: "ready X k hw dw f \<Longrightarrow> stored_prio k dw f < next_height X (ToHeadStoreKey (WithFieldId k f)) hw"
  unfolding ready_def next_height_top using top_step(1) by (blast intro: order_le_less_trans)

lemma writable_field:
  assumes "writable P c doc (n, fl)" and "dirty doc (n, fl)"
  shows "\<exists>vl b fd. GetValueWithField doc fl = Inr vl \<and> v_isDirty vl \<and> v_t vl = LWW_REGISTER \<and> v_cbor vl \<and> saved_bytes P vl = Inr b \<and>
    n \<noteq> ''_head'' \<and> GetField (co_desc c) n = Some fd \<and> isSecondaryIDField c fd = None \<and>
    tryGetFieldKey c pk n = Some (WithFieldId (ToDataStoreKey pk) (field_id c n)) \<and> clean_part (field_id c n)"
proof -
  obtain vl b fd where v: "GetValueWithField doc fl = Inr vl" "v_isDirty vl" "v_t vl = LWW_REGISTER" "v_cbor vl" "saved_bytes P vl = Inr b"
    "n \<noteq> ''_head''" "GetField (co_desc c) n = Some fd" "\<not> IsObject fd" "isSecondaryIDField c fd = None"
    using assms by (auto simp: writable_def dirty_def split: sum.splits option.splits)
  then have "find (\<lambda>field. fd_Name field = n) (sd_Fields (col_Schema (co_desc c))) = Some fd"
    by (auto simp: GetField_def split: if_splits)
  then have "tryGetSchemaFieldID c n = Some (fd_ID fd)"
    using v(8) by (simp add: tryGetSchemaFieldID_def IsObject_def IsObjectArray_def)
  then show ?thesis using v digits_clean
    by (simp add: tryGetFieldKey_def field_id_def ToDataStoreKey_def WithFieldId_def empty_DataStoreKey_def)
qed

lemma writable_clean: "writable P c doc e \<Longrightarrow> dirty doc e \<Longrightarrow> clean_part (entry_id c e)"
  using writable_field [of P c doc "fst e" "snd e"] by auto

text \<open>
  After the save of an entry its register holds the bytes of the value, and the head of the
  register's DAG is the node that the entry's link names, one above the heads before.
\<close>

definition saved ::
    "('u, 'c) doc_pkgs \<Rightarrow> ('c, 'n) pkgs \<Rightarrow> DataStoreKey \<Rightarrow> collection \<Rightarrow> ('u, 'c) Document \<Rightarrow> (string \<Rightarrow> bytes option) \<Rightarrow>
     (string \<Rightarrow> bytes option) \<Rightarrow> (string \<Rightarrow> bytes option) \<Rightarrow> string \<times> simpleField \<Rightarrow> 'c DAGLink \<Rightarrow> bool" where
  "saved P X k c doc hw hw' dw' e l \<longleftrightarrow> dl_Name l = fst e \<and>
     (let f = field_id c (fst e); ns = ToHeadStoreKey (WithFieldId k f)
      in head_map X ns hw' = [dl_Cid l \<mapsto> next_height X ns hw] \<and> stored_prio k dw' f = next_height X ns hw \<and> heads_inv X ns hw' \<and>
         (\<exists>vl b. GetValueWithField doc (snd e) = Inr vl \<and> saved_bytes P vl = Inr b \<and> dw' (vkey k f) = Some (LWW_REGISTER # b)))"

text \<open>A field whose register and heads are as before.\<close>

definition same_field ::
    "('c, 'n) pkgs \<Rightarrow> DataStoreKey \<Rightarrow> (string \<Rightarrow> bytes option) \<Rightarrow> (string \<Rightarrow> bytes option) \<Rightarrow> (string \<Rightarrow> bytes option) \<Rightarrow>
     (string \<Rightarrow> bytes option) \<Rightarrow> string \<Rightarrow> bool" where
  "same_field X k hw dw hw' dw' f \<longleftrightarrow>
     head_map X (ToHeadStoreKey (WithFieldId k f)) hw' = head_map X (ToHeadStoreKey (WithFieldId k f)) hw \<and>
     heads_inv X (ToHeadStoreKey (WithFieldId k f)) hw' = heads_inv X (ToHeadStoreKey (WithFieldId k f)) hw \<and>
     dw' (pkey k f) = dw (pkey k f) \<and> dw' (vkey k f) = dw (vkey k f)"

lemma same_field_trans:
  "same_field X k hw dw hw1 dw1 f \<Longrightarrow> same_field X k hw1 dw1 hw2 dw2 f \<Longrightarrow> same_field X k hw dw hw2 dw2 f"
  by (simp add: same_field_def)

lemma saved_same:
  "saved P X k c doc hw hw1 dw1 e l \<Longrightarrow> same_field X k hw1 dw1 hw2 dw2 (field_id c (fst e)) \<Longrightarrow> saved P X k c doc hw hw2 dw2 e l"
  by (simp add: saved_def same_field_def Let_def stored_prio_def)

lemma saved_from:
  "saved P X k c doc hw1 hw2 dw2 e l \<Longrightarrow> same_field X k hw dw hw1 dw1 (field_id c (fst e)) \<Longrightarrow> saved P X k c doc hw hw2 dw2 e l"
  by (simp add: saved_def same_field_def Let_def next_height_def)

lemma ready_same: "same_field X k hw dw hw1 dw1 f \<Longrightarrow> ready X k hw1 dw1 f = ready X k hw dw f"
  by (simp add: ready_def same_field_def top_height_def stored_prio_def)

lemma other_entry:
  assumes "\<forall>g. clean_part g \<longrightarrow> g \<noteq> entry_id c e \<longrightarrow> Q g" and "\<forall>x \<in> set (e # es). clean_part (entry_id c x)"
    and "distinct (map (entry_id c) (e # es))" and "x \<in> set es"
  shows "Q (entry_id c x)"
proof -
  have "entry_id c x \<in> entry_id c ` set es" using assms(4) by (rule imageI)
  moreover have "entry_id c e \<notin> entry_id c ` set es" using assms(3) by simp
  ultimately have "entry_id c x \<noteq> entry_id c e" by metis
  then show ?thesis using assms(1,2,4) by simp
qed

lemma saved_Cons:
  assumes "saved P X k c doc hw hw1 dw1 e l"
    and "\<forall>g. clean_part g \<longrightarrow> g \<noteq> field_id c (fst e) \<longrightarrow> same_field X k hw dw hw1 dw1 g"
    and "list_all2 (saved P X k c doc hw1 hw2 dw2) es ls"
    and "\<forall>g. clean_part g \<longrightarrow> g \<notin> entry_id c ` set es \<longrightarrow> same_field X k hw1 dw1 hw2 dw2 g"
    and clean: "\<forall>x \<in> set (e # es). clean_part (field_id c (fst x))" and dist: "distinct (map (entry_id c) (e # es))"
  shows "list_all2 (saved P X k c doc hw hw2 dw2) (e # es) (l # ls)"
    and "\<forall>g. clean_part g \<longrightarrow> g \<notin> entry_id c ` set (e # es) \<longrightarrow> same_field X k hw dw hw2 dw2 g"
proof -
  have "same_field X k hw dw hw1 dw1 (field_id c (fst x))" if "x \<in> set es" for x
    by (rule other_entry [OF assms(2) clean dist that])
  then have "list_all2 (saved P X k c doc hw hw2 dw2) es ls"
    by (intro list.rel_mono_strong [OF assms(3)]) (blast intro: saved_from)
  moreover have "same_field X k hw1 dw1 hw2 dw2 (field_id c (fst e))" using assms(4) clean dist by simp
  ultimately show "list_all2 (saved P X k c doc hw hw2 dw2) (e # es) (l # ls)" using saved_same [OF assms(1)] by simp
  show "\<forall>g. clean_part g \<longrightarrow> g \<notin> entry_id c ` set (e # es) \<longrightarrow> same_field X k hw dw hw2 dw2 g"
    using assms(2,4) by (auto intro: same_field_trans)
qed

lemma ns_inj: "ToHeadStoreKey (WithFieldId k f) = ToHeadStoreKey (WithFieldId k g) \<longleftrightarrow> f = g"
  by (auto simp: ToHeadStoreKey_def WithFieldId_def)

text \<open>The properties that are hashed into the composite.\<close>

definition property_of :: "('u, 'c) Document \<Rightarrow> simpleField \<Rightarrow> ('u, 'c) dval" where
  "property_of doc fl = (case GetValueWithField doc fl of Inl _ \<Rightarrow> Plain Nil_any | Inr vl \<Rightarrow> if v_delete vl then Plain Nil_any else v_value vl)"

definition properties :: "('u, 'c) Document \<Rightarrow> (string \<times> simpleField) list \<Rightarrow> (string \<times> ('u, 'c) dval) list \<Rightarrow> (string \<times> ('u, 'c) dval) list" where
  "properties doc fs = fold (\<lambda>(n, fl). AList.update n (property_of doc fl)) (filter (dirty doc) fs)"

text \<open>A document whose fields can all be saved: the hypotheses on the document and on the store.\<close>

definition savable ::
    "('u, 'c) doc_pkgs \<Rightarrow> ('c, 'n) pkgs \<Rightarrow> DataStoreKey \<Rightarrow> collection \<Rightarrow> ('u, 'c) Document \<Rightarrow> (string \<Rightarrow> bytes option) \<Rightarrow>
     (string \<Rightarrow> bytes option) \<Rightarrow> bool" where
  "savable P X k c doc hw dw \<longleftrightarrow>
     (\<forall>e \<in> set (doc_fields doc). writable P c doc e) \<and>
     (\<forall>e \<in> set (doc_fields doc). dirty doc e \<longrightarrow> ready X k hw dw (entry_id c e)) \<and>
     distinct (map (entry_id c) (filter (dirty doc) (doc_fields doc))) \<and>
     heads_inv X (ToHeadStoreKey (WithFieldId k COMPOSITE_NAMESPACE)) hw \<and>
     (\<exists>em buf. dp_EncMode P = Inr em \<and> em (properties doc (doc_fields doc) []) = Inr buf)"

lemma clean_composite: "clean_part COMPOSITE_NAMESPACE"
  by (simp add: COMPOSITE_NAMESPACE_def clean_part_def key_part_def)

lemma field_id_digits: "field_id c n \<noteq> COMPOSITE_NAMESPACE"
proof -
  have "CHR ''C'' \<notin> set (field_id c n)"
    using not_digit_notin [of "CHR ''C''"] by (simp add: field_id_def is_digit_def split: option.split)
  then show ?thesis by (auto simp: COMPOSITE_NAMESPACE_def)
qed

lemma no_composite_entry: "COMPOSITE_NAMESPACE \<notin> entry_id c ` A"
  using field_id_digits [THEN not_sym] by blast

lemma factory_instances:
  "InstanceWithStores (DefaultFactory X) ms sv LWW_REGISTER k n =
     Inr (MerkleLWW (NewMerkleLWWRegister X (Datastore_of ms) (Headstore ms) (DAGstore ms) sv k n))"
  "InstanceWithStores (DefaultFactory X) ms sv COMPOSITE k n =
     Inr (MerkleComposite (NewMerkleCompositeDAG X (Datastore_of ms) (Headstore ms) (DAGstore ms) sv k n))"
  by (simp_all add: InstanceWithStores_def getRegisteredFactory_def DefaultFactory_def Factory_Register_def NewFactory_def
      lwwFactoryFn_def compFactoryFn_def LWW_REGISTER_def COMPOSITE_def)

lemma list_all2_mem:
  assumes "list_all2 R xs ys"
  shows "x \<in> set xs \<Longrightarrow> \<exists>y \<in> set ys. R x y" and "y \<in> set ys \<Longrightarrow> \<exists>x \<in> set xs. R x y"
  using assms by (induction rule: list_all2_induct) auto

lemma saved_names:
  assumes "list_all2 (saved P X k c doc hw hw' dw') (filter (dirty doc) fs) ls" and "\<forall>e \<in> set fs. writable P c doc e"
  shows "\<forall>l \<in> set ls. dl_Name l \<noteq> ''_head''"
proof
  fix l assume "l \<in> set ls"
  then obtain e where "e \<in> set (filter (dirty doc) fs)" "saved P X k c doc hw hw' dw' e l"
    using list_all2_mem(2) [OF assms(1)] by blast
  then show "dl_Name l \<noteq> ''_head''" using writable_field [of P c doc "fst e" "snd e"] assms(2) by (auto simp: saved_def)
qed

lemma saved_composite:
  assumes "list_all2 (saved P X k c doc hw hw1 dw1) (filter (dirty doc) fs) ls" and "\<forall>e \<in> set fs. writable P c doc e"
    and "\<forall>g. clean_part g \<longrightarrow> g \<noteq> COMPOSITE_NAMESPACE \<longrightarrow> same_field X k hw1 dw1 hw2 dw2 g"
  shows "list_all2 (saved P X k c doc hw hw2 dw2) (filter (dirty doc) fs) ls"
proof (rule list.rel_mono_strong [OF assms(1)])
  fix e l assume e: "e \<in> set (filter (dirty doc) fs)" and s: "saved P X k c doc hw hw1 dw1 e l"
  have "clean_part (entry_id c e)" using e assms(2) writable_clean [of P c doc e] by simp
  then show "saved P X k c doc hw hw2 dw2 e l" using saved_same [OF s] assms(3) field_id_digits by simp
qed

lemma save_fields_dirty:
  assumes "writable P c doc (n, fl)" and "dirty doc (n, fl)" and "GetValueWithField doc fl = Inr vl" and "k = ToDataStoreKey pk"
    and "saveDocValue P X ms c (WithFieldId k (field_id c n)) vl s = (Inr (nd, h), s1)"
  shows "save_fields P X ms patch c pk doc ((n, fl) # fs) links ps (s, cbs) =
    save_fields P X ms patch c pk doc fs (links @ [\<lparr>dl_Name = n, dl_Cid = dag_Cid (x_dag X) nd\<rparr>])
      (AList.update n (property_of doc fl) ps) (s1, cbs)"
proof -
  obtain fd where "GetField (co_desc c) n = Some fd" "isSecondaryIDField c fd = None" "v_isDirty vl"
    "tryGetFieldKey c pk n = Some (WithFieldId k (field_id c n))"
    using writable_field [OF assms(1,2), of pk] assms(3,4) by auto
  then show ?thesis using assms(3,5) by (simp add: on_stores_def abind_def property_of_def)
qed

context kv_store
begin

lemma saveDocValue_step:
  fixes X :: "('c, 'n) pkgs"
  assumes "ok s" and X: "clock_laws X" and k: "doc_wf k" and inv: "doc_inv k (dv s)" and live: "\<not> marked_deleted k (dv s)"
    and e: "writable P c doc (n, fl)" "dirty doc (n, fl)" and r: "ready X k (hv s) (dv s) (field_id c n)"
    and vl: "GetValueWithField doc fl = Inr vl"
  shows "\<exists>nd h s'. saveDocValue P X (MultiStoreFrom (x_ds X) D) c (WithFieldId k (field_id c n)) vl s = (Inr (nd, h), s') \<and> ok s' \<and>
    doc_inv k (dv s') \<and> dv s' (mkey k) = dv s (mkey k) \<and>
    saved P X k c doc (hv s) (hv s') (dv s') (n, fl) \<lparr>dl_Name = n, dl_Cid = dag_Cid (x_dag X) nd\<rparr> \<and>
    (\<forall>g. clean_part g \<longrightarrow> g \<noteq> field_id c n \<longrightarrow> same_field X k (hv s) (dv s) (hv s') (dv s') g)"
proof -
  let ?f = "field_id c n" and ?sv = "sd_VersionID (col_Schema (co_desc c))"
  let ?ns = "ToHeadStoreKey (WithFieldId k ?f)" and ?nm = "case GetFieldByID (co_desc c) ?f of None \<Rightarrow> [] | Some field \<Rightarrow> fd_Name field"
  obtain b where b: "v_t vl = LWW_REGISTER" "v_cbor vl" "saved_bytes P vl = Inr b" and f: "clean_part ?f"
    using writable_field [OF e] vl by auto
  obtain nd s' where s': "ML_Set X (merkle_reg X ?sv (WithFieldId k ?f) ?nm) b s = (Inr (nd, next_height X ?ns (hv s)), s')" "ok s'"
    and h: "heads_upd X ?ns (hv s) (hv s') [dag_Cid (x_dag X) nd \<mapsto> next_height X ?ns (hv s)]"
    and d: "doc_inv k (dv s')" "dv s' = write_field k (dv s) ?f (next_height X ?ns (hv s), b)"
    using ML_Set_step [OF assms(1) X k f _ inv ready_next [OF r] refl] r unfolding ready_def by blast
  have "abind (if v_delete vl then ret [] else lift_sum (Value_Bytes (dp_Marshal P) vl)) g = g b" for g :: "bytes \<Rightarrow> ('s, 'n \<times> u64) act"
    using b(3) by (auto simp: saved_bytes_def Value_Bytes_def abind_def ret_def lift_sum_def fun_eq_iff split: if_splits)
  then have "saveDocValue P X (MultiStoreFrom (x_ds X) D) c (WithFieldId k ?f) vl s = (Inr (nd, next_height X ?ns (hv s)), s')"
    using s'(1) b(1,2) by (simp add: saveDocValue_def saveValueToMerkleCRDT_def factory_instances Let_def abind_lift WithFieldId_def)
  moreover have "saved P X k c doc (hv s) (hv s') (dv s') (n, fl) \<lparr>dl_Name = n, dl_Cid = dag_Cid (x_dag X) nd\<rparr>"
    using h r vl b(3) write_field_live [OF k f live] d(2) by (simp add: saved_def Let_def heads_upd_def ready_def)
  moreover have "same_field X k (hv s) (dv s) (hv s') (dv s') g" if g: "clean_part g" "g \<noteq> ?f" for g
    using h ns_wf_field [OF k g(1)] g(2) doc_keys_distinct [OF k g(1) f] doc_keys_distinct [OF k f g(1)]
    by (auto simp: same_field_def heads_upd_def ns_inj d(2) write_field_def tkey_def)
  moreover have "dv s' (mkey k) = dv s (mkey k)"
    using doc_keys_distinct [OF k f f] by (auto simp: d(2) write_field_def)
  ultimately show ?thesis using s'(2) d(1) by blast
qed

lemma save_fields_spec:
  fixes X :: "('c, 'n) pkgs"
  assumes X: "clock_laws X" and k: "doc_wf k" and pk: "k = ToDataStoreKey pk"
    and "ok s" and "doc_inv k (dv s)" and "\<not> marked_deleted k (dv s)" and "\<forall>e \<in> set fs. writable P c doc e"
    and "\<forall>e \<in> set fs. dirty doc e \<longrightarrow> ready X k (hv s) (dv s) (field_id c (fst e))"
    and "distinct (map (entry_id c) (filter (dirty doc) fs))"
  shows "\<exists>ls s'. save_fields P X (MultiStoreFrom (x_ds X) D) patch c pk doc fs links ps (s, cbs) =
      (Inr (links @ ls, properties doc fs ps), (s', cbs)) \<and> ok s' \<and> doc_inv k (dv s') \<and> dv s' (mkey k) = dv s (mkey k) \<and>
    list_all2 (saved P X k c doc (hv s) (hv s') (dv s')) (filter (dirty doc) fs) ls \<and>
    (\<forall>g. clean_part g \<longrightarrow> g \<notin> entry_id c ` set (filter (dirty doc) fs) \<longrightarrow> same_field X k (hv s) (dv s) (hv s') (dv s') g)"
  using assms(4-9)
proof (induction fs arbitrary: s links ps)
  case Nil
  then show ?case by (intro exI [of _ "[]"] exI [of _ s]) (simp add: properties_def same_field_def ret_def)
next
  case (Cons e fs)
  obtain n fl where e: "e = (n, fl)" by (cases e)
  have w: "writable P c doc (n, fl)" "\<forall>e \<in> set fs. writable P c doc e" using Cons.prems(4) e by auto
  obtain vl where vl: "GetValueWithField doc fl = Inr vl" using w(1) by (auto simp: writable_def split: sum.splits)
  show ?case
  proof (cases "dirty doc e")
    case False
    then have "\<not> v_isDirty vl" using vl e by (simp add: dirty_def)
    then show ?thesis
      using Cons.IH [OF Cons.prems(1-3) w(2), of links ps] Cons.prems(5,6) False vl e by (simp add: properties_def)
  next
    case dirty: True
    then have dt: "dirty doc (n, fl)" using e by simp
    have "ready X k (hv s) (dv s) (field_id c n)" using Cons.prems(5) dirty e by auto
    from saveDocValue_step [OF Cons.prems(1) X k Cons.prems(2,3) w(1) dt this vl] obtain nd h s1
      where 1: "saveDocValue P X (MultiStoreFrom (x_ds X) D) c (WithFieldId k (field_id c n)) vl s = (Inr (nd, h), s1)"
        "ok s1" "doc_inv k (dv s1)" "dv s1 (mkey k) = dv s (mkey k)"
        "saved P X k c doc (hv s) (hv s1) (dv s1) (n, fl) \<lparr>dl_Name = n, dl_Cid = dag_Cid (x_dag X) nd\<rparr>"
        "\<forall>g. clean_part g \<longrightarrow> g \<noteq> field_id c n \<longrightarrow> same_field X k (hv s) (dv s) (hv s1) (dv s1) g" by blast
    have clean: "\<forall>x \<in> set (e # filter (dirty doc) fs). clean_part (field_id c (fst x))"
      using writable_field [of P c doc] w dt e by fastforce
    have dist: "distinct (map (entry_id c) (e # filter (dirty doc) fs))" using Cons.prems(6) dirty by simp
    have sf: "same_field X k (hv s) (dv s) (hv s1) (dv s1) (field_id c (fst x))" if x: "x \<in> set fs" "dirty doc x" for x
      by (rule other_entry [OF _ clean dist]) (use 1(6) e x in auto)
    let ?l = "\<lparr>dl_Name = n, dl_Cid = dag_Cid (x_dag X) nd\<rparr>" and ?ps = "AList.update n (property_of doc fl) ps"
    have "\<not> marked_deleted k (dv s1)" using Cons.prems(3) 1(4) by (simp add: marked_deleted_def)
    moreover have "\<forall>x \<in> set fs. dirty doc x \<longrightarrow> ready X k (hv s1) (dv s1) (field_id c (fst x))"
      using Cons.prems(5) sf ready_same by fastforce
    ultimately obtain ls s' where 2: "save_fields P X (MultiStoreFrom (x_ds X) D) patch c pk doc fs (links @ [?l]) ?ps (s1, cbs) =
        (Inr ((links @ [?l]) @ ls, properties doc fs ?ps), (s', cbs))" "ok s'" "doc_inv k (dv s')" "dv s' (mkey k) = dv s1 (mkey k)"
      "list_all2 (saved P X k c doc (hv s1) (hv s') (dv s')) (filter (dirty doc) fs) ls"
      "\<forall>g. clean_part g \<longrightarrow> g \<notin> entry_id c ` set (filter (dirty doc) fs) \<longrightarrow> same_field X k (hv s1) (dv s1) (hv s') (dv s') g"
      using Cons.IH [OF 1(2,3) _ w(2), of "links @ [?l]" ?ps] dist by auto
    have "save_fields P X (MultiStoreFrom (x_ds X) D) patch c pk doc (e # fs) links ps (s, cbs) =
        (Inr (links @ ?l # ls, properties doc (e # fs) ps), (s', cbs))"
      using save_fields_dirty [OF w(1) dt vl pk 1(1)] 2(1) dt by (simp add: e properties_def)
    moreover have "\<forall>g. clean_part g \<longrightarrow> g \<noteq> entry_id c e \<longrightarrow> same_field X k (hv s) (dv s) (hv s1) (dv s1) g" using 1(6) e by simp
    note saved_Cons [OF 1(5) [folded e] this 2(5,6) clean dist]
    ultimately show ?thesis using 1(4,6) 2(2-4) dirty e by (intro exI [of _ "?l # ls"] exI [of _ s']) simp
  qed
qed

text \<open>Setting the composite after the fields leaves the fields alone.\<close>

lemma saveComposite_step:
  fixes X :: "('c, 'n) pkgs"
  assumes "ok s" and X: "clock_laws X" and k: "doc_wf k" and inv: "doc_inv k (dv s)" and live: "\<not> marked_deleted k (dv s)"
    and h: "heads_inv X (ToHeadStoreKey (WithFieldId k COMPOSITE_NAMESPACE)) (hv s)" and names: "\<forall>l \<in> set links. dl_Name l \<noteq> ''_head''"
  defines "ns \<equiv> ToHeadStoreKey (WithFieldId k COMPOSITE_NAMESPACE)"
  shows "\<exists>nd s'. saveValueToMerkleCRDT X (MultiStoreFrom (x_ds X) D) c k COMPOSITE [ArgBytes buf, ArgLinks links, ArgStatus Active] s =
      (Inr (nd, next_height X ns (hv s)), s') \<and> ok s' \<and> doc_inv k (dv s') \<and> dv s' (mkey k) = Some [ObjectMarker] \<and>
    head_map X ns (hv s') = [dag_Cid (x_dag X) nd \<mapsto> next_height X ns (hv s)] \<and> heads_inv X ns (hv s') \<and>
    (\<forall>g. clean_part g \<longrightarrow> g \<noteq> COMPOSITE_NAMESPACE \<longrightarrow> same_field X k (hv s) (dv s) (hv s') (dv s') g)"
proof -
  obtain nd s' where s': "MC_Set X (merkle_comp X (sd_VersionID (col_Schema (co_desc c))) (WithFieldId k COMPOSITE_NAMESPACE) []) buf links s =
      (Inr (nd, next_height X ns (hv s)), s')" "ok s'" "heads_upd X ns (hv s) (hv s') [dag_Cid (x_dag X) nd \<mapsto> next_height X ns (hv s)]"
    "doc_inv k (dv s')" "dv s' = ensured k (dv s)"
    using MC_Set_step [OF assms(1) X k clean_composite _ h inv names] unfolding ns_def by blast
  have "dv s (mkey k) \<in> {None, Some [ObjectMarker]}" using inv live by (auto simp: doc_inv_def marked_deleted_def)
  then have "dv s' (mkey k) = Some [ObjectMarker]" by (auto simp: s'(5) ensured_def)
  moreover have "same_field X k (hv s) (dv s) (hv s') (dv s') g" if g: "clean_part g" "g \<noteq> COMPOSITE_NAMESPACE" for g
    using s'(3) ns_wf_field [OF k g(1)] g(2) doc_keys_distinct [OF k g(1) g(1)]
    by (auto simp: same_field_def heads_upd_def ns_inj ns_def s'(5) ensured_def)
  ultimately show ?thesis
    using s' h by (intro exI [of _ nd] exI [of _ s'])
      (simp add: saveValueToMerkleCRDT_def factory_instances Let_def abind_lift heads_upd_def ns_def [symmetric] IsDeleted_def Active_def COMPOSITE_def LWW_REGISTER_def
        factory_instances(2) [unfolded COMPOSITE_def])
qed

section \<open>Existence\<close>

lemma col_exists_step:
  fixes X :: "('c, 'n) pkgs"
  assumes "ok s" and X: "clock_laws X" and k: "doc_wf k" and pk: "k = ToDataStoreKey pk"
  shows "\<exists>s'. col_exists X (MultiStoreFrom (x_ds X) D) pk s =
      (Inr (dv s (mkey k) \<noteq> None, dv s (mkey k) = Some [DeletedObjectMarker]), s') \<and> ok s' \<and> hv s' = hv s \<and> dv s' = dv s"
proof -
  note kv = data_kv [OF assms(1) X]
  have key: "Primary_ToDS (pk_NewKey (x_ds X)) pk = mkey k" "clean_key (mkey k)"
    using ToDS_keys(5) [OF ds_lawsD(1) [OF clock_lawsD(1) [OF X]] k, of "[]"] ikey_clean [OF k, of "''pk''" "[]"] mkey_ikey [OF k]
    by (cases pk; simp add: pk ToDataStoreKey_def ToPrimaryDataStoreKey_def empty_DataStoreKey_def)+
  obtain s' where g: "ds_Get (prefixed (x_ds X) D ''/db/data'') (mkey k) s = (case dv s (mkey k) of None \<Rightarrow> Inl ErrNotFound | Some v \<Rightarrow> Inr v, s')"
    and s': "ok s'" "other_views ''/db/data'' (view s') = other_views ''/db/data'' (view s)" "dv s' = dv s"
    using kv_store.GetE [OF kv(1), OF kv(2) key(2)] by metis
  have "hv s' = hv s" using other_viewsD [OF s'(2)] by simp
  then show ?thesis
    using g s' by (cases "dv s (mkey k)") (simp_all add: col_exists_def atry_def kv(3) key(1) ret_def fail_def)
qed

section \<open>Saving a document\<close>

lemma save_spec:
  fixes X :: "('c, 'n) pkgs"
  assumes "ok s" and X: "clock_laws X" and k: "doc_wf k" and pk: "getPrimaryKeyFromDocKey (dp_keys P) c (doc_key doc) = Inr pk"
    and kk: "k = ToDataStoreKey pk" and inv: "doc_inv k (dv s)" and live: "\<not> marked_deleted k (dv s)" and sav: "savable P X k c doc (hv s) (dv s)"
  defines "ns \<equiv> ToHeadStoreKey (WithFieldId k COMPOSITE_NAMESPACE)"
  shows "\<exists>nd ls s'. save P X (MultiStoreFrom (x_ds X) D) patch events c doc (s, cbs) =
      (Inr (Some (dag_Cid (x_dag X) nd)), (s', cbs @ DocClean #
        (if events then [PublishUpdate (pk_DocKey pk) (dag_Cid (x_dag X) nd) (co_schemaID c) nd (next_height X ns (hv s))] else []) @
        [DocSetHead (dag_Cid (x_dag X) nd)])) \<and>
    ok s' \<and> doc_inv k (dv s') \<and> dv s' (mkey k) = Some [ObjectMarker] \<and>
    head_map X ns (hv s') = [dag_Cid (x_dag X) nd \<mapsto> next_height X ns (hv s)] \<and> heads_inv X ns (hv s') \<and>
    list_all2 (saved P X k c doc (hv s) (hv s') (dv s')) (filter (dirty doc) (doc_fields doc)) ls \<and>
    (\<forall>g. clean_part g \<longrightarrow> g \<noteq> COMPOSITE_NAMESPACE \<longrightarrow> g \<notin> entry_id c ` set (filter (dirty doc) (doc_fields doc)) \<longrightarrow>
       same_field X k (hv s) (dv s) (hv s') (dv s') g)"
proof -
  let ?fs = "doc_fields doc" and ?ms = "MultiStoreFrom (x_ds X) D"
  obtain em buf where em: "dp_EncMode P = Inr em" "em (properties doc ?fs []) = Inr buf"
    and w: "\<forall>e \<in> set ?fs. writable P c doc e" "\<forall>e \<in> set ?fs. dirty doc e \<longrightarrow> ready X k (hv s) (dv s) (entry_id c e)"
      "distinct (map (entry_id c) (filter (dirty doc) ?fs))" and h: "heads_inv X ns (hv s)"
    using sav unfolding savable_def ns_def by blast
  obtain ls s1 where 1: "save_fields P X ?ms patch c pk doc ?fs [] [] (s, cbs @ [DocClean]) = (Inr (ls, properties doc ?fs []), (s1, cbs @ [DocClean]))"
      "ok s1" "doc_inv k (dv s1)" "dv s1 (mkey k) = dv s (mkey k)"
      "list_all2 (saved P X k c doc (hv s) (hv s1) (dv s1)) (filter (dirty doc) ?fs) ls"
    and o: "\<forall>g. clean_part g \<longrightarrow> g \<notin> entry_id c ` set (filter (dirty doc) ?fs) \<longrightarrow> same_field X k (hv s) (dv s) (hv s1) (dv s1) g"
    using save_fields_spec [OF X k kk assms(1) inv live w, of patch "[]" "[]" "cbs @ [DocClean]"] by auto
  have C: "same_field X k (hv s) (dv s) (hv s1) (dv s1) COMPOSITE_NAMESPACE"
    using o [rule_format, OF clean_composite no_composite_entry] .
  have h1: "heads_inv X ns (hv s1)" "next_height X ns (hv s1) = next_height X ns (hv s)"
    using C h by (simp_all add: same_field_def ns_def next_height_def)
  have names: "\<forall>l \<in> set ls. dl_Name l \<noteq> ''_head''"
    using saved_names [OF 1(5)] w(1) by simp
  have "\<not> marked_deleted k (dv s1)" using live 1(4) by (simp add: marked_deleted_def)
  from saveComposite_step [OF 1(2) X k 1(3) this h1(1) [unfolded ns_def] names, of c buf, folded ns_def, unfolded h1(2)]
  obtain nd s' where 2: "saveValueToMerkleCRDT X ?ms c k COMPOSITE [ArgBytes buf, ArgLinks ls, ArgStatus Active] s1 =
      (Inr (nd, next_height X ns (hv s)), s')" "ok s'" "doc_inv k (dv s')" "dv s' (mkey k) = Some [ObjectMarker]"
      "head_map X ns (hv s') = [dag_Cid (x_dag X) nd \<mapsto> next_height X ns (hv s)]" "heads_inv X ns (hv s')"
    and o2: "\<forall>g. clean_part g \<longrightarrow> g \<noteq> COMPOSITE_NAMESPACE \<longrightarrow> same_field X k (hv s1) (dv s1) (hv s') (dv s') g" by blast
  note saved_composite [OF 1(5) w(1) o2]
  moreover have "same_field X k (hv s) (dv s) (hv s') (dv s') g"
    if "clean_part g" "g \<noteq> COMPOSITE_NAMESPACE" "g \<notin> entry_id c ` set (filter (dirty doc) ?fs)" for g
    using same_field_trans [OF o [rule_format] o2 [rule_format]] that by blast
  moreover have "save P X ?ms patch events c doc (s, cbs) = (Inr (Some (dag_Cid (x_dag X) nd)), (s', cbs @ DocClean #
        (if events then [PublishUpdate (pk_DocKey pk) (dag_Cid (x_dag X) nd) (co_schemaID c) nd (next_height X ns (hv s))] else []) @
        [DocSetHead (dag_Cid (x_dag X) nd)]))"
    using 1(1) 2(1) em pk by (simp add: save_def abind_def register_def lift_sum_def on_stores_def kk)
  ultimately show ?thesis using 2(2-6) by (intro exI [of _ nd] exI [of _ ls] exI [of _ s']) simp
qed

end

end
