(* ===== verification/CatalogRun.thy ===== *)
theory CatalogRun
  imports CatalogSpec
begin

text \<open>
  The catalogue on a transaction of the in-memory datastore, through the system store of its
  multistore.
\<close>

section \<open>The system store of a transaction\<close>

abbreviation sys_view :: "(dsItem, 't) btree_ops \<Rightarrow> nat \<Rightarrow> ('t, 'u) Datastore \<Rightarrow> string \<Rightarrow> bytes option" where
  "sys_view B p d \<equiv> sub_view ''/db/system'' (kv_view B p d)"

abbreviation sys_ok :: "('c, 'i) cat_pkgs \<Rightarrow> (dsItem, 't) btree_ops \<Rightarrow> (Query \<Rightarrow> Entry list \<Rightarrow> Entry list) \<Rightarrow> nat \<Rightarrow> ('t, 'u) Datastore \<Rightarrow> bool" where
  "sys_ok X B Q p d \<equiv> txn_ok B Q p d \<and> ds_laws (ca_ds X) \<and> clean_key ''/db/system'' \<and> True"

lemma sys_ok_iff: "cat_laws X \<Longrightarrow> sys_ok X B Q p d \<longleftrightarrow> txn_ok B Q p d"
  by (auto simp: cat_laws_def clean_store_keys)

lemma sys_store: "cat_laws X \<Longrightarrow> Systemstore (MultiStoreFrom (ca_ds X) R) = prefixed (ca_ds X) R ''/db/system''"
  by (simp add: MultiStoreFrom_def Let_def store_keys cat_laws_def)

context kv_store
begin

lemma getCollectionByName_cong:
  assumes "ok s" "ok s'" and X: "cat_laws X" and txn: "Systemstore txn = D" and n: "clean_part n" and i: "clean_part i"
    and v: "view s (nameK n) = Some (to_bytes i)" "view s' (nameK n) = Some (to_bytes i)" "view s' (versionK i) = view s (versionK i)"
  shows "fst (getCollectionByName X txn n s') = fst (getCollectionByName X txn n s)"
proof -
  have K: "sys_key X (CollectionKey n) = nameK n" "clean_key (nameK n)" "n \<noteq> []"
    using sys_key_eq [OF X] sys_key_clean n clean_part_ne by simp_all
  have "fst (getCollectionByName X txn n t) = (case view t (versionK i) of None \<Rightarrow> Inl ErrNotFound
      | Some buf \<Rightarrow> map_sum id (\<lambda>d. \<lparr>co_colID = col_ID d, co_schemaID = sd_SchemaID (col_Schema d), co_desc = d\<rparr>) (ca_UnmarshalDesc X buf))"
    if t: "ok t" "view t (nameK n) = Some (to_bytes i)" for t
  proof -
    obtain t1 where 1: "ds_Get D (nameK n) t = (Inr (to_bytes i), t1)" "ok t1" "view t1 = view t"
      using GetE [OF t(1) K(2)] t(2) by auto
    then show ?thesis
      using getCollectionByVersionID_spec [OF 1(2) X txn i] K txn
      by (auto simp: getCollectionByName_def new_key_defs abind_step)
  qed
  from this [OF assms(1) v(1)] this [OF assms(2) v(2)] v(3) show ?thesis by simp
qed

end

lemma check_fields_accepts:
  assumes "\<forall>j < length ps. existing_field byID (ps ! j) = Some (ps ! j) \<and> byName (fd_Name (ps ! j)) = i + j"
    and "\<forall>f \<in> set ps. fd_Typ f \<in> {NONE_CRDT, LWW_REGISTER}" and "distinct (map fd_Name ps)" and "set names \<inter> fd_Name ` set ps = {}"
  shows "check_fields byID byName i ps hc names ids = Inr (hc, rev (map fd_ID ps) @ ids)"
  using assms
proof (induction ps arbitrary: i names ids)
  case (Cons p ps)
  have p: "existing_field byID p = Some p" "byName (fd_Name p) = i" using Cons.prems(1) by force+
  have "existing_field byID (ps ! j) = Some (ps ! j) \<and> byName (fd_Name (ps ! j)) = i + 1 + j" if "j < length ps" for j
    using Cons.prems(1) [rule_format, of "Suc j"] that by simp
  then have "check_fields byID byName (i + 1) ps hc (fd_Name p # names) (fd_ID p # ids) = Inr (hc, rev (map fd_ID ps) @ fd_ID p # ids)"
    using Cons.prems by (intro Cons.IH) auto
  then show ?case using p Cons.prems(2,4) by (auto simp: Let_def existing_field_def split: if_splits)
qed simp

text \<open>A new field in the place of the document key hides, by its id zero, that the key is gone.\<close>

lemma check_update_drops_key:
  assumes old: "numbered (k # fs)" and typs: "\<forall>g \<in> set (f # fs). fd_Typ g \<in> {NONE_CRDT, LWW_REGISTER}"
    and f: "fd_ID f = 0" "\<not> IsObject f" "fd_Name f \<notin> fd_Name ` set (k # fs)"
  shows "check_fields (fields_by_id (k # fs) Map.empty) (indexes_by_name 0 (k # fs) (\<lambda>_. 0)) 0 (f # fs) False [] [] =
    Inr (True, rev (map fd_ID fs) @ [0])"
proof -
  let ?by = "fields_by_id (k # fs) Map.empty" and ?ix = "indexes_by_name 0 (k # fs) (\<lambda>_. 0)"
  have dist: "distinct (map fd_Name (k # fs))" using old unfolding numbered_def by blast
  have nokey: "fd_Name f \<noteq> KeyFieldName" using old f(3) by (auto simp: numbered_def)
  have "existing_field ?by (fs ! j) = Some (fs ! j) \<and> ?ix (fd_Name (fs ! j)) = 1 + j" if j: "j < length fs" for j
  proof -
    have id: "fd_ID (fs ! j) = of_nat (Suc j)" "Suc j < 2 ^ 32" using old j by (auto simp: numbered_def dest!: spec [of _ "Suc j"])
    then have "fd_ID (fs ! j) \<noteq> 0" using of_nat_u32_eq [of "Suc j" 0] by simp
    moreover have "?by (fd_ID (fs ! j)) = Some (fs ! j)"
      unfolding fields_by_id_numbered [OF old] using id(1) j by (intro exI [of _ "Suc j"]) simp
    moreover have "?ix (fd_Name (fs ! j)) = 1 + j"
      using indexes_by_name_nth [OF dist, of "Suc j" 0 "\<lambda>_. 0"] j by simp
    ultimately show ?thesis unfolding existing_field_def by simp
  qed
  then have "check_fields ?by ?ix 1 fs True [fd_Name f] [0] = Inr (True, rev (map fd_ID fs) @ [0])"
    using old typs f(3) by (intro check_fields_accepts) (auto simp: numbered_def)
  then show ?thesis using nokey f typs by (simp add: Let_def IsObject_def)
qed

section \<open>Properties\<close>

text \<open>
  C17. A collection that is created under a new name gets the next number of the sequence, its fields
  are numbered by their positions, and it is found again by its name and by its schema; a second
  collection of that name is refused. The other collections are read as before, unless one has the
  very version id that the new schema hashes to.
\<close>

theorem collection_created:
  fixes X :: "('c, 'i) cat_pkgs"
  assumes "cat_laws X" and "txn_ok B Q p d" and "ms = MultiStoreFrom (ca_ds X) (txn_dsrw B Q p)"
    and "clean_part (col_Name desc)" and "ascii_desc desc" and "newCollection desc = Inr c0"
    and "sys_view B p d (nameK (col_Name desc)) = None"
    and "sys_view B p d collection_seq = None \<and> v = 0 \<or> sys_view B p d collection_seq = Some (put_uint64_be v)"
  shows "\<exists>col d'. createCollection X ms desc d = (Inr col, d') \<and> co_colID col = ucast (v + 1) \<and>
    sys_view B p d' collection_seq = Some (put_uint64_be (v + 1)) \<and>
    number_fields 0 (sd_Fields (col_Schema desc)) = Inr (sd_Fields (col_Schema (co_desc col))) \<and>
    fst (getCollectionByName X ms (col_Name desc) d') = Inr col \<and>
    fst (getCollectionBySchemaID X ms (co_schemaID col) d') = Inr col \<and>
    fst (createCollection X ms desc d') = Inl ErrCollectionAlreadyExists \<and>
    (\<forall>n i. clean_part n \<and> clean_part i \<and> n \<noteq> col_Name desc \<and> sys_view B p d (nameK n) = Some (to_bytes i) \<and> i \<noteq> co_schemaID col \<longrightarrow>
      fst (getCollectionByName X ms n d') = fst (getCollectionByName X ms n d))"
proof -
  note X = assms(1) and kv = mem_prefixed.kv_store_axioms
  have ms: "Systemstore ms = prefixed (ca_ds X) (txn_dsrw B Q p) ''/db/system''" using assms(3) sys_store [OF X] by simp
  have d: "sys_ok X B Q p d" using sys_ok_iff [OF X] assms(2) by blast
  obtain col buf d' where c: "createCollection X ms desc d = (Inr col, d')" "sys_ok X B Q p d'" "created desc v col"
    "ca_UnmarshalDesc X buf = Inr (co_desc col)"
    and v': "sys_view B p d' = (sys_view B p d)(collection_seq \<mapsto> put_uint64_be (v + 1), versionK (co_schemaID col) \<mapsto> buf,
      schemaK (co_schemaID col) \<mapsto> to_bytes (co_schemaID col), nameK (col_Name desc) \<mapsto> to_bytes (co_schemaID col))"
    using kv_store.createCollection_spec [OF kv, OF d X ms assms(4-8)] by blast
  have sid: "clean_part (co_schemaID col)" using c(3) by (simp add: created_def)
  have seq: "collection_seq \<noteq> nameK n" "collection_seq \<noteq> versionK n" "collection_seq \<noteq> schemaK n" if "clean_part n" for n
    using that collection_seq_other [of "CollectionKey n"] collection_seq_other [of "CollectionSchemaVersionKey n"]
      collection_seq_other [of "CollectionSchemaKey n"] by auto
  have col: "\<lparr>co_colID = col_ID (co_desc col), co_schemaID = sd_SchemaID (col_Schema (co_desc col)), co_desc = co_desc col\<rparr> = col"
    using c(3) by (cases col, cases "co_desc col") (simp add: created_def)
  have ver: "sys_view B p d' (versionK (co_schemaID col)) = Some buf" by (simp add: v' System_ToString_inj)
  have "fst (getCollectionByName X ms (col_Name desc) d') = Inr col"
    using kv_store.getCollection_spec(1) [OF kv, OF c(2) X ms assms(4) sid ver c(4)] col by (auto simp: v')
  moreover have "fst (getCollectionBySchemaID X ms (co_schemaID col) d') = Inr col"
    using kv_store.getCollection_spec(2) [OF kv, OF c(2) X ms sid sid ver c(4)] col by (auto simp: v' System_ToString_inj)
  moreover have "fst (createCollection X ms desc d') = Inl ErrCollectionAlreadyExists"
    using kv_store.create_twice [OF kv, OF c(2) X ms assms(4)] by (simp add: v')
  moreover have "fst (getCollectionByName X ms n d') = fst (getCollectionByName X ms n d)"
    if "clean_part n" "clean_part i" "n \<noteq> col_Name desc" "sys_view B p d (nameK n) = Some (to_bytes i)" "i \<noteq> co_schemaID col" for n i
    using that seq(1) [OF that(1), symmetric] seq(2) [OF that(2), symmetric]
    by (intro kv_store.getCollectionByName_cong [OF kv, OF d c(2) X ms that(1,2,4)]) (simp_all add: v' System_ToString_inj)
  ultimately show ?thesis
    using c(1,3) seq [OF assms(4)] seq [OF sid] v' by (intro exI [of _ col] exI [of _ d']) (auto simp: created_def)
qed

text \<open>
  C20. However many handles of a sequence are used in a transaction, and in whatever order, the numbers
  they give are consecutive, starting after the stored one, and no number is given twice as long as
  fewer than \<open>2 ^ 64\<close> are drawn. Nothing else is written.
\<close>

theorem sequence_numbers_unique:
  fixes X :: "('c, 'i) cat_pkgs"
  assumes "cat_laws X" and "txn_ok B Q p d" and "ms = MultiStoreFrom (ca_ds X) (txn_dsrw B Q p)"
    and "sys_key X (NewSequenceKey name) = K" and "clean_key K" and "name \<noteq> []"
    and "sys_view B p d K = None \<and> v = 0 \<or> sys_view B p d K = Some (put_uint64_be v)"
    and "\<forall>q \<in> set qs. seq_key q = NewSequenceKey name" and "length qs < 2 ^ 64"
  shows "\<exists>ns d'. abind (getSequence X ms name) (\<lambda>_. next_all X ms qs) d = (Inr ns, d') \<and>
    ns = map (\<lambda>i. v + of_nat i) [1..<length qs + 1] \<and> distinct ns \<and>
    sys_view B p d' = (sys_view B p d)(K \<mapsto> put_uint64_be (v + of_nat (length qs)))"
proof -
  note X = assms(1) and kv = mem_prefixed.kv_store_axioms
  have ms: "Systemstore ms = prefixed (ca_ds X) (txn_dsrw B Q p) ''/db/system''" using assms(3) sys_store [OF X] by simp
  have d: "sys_ok X B Q p d" using sys_ok_iff [OF X] assms(2) by blast
  obtain q d1 where 1: "getSequence X ms name d = (Inr q, d1)" "sys_ok X B Q p d1" "sys_view B p d1 = (sys_view B p d)(K \<mapsto> put_uint64_be v)"
    using kv_store.getSequence_spec [OF kv, OF d ms assms(4-7)] by blast
  have q: "\<forall>q \<in> set qs. sys_key X (seq_key q) = K" "sys_view B p d1 K = Some (put_uint64_be v)" using assms(4,8) 1(3) by simp_all
  obtain d2 where 2: "next_all X ms qs d1 = (Inr (map (\<lambda>i. v + of_nat i) [1..<length qs + 1]), d2)"
    "sys_view B p d2 = (sys_view B p d1)(K \<mapsto> put_uint64_be (v + of_nat (length qs)))"
    using kv_store.next_all_spec [OF kv, OF 1(2) ms assms(5) q] by blast
  have "inj_on (\<lambda>i. v + of_nat i :: u64) {1..<length qs + 1}"
    using assms(9) by (auto simp: inj_on_def word_of_nat_eq_iff take_bit_nat_eq_self)
  then have "distinct (map (\<lambda>i. v + of_nat i :: u64) [1..<length qs + 1])" by (simp add: distinct_map del: upt_Suc)
  then show ?thesis using 1 2 by (intro exI [of _ "map (\<lambda>i. v + of_nat i) [1..<length qs + 1]"] exI [of _ d2]) (simp add: abind_step del: upt_Suc)
qed

text \<open>
  C16. An accepted update of a schema adds fields only: when the proposed description still has the
  document key, every existing field keeps its place, its number, its name and its kind, and the new
  fields come after them, numbered on. The one thing that changes in an existing field is that an
  unset CRDT type, such as the document key's, becomes that of a last-writer-wins register. The collection keeps its
  number and its schema id.
\<close>

theorem schema_update_keeps_fields:
  fixes X :: "('c, 'i) cat_pkgs"
  assumes "cat_laws X" and "txn_ok B Q p d" and "ms = MultiStoreFrom (ca_ds X) (txn_dsrw B Q p)"
    and "clean_part (col_Name desc)" and "ascii_desc desc" and "clean_part i"
    and "sys_view B p d (nameK (col_Name desc)) = Some (to_bytes i)" and "sys_view B p d (versionK i) = Some buf"
    and "ca_UnmarshalDesc X buf = Inr old" and "numbered (sd_Fields (col_Schema old))"
    and "check_update old desc = Inr True" and "clean_part (sd_SchemaID (col_Schema old))"
    and "KeyFieldName \<in> fd_Name ` set (sd_Fields (col_Schema desc))" and "length (sd_Fields (col_Schema desc)) < 2 ^ 32"
  shows "\<exists>col d'. updateCollection X ms desc d = (Inr col, d') \<and> col_ID (co_desc col) = col_ID old \<and>
    sd_SchemaID (col_Schema (co_desc col)) = sd_SchemaID (col_Schema old) \<and> numbered (sd_Fields (col_Schema (co_desc col))) \<and>
    length (sd_Fields (col_Schema old)) < length (sd_Fields (col_Schema (co_desc col))) \<and>
    (\<forall>j < length (sd_Fields (col_Schema old)). let f = sd_Fields (col_Schema old) ! j in
       sd_Fields (col_Schema (co_desc col)) ! j = f\<lparr>fd_Typ := (if fd_Typ f = NONE_CRDT then LWW_REGISTER else fd_Typ f)\<rparr>)"
proof -
  note X = assms(1) and kv = mem_prefixed.kv_store_axioms
  let ?fs = "sd_Fields (col_Schema old)" and ?ps = "sd_Fields (col_Schema desc)"
  have ms: "Systemstore ms = prefixed (ca_ds X) (txn_dsrw B Q p) ''/db/system''" using assms(3) sys_store [OF X] by simp
  have d: "sys_ok X B Q p d" using sys_ok_iff [OF X] assms(2) by blast
  obtain ids where ids: "check_fields (fields_by_id ?fs Map.empty) (indexes_by_name 0 ?fs (\<lambda>_. 0)) 0 ?ps False [] [] = Inr (True, ids)"
      "\<forall>f \<in> set ?fs. fd_ID f \<in> set ids"
    and same: "col_ID desc = col_ID old" "sd_SchemaID (col_Schema desc) = sd_SchemaID (col_Schema old)"
    using assms(11) by (auto simp: check_update_def Let_def list_all_iff split: if_splits sum.splits prod.splits)
  obtain added where added: "?ps = ?fs @ added" "\<forall>f \<in> set added. fd_ID f = 0 \<and> \<not> IsObject f" "added \<noteq> []" "distinct (map fd_Name ?ps)"
    using update_prefix [OF assms(10) ids assms(13)] by blast
  obtain col d' where u: "updateCollection X ms desc d = (Inr col, d')"
    and col: "co_desc col = desc\<lparr>col_Schema := (col_Schema desc)\<lparr>sd_VersionID := sd_VersionID (col_Schema (co_desc col)),
      sd_Fields := complete_fields 0 ?ps\<rparr>\<rparr>"
    using kv_store.updateCollection_spec [OF kv, OF d X ms assms(4-9,11)] assms(12) same by metis
  have f: "sd_Fields (col_Schema (co_desc col)) = complete_fields 0 (?fs @ added)" "col_ID (co_desc col) = col_ID old"
    "sd_SchemaID (col_Schema (co_desc col)) = sd_SchemaID (col_Schema old)"
    by (subst col, simp add: added same)+
  have "complete_fields 0 (?fs @ added) ! j = (?fs ! j)\<lparr>fd_Typ := (if fd_Typ (?fs ! j) = NONE_CRDT then LWW_REGISTER else fd_Typ (?fs ! j))\<rparr>"
    if "j < length ?fs" for j
    using that assms(10) by (cases "?fs ! j") (auto simp: complete_fields_nth nth_append numbered_def)
  moreover have "numbered (complete_fields 0 (?fs @ added))"
    using assms(10,14) added by (intro complete_numbered) auto
  ultimately show ?thesis using u f added(3) by (intro exI [of _ col] exI [of _ d']) (simp add: Let_def)
qed

text \<open>
  C39. The validation of an update does not notice that the document key is gone when a new field
  takes its place: the new field carries the id zero, which is the key's. The update is stored, and
  the collection then has no document key.
\<close>

theorem schema_update_drops_key:
  fixes X :: "('c, 'i) cat_pkgs"
  assumes "cat_laws X" and "txn_ok B Q p d" and "ms = MultiStoreFrom (ca_ds X) (txn_dsrw B Q p)"
    and "clean_part (col_Name old)" and "clean_part i" and "clean_part (sd_SchemaID (col_Schema old))"
    and "sys_view B p d (nameK (col_Name old)) = Some (to_bytes i)" and "sys_view B p d (versionK i) = Some buf"
    and "ca_UnmarshalDesc X buf = Inr old" and "sd_Fields (col_Schema old) = k # fs" and "numbered (k # fs)"
    and "\<forall>g \<in> set (f # fs). fd_Typ g \<in> {NONE_CRDT, LWW_REGISTER}"
    and "fd_ID f = 0" and "\<not> IsObject f" and "fd_Name f \<notin> fd_Name ` set (k # fs)"
    and "desc = old\<lparr>col_Schema := (col_Schema old)\<lparr>sd_Fields := f # fs\<rparr>\<rparr>" and "ascii_desc desc"
  shows "\<exists>col d'. updateCollection X ms desc d = (Inr col, d') \<and> GetField (co_desc col) KeyFieldName = None"
proof -
  note X = assms(1) and kv = mem_prefixed.kv_store_axioms
  have ms: "Systemstore ms = prefixed (ca_ds X) (txn_dsrw B Q p) ''/db/system''" using assms(3) sys_store [OF X] by simp
  have d: "sys_ok X B Q p d" using sys_ok_iff [OF X] assms(2) by blast
  have "fd_ID k = 0" using assms(11) by (auto simp: numbered_def)
  then have check: "check_update old desc = Inr True"
    using check_update_drops_key [OF assms(11-15)] by (simp add: check_update_def assms(16) assms(10) Let_def list_all_iff)
  have n: "clean_part (col_Name desc)" "sys_view B p d (nameK (col_Name desc)) = Some (to_bytes i)" "clean_part (sd_SchemaID (col_Schema desc))"
    using assms(4,6,7) by (simp_all add: assms(16))
  obtain col d' where u: "updateCollection X ms desc d = (Inr col, d')"
    and col: "co_desc col = desc\<lparr>col_Schema := (col_Schema desc)\<lparr>sd_VersionID := sd_VersionID (col_Schema (co_desc col)),
      sd_Fields := complete_fields 0 (sd_Fields (col_Schema desc))\<rparr>\<rparr>"
    using kv_store.updateCollection_spec [OF kv, OF d X ms n(1) assms(17,5) n(2) assms(8,9) check n(3)] by metis
  have "map fd_Name (sd_Fields (col_Schema (co_desc col))) = fd_Name f # map fd_Name fs"
    by (subst col) (simp add: complete_fields_names assms(16) del: complete_fields.simps)
  moreover have "KeyFieldName \<notin> set (fd_Name f # map fd_Name fs)" using assms(11,15) by (auto simp: numbered_def)
  ultimately have "\<forall>g \<in> set (sd_Fields (col_Schema (co_desc col))). fd_Name g \<noteq> KeyFieldName" by (metis list.set_map rev_image_eqI)
  then have "GetField (co_desc col) KeyFieldName = None" by (simp add: GetField_def find_None_iff)
  then show ?thesis using u by blast
qed

section \<open>The datastore itself as a store\<close>

text \<open>
  The methods of the in-memory datastore, which the database uses outside a transaction through its
  own multistore. They read the latest version, so that what a transaction has not committed is not
  there.
\<close>

definition root_dsrw ::
    "(dsItem, 't) btree_ops \<Rightarrow> (dsTxn, 'u) btree_ops \<Rightarrow> (Query \<Rightarrow> Entry list \<Rightarrow> Entry list) \<Rightarrow> (string \<Rightarrow> string) \<Rightarrow> int \<Rightarrow>
     ('t, 'u) Datastore DSReaderWriter" where
  "root_dsrw B F NaiveQueryApply NewKey now =
     \<lparr>ds_Get = DS_Get B, ds_Has = DS_Has B, ds_GetSize = DS_GetSize B, ds_Put = DS_Put B F NewKey now,
      ds_Delete = DS_Delete B F NewKey now, ds_Query = DS_Query B NaiveQueryApply\<rparr>"

lemma DS_Get_keeps: "snd (DS_Get B k d) = d"
  by (simp add: DS_Get_def Let_def)

lemma DS_Get_uncommitted: "fst (DS_Get B k (snd (Txn_Put B p k' v d))) = fst (DS_Get B k d)"
  by (simp add: DS_Get_def Txn_Put_def upd_txn_def Let_def getVersion_def)

abbreviation repK :: "string \<Rightarrow> string" where "repK n \<equiv> System_ToString (ReplicatorKey n)"

lemma set_new_replicator:
  fixes X :: "('c, 'i) cat_pkgs"
  assumes X: "cat_laws X" and d: "txn_ok B Q p d" and ms: "ms = MultiStoreFrom (ca_ds X) (txn_dsrw B Q p)"
    and db: "db = MultiStoreFrom (ca_ds X) (root_dsrw B F Q (pk_NewKey (ca_ds X)) now)"
    and peer: "clean_part (ca_IDString X (rp_Info rep))" and rep: "ca_MarshalRep X rep = Inr b"
    and none: "fst (DS_Get B (''/db/system'' @ repK (ca_IDString X (rp_Info rep))) d) = Inl ErrNotFound"
  shows "\<exists>d'. setReplicator X db ms rep d = (Inr (), d') \<and> txn_ok B Q p d' \<and>
    sys_view B p d' = (sys_view B p d)(repK (ca_IDString X (rp_Info rep)) \<mapsto> b) \<and> (\<forall>k. fst (DS_Get B k d') = fst (DS_Get B k d))"
proof -
  let ?k = "repK (ca_IDString X (rp_Info rep))"
  have L: "ds_laws (ca_ds X)" using X by (simp add: cat_laws_def)
  have K: "sys_key X (ReplicatorKey (ca_IDString X (rp_Info rep))) = ?k" "clean_key ?k" using peer sys_key_eq [OF X] sys_key_clean by simp_all
  note P = clean_store_keys(1)
  have get: "ds_Get (Systemstore db) ?k d = (Inl ErrNotFound, d)"
    using none DS_Get_keeps [of B "''/db/system'' @ ?k" d] L K P unfolding db sys_store [OF X]
    by (simp add: prefixed_defs ds_lawsD root_dsrw_def prod_eq_iff)
  obtain d' where put: "ds_Put (prefixed (ca_ds X) (txn_dsrw B Q p) ''/db/system'') ?k b d = (Inr (), d')" "sys_ok X B Q p d'"
    "sys_view B p d' = (sys_view B p d)(?k \<mapsto> b)"
    using kv_store.PutE [OF mem_prefixed.kv_store_axioms, OF sys_ok_iff [OF X, THEN iffD2, OF d] K(2)] by blast
  then have "d' = snd (Txn_Put B p (''/db/system'' @ ?k) b d)"
    using L K P by (simp add: prefixed_defs ds_lawsD txn_dsrw_def)
  moreover have "Systemstore ms = prefixed (ca_ds X) (txn_dsrw B Q p) ''/db/system''" unfolding ms by (rule sys_store [OF X])
  then have "setReplicator X db ms rep d = (Inr (), d')"
    using get put(1) K(1) rep
    by (simp add: setReplicator_def getReplicator_def saveReplicator_def NewReplicatorKey_def atry_def abind_def lift_sum_def)
  ultimately show ?thesis using put DS_Get_uncommitted sys_ok_iff [OF X] by (intro exI [of _ d']) blast
qed

text \<open>
  C40. Two calls for one peer in the same transaction: the second looks for the schemas of the first
  in the datastore instead of the transaction, does not find them there, and replaces them. Only the
  schemas of the second call are stored.
\<close>

theorem replicator_schemas_lost:
  fixes X :: "('c, 'i) cat_pkgs"
  assumes "cat_laws X" and "txn_ok B Q p d" and "ms = MultiStoreFrom (ca_ds X) (txn_dsrw B Q p)"
    and "db = MultiStoreFrom (ca_ds X) (root_dsrw B F Q (pk_NewKey (ca_ds X)) now)"
    and "rp_Info r2 = rp_Info r1" and "clean_part (ca_IDString X (rp_Info r1))"
    and "ca_MarshalRep X r1 = Inr b1" and "ca_MarshalRep X r2 = Inr b2"
    and "fst (DS_Get B (''/db/system'' @ repK (ca_IDString X (rp_Info r1))) d) = Inl ErrNotFound"
  shows "\<exists>d'. abind (setReplicator X db ms r1) (\<lambda>_. setReplicator X db ms r2) d = (Inr (), d') \<and>
    sys_view B p d' (System_ToString (NewReplicatorKey (ca_IDString X (rp_Info r1)))) = Some b2"
proof -
  obtain d1 where 1: "setReplicator X db ms r1 d = (Inr (), d1)" "txn_ok B Q p d1"
    "\<forall>k. fst (DS_Get B k d1) = fst (DS_Get B k d)"
    using set_new_replicator [OF assms(1-4,6,7,9)] by blast
  have "clean_part (ca_IDString X (rp_Info r2))" "fst (DS_Get B (''/db/system'' @ repK (ca_IDString X (rp_Info r2))) d1) = Inl ErrNotFound"
    using assms(5,6,9) 1(3) by simp_all
  from set_new_replicator [OF assms(1) 1(2) assms(3,4) this(1) assms(8) this(2)]
  show ?thesis using 1(1) assms(5) by (auto simp: abind_step NewReplicatorKey_def)
qed

section \<open>Concrete packages\<close>

fun squeeze :: "string \<Rightarrow> string" where
  "squeeze (a # b # s) = (if a = CHR ''/'' \<and> b = CHR ''/'' then squeeze (b # s) else a # squeeze (b # s))"
| "squeeze s = s"

definition squeeze_ds :: ds_ops where
  "squeeze_ds = plain_ds\<lparr>pk_NewKey := \<lambda>s. if s = [] then ''/'' else if clean_key s then s else squeeze s\<rparr>"

lemma squeeze_ds_laws: "ds_laws squeeze_ds"
  using plain_ds_laws clean_key_ne by (auto simp: ds_laws_def squeeze_ds_def newkey_laws_def)

definition enc_field :: "FieldDescription \<Rightarrow> bytes list" where
  "enc_field f = [to_bytes (fd_Name f), put_uint64_be (ucast (fd_ID f)), [fd_Kind f], to_bytes (fd_Schema f), to_bytes (fd_RelationName f),
     [fd_Typ f], [fd_RelationType f]]"

definition dec_u32 :: "bytes \<Rightarrow> u32" where
  "dec_u32 b = (case uint64_be b of Inl _ \<Rightarrow> 0 | Inr v \<Rightarrow> ucast v)"

fun dec_field :: "nat \<Rightarrow> bytes list \<Rightarrow> FieldDescription list" where
  "dec_field (Suc n) (a # b # c # d # e # f # g # r) =
     \<lparr>fd_Name = of_bytes a, fd_ID = dec_u32 b, fd_Kind = hd c, fd_Schema = of_bytes d, fd_RelationName = of_bytes e, fd_Typ = hd f,
      fd_RelationType = hd g\<rparr> # dec_field n r"
| "dec_field n r = []"

lemma dec_u32_put: "dec_u32 (put_uint64_be (ucast w)) = w"
  unfolding dec_u32_def uint64_be_put sum.case by (rule bit_word_eqI) (simp add: bit_unsigned_iff)

lemma dec_enc_field: "dec_field (length fs) (concat (map enc_field fs) @ r) = fs"
  by (induction fs) (simp_all add: enc_field_def dec_u32_put)

definition enc_desc :: "CollectionDescription \<Rightarrow> bytes" where
  "enc_desc d = enc_fields ([replicate (length (sd_Fields (col_Schema d))) 0, to_bytes (col_Name d), put_uint64_be (ucast (col_ID d)),
     to_bytes (sd_SchemaID (col_Schema d)), to_bytes (sd_VersionID (col_Schema d)), to_bytes (sd_Name (col_Schema d))] @
     concat (map enc_field (sd_Fields (col_Schema d))))"

definition dec_desc :: "bytes \<Rightarrow> CollectionDescription" where
  "dec_desc b = (let f = dec_fields (length b) b in
     \<lparr>col_Name = of_bytes (f ! 1), col_ID = dec_u32 (f ! 2),
      col_Schema = \<lparr>sd_SchemaID = of_bytes (f ! 3), sd_VersionID = of_bytes (f ! 4), sd_Name = of_bytes (f ! 5),
        sd_Fields = dec_field (length (f ! 0)) (drop 6 f)\<rparr>\<rparr>)"

lemma dec_fields_rest: "dec_fields n [0] = replicate n []" "dec_fields n [] = replicate n []"
proof -
  show e: "dec_fields n [] = replicate n []" for n by (induction n) simp_all
  show "dec_fields n [0] = replicate n []" by (cases n) (simp_all add: e)
qed

lemma dec_fields_more: "\<exists>r. dec_fields (length bs + n) (enc_fields bs) = bs @ r"
proof (induction bs)
  case Nil
  then show ?case by (simp add: enc_fields_def dec_fields_rest)
next
  case (Cons b bs)
  have "dec_bytes (enc_bytes b @ enc_fields bs) = (b, enc_fields bs)" by (rule dec_enc) (simp add: enc_fields_def)
  with Cons show ?case by (simp add: enc_fields_def)
qed

lemma enc_fields_length: "length bs \<le> length (enc_fields bs)"
proof -
  have one: "1 \<le> length (enc_bytes b)" for b by (cases b) simp_all
  have "length bs \<le> length (concat (map enc_bytes bs))"
  proof (induction bs)
    case (Cons b bs)
    then show ?case using one [of b] by simp
  qed simp
  then show ?thesis by (simp add: enc_fields_def)
qed

lemma dec_enc_desc: "dec_desc (enc_desc d) = d"
proof -
  obtain bs where bs: "enc_desc d = enc_fields ([replicate (length (sd_Fields (col_Schema d))) 0, to_bytes (col_Name d),
     put_uint64_be (ucast (col_ID d)), to_bytes (sd_SchemaID (col_Schema d)), to_bytes (sd_VersionID (col_Schema d)),
     to_bytes (sd_Name (col_Schema d))] @ bs)" "bs = concat (map enc_field (sd_Fields (col_Schema d)))"
    by (simp add: enc_desc_def)
  obtain r where "dec_fields (length (enc_desc d)) (enc_desc d) = [replicate (length (sd_Fields (col_Schema d))) 0, to_bytes (col_Name d),
     put_uint64_be (ucast (col_ID d)), to_bytes (sd_SchemaID (col_Schema d)), to_bytes (sd_VersionID (col_Schema d)),
     to_bytes (sd_Name (col_Schema d))] @ bs @ r"
    using dec_fields_more enc_fields_length unfolding bs(1) by (metis append_assoc le_add_diff_inverse)
  then show ?thesis by (simp add: dec_desc_def Let_def bs(2) dec_enc_field dec_u32_put)
qed

definition plain_cat :: "(nat, string) cat_pkgs" where
  "plain_cat = \<lparr>ca_ds = squeeze_ds, ca_Raw = 0x55, ca_SHA2_256 = 0x12, ca_Sum = (\<lambda>_ b. Inr (length b)), ca_String = format_uint,
     ca_MarshalGlobal = (\<lambda>n s. Inr (enc_desc \<lparr>col_Name = n, col_ID = 0, col_Schema = s\<rparr>)),
     ca_MarshalSchema = (\<lambda>s. Inr (enc_desc \<lparr>col_Name = [], col_ID = 0, col_Schema = s\<rparr>)),
     ca_MarshalDesc = (\<lambda>d. Inr (enc_desc d)), ca_UnmarshalDesc = (\<lambda>b. Inr (dec_desc b)), ca_IDString = id,
     ca_MarshalRep = (\<lambda>r. Inr (enc_fields (map to_bytes (rp_Info r # rp_Schemas r)))),
     ca_UnmarshalRep = (\<lambda>b. Inr \<lparr>rp_Info = [], rp_Schemas = []\<rparr>)\<rparr>"

lemma digits_ascii: "ascii (format_uint n)"
  using format_uint_digits [of n] by (auto simp: ascii_def list_all_iff is_digit_def)

lemma plain_cat_laws: "cat_laws plain_cat"
proof -
  have "pk_NewKey squeeze_ds ''/seq//collection/names'' = ''/seq/collection/names''" by code_simp
  then show ?thesis
    using squeeze_ds_laws digits_clean digits_ascii
    by (simp add: cat_laws_def plain_cat_def NewSHA256CidV1_def dec_enc_desc)
qed

section \<open>Concrete runs\<close>

definition w_cat :: "(dsItem list, dsTxn list) Datastore multistore" where
  "w_cat = MultiStoreFrom (ca_ds plain_cat) (txn_dsrw items_tree plain_query 0)"

definition w_field :: "string \<Rightarrow> FieldKind \<Rightarrow> CType \<Rightarrow> FieldDescription" where
  "w_field n k t = \<lparr>fd_Name = n, fd_ID = 0, fd_Kind = k, fd_Schema = [], fd_RelationName = [], fd_Typ = t, fd_RelationType = 0\<rparr>"

definition w_desc :: CollectionDescription where
  "w_desc = \<lparr>col_Name = ''User'', col_ID = 0, col_Schema = \<lparr>sd_SchemaID = [], sd_VersionID = [], sd_Name = ''User'',
     sd_Fields = [w_field ''_key'' FieldKind_DocKey NONE_CRDT, w_field ''name'' FieldKind_STRING LWW_REGISTER]\<rparr>\<rparr>"

lemma w_desc_new: "\<exists>c. newCollection w_desc = Inr c" "clean_part (col_Name w_desc)" "ascii_desc w_desc"
proof -
  have "(case newCollection w_desc of Inl _ \<Rightarrow> False | Inr _ \<Rightarrow> True)" by code_simp
  then show "\<exists>c. newCollection w_desc = Inr c" by (cases "newCollection w_desc") auto
  show "clean_part (col_Name w_desc)" "ascii_desc w_desc" by code_simp+
qed

theorem collection_created_witness:
  "\<exists>col d'. createCollection plain_cat w_cat w_desc w1 = (Inr col, d') \<and> co_colID col = 1 \<and>
    fst (getCollectionByName plain_cat w_cat ''User'' d') = Inr col \<and>
    fst (createCollection plain_cat w_cat w_desc d') = Inl ErrCollectionAlreadyExists"
proof -
  obtain c where c: "newCollection w_desc = Inr c" using w_desc_new by blast
  have n: "col_Name w_desc = ''User''" by (simp add: w_desc_def)
  have v: "sys_view items_tree 0 w1 (nameK (col_Name w_desc)) = None"
    "sys_view items_tree 0 w1 collection_seq = None \<and> (0 :: u64) = 0 \<or> sys_view items_tree 0 w1 collection_seq = Some (put_uint64_be 0)"
    by (simp_all add: w1_stores)
  from collection_created [OF plain_cat_laws w1_ok w_cat_def w_desc_new(2,3) c v]
  show ?thesis unfolding n by (elim ex_forward) simp
qed

theorem sequence_numbers_unique_witness:
  "\<exists>d'. abind (getSequence plain_cat w_cat COLLECTION) (\<lambda>_. next_all plain_cat w_cat
      [\<lparr>seq_key = NewSequenceKey COLLECTION, seq_val = 7\<rparr>, \<lparr>seq_key = NewSequenceKey COLLECTION, seq_val = 0\<rparr>]) w1 = (Inr [1, 2], d')"
proof -
  have v: "sys_view items_tree 0 w1 collection_seq = None \<and> (0 :: u64) = 0 \<or> sys_view items_tree 0 w1 collection_seq = Some (put_uint64_be 0)"
    by (simp add: w1_stores)
  have n: "COLLECTION \<noteq> []" by (simp add: COLLECTION_def)
  show ?thesis
    using sequence_numbers_unique [OF plain_cat_laws w1_ok w_cat_def collection_seq_key [OF plain_cat_laws] n v, of
        "[\<lparr>seq_key = NewSequenceKey COLLECTION, seq_val = 7\<rparr>, \<lparr>seq_key = NewSequenceKey COLLECTION, seq_val = 0\<rparr>]"]
    by (auto simp: upt_rec)
qed

text \<open>A state in which the collection is stored.\<close>

lemma w_stored:
  "\<exists>old i buf (d :: (dsItem list, dsTxn list) Datastore). txn_ok items_tree plain_query 0 d \<and> clean_part i \<and> sys_view items_tree 0 d (nameK ''User'') = Some (to_bytes i) \<and>
    sys_view items_tree 0 d (versionK i) = Some buf \<and> ca_UnmarshalDesc plain_cat buf = Inr old \<and> col_Name old = ''User'' \<and>
    sd_SchemaID (col_Schema old) = i \<and> sd_VersionID (col_Schema old) = i \<and> sd_Name (col_Schema old) = ''User'' \<and> ascii i \<and>
    sd_Fields (col_Schema old) = [w_field ''_key'' FieldKind_DocKey NONE_CRDT, (w_field ''name'' FieldKind_STRING LWW_REGISTER)\<lparr>fd_ID := 1\<rparr>]"
proof -
  note X = plain_cat_laws
  have ms: "Systemstore w_cat = prefixed (ca_ds plain_cat) (txn_dsrw items_tree plain_query 0) ''/db/system''"
    unfolding w_cat_def by (rule sys_store [OF X])
  obtain c where c: "newCollection w_desc = Inr c" using w_desc_new by blast
  have e: "sys_view items_tree 0 w1 (nameK (col_Name w_desc)) = None"
    "sys_view items_tree 0 w1 collection_seq = None \<and> (0 :: u64) = 0 \<or> sys_view items_tree 0 w1 collection_seq = Some (put_uint64_be 0)"
    by (simp_all add: w1_stores)
  obtain col buf and d :: "(dsItem list, dsTxn list) Datastore" where d: "sys_ok plain_cat items_tree plain_query 0 d" "created w_desc 0 col"
    "ca_UnmarshalDesc plain_cat buf = Inr (co_desc col)"
    and v: "sys_view items_tree 0 d = (\<lambda>_. None)(collection_seq \<mapsto> put_uint64_be (0 + 1), versionK (co_schemaID col) \<mapsto> buf,
      schemaK (co_schemaID col) \<mapsto> to_bytes (co_schemaID col), nameK (col_Name w_desc) \<mapsto> to_bytes (co_schemaID col))"
    using kv_store.createCollection_spec [OF mem_prefixed.kv_store_axioms, OF sys_ok_iff [OF X, THEN iffD2, OF w1_ok] X ms w_desc_new(2,3) c e]
    unfolding w1_stores by blast
  have "number_fields 0 (sd_Fields (col_Schema w_desc)) =
      Inr [w_field ''_key'' FieldKind_DocKey NONE_CRDT, (w_field ''name'' FieldKind_STRING LWW_REGISTER)\<lparr>fd_ID := 1\<rparr>]"
    by (simp add: w_desc_def w_field_def FieldKind_DocKey_def FieldKind_None_def FieldKind_STRING_def LWW_REGISTER_def NONE_CRDT_def)
  then have f: "sd_Fields (col_Schema (co_desc col)) =
      [w_field ''_key'' FieldKind_DocKey NONE_CRDT, (w_field ''name'' FieldKind_STRING LWW_REGISTER)\<lparr>fd_ID := 1\<rparr>]"
    using d(2) by (simp add: created_def)
  have de: "clean_part (co_schemaID col)" "ascii (co_schemaID col)" "co_desc col = w_desc\<lparr>col_ID := co_colID col,
      col_Schema := (col_Schema w_desc)\<lparr>sd_SchemaID := co_schemaID col, sd_VersionID := co_schemaID col,
      sd_Fields := sd_Fields (col_Schema (co_desc col))\<rparr>\<rparr>"
    using d(2) unfolding created_def by blast+
  have old: "col_Name (co_desc col) = ''User''" "sd_SchemaID (col_Schema (co_desc col)) = co_schemaID col"
    "sd_VersionID (col_Schema (co_desc col)) = co_schemaID col" "sd_Name (col_Schema (co_desc col)) = ''User''"
    by (subst de(3), simp add: w_desc_def)+
  have "sys_view items_tree 0 d (versionK (co_schemaID col)) = Some buf" by (simp add: v System_ToString_inj)
  moreover have "sys_view items_tree 0 d (nameK ''User'') = Some (to_bytes (co_schemaID col))" by (simp add: v w_desc_def)
  moreover have "txn_ok items_tree plain_query 0 d" using d(1) by blast
  ultimately show ?thesis using d(3) de(1,2) old f
    by (intro exI [of _ "co_desc col"] exI [of _ "co_schemaID col"] exI [of _ buf] exI [of _ d]) simp
qed

lemma w_field_facts:
  "numbered [w_field ''_key'' FieldKind_DocKey NONE_CRDT, (w_field ''name'' FieldKind_STRING LWW_REGISTER)\<lparr>fd_ID := 1\<rparr>]"
  "\<not> IsObject (w_field ''age'' FieldKind_INT LWW_REGISTER)"
  by (auto simp: numbered_def w_field_def KeyFieldName_def less_Suc_eq IsObject_def FieldKind_INT_def
      FieldKind_FOREIGN_OBJECT_def FieldKind_FOREIGN_OBJECT_ARRAY_def)

theorem schema_update_drops_key_witness:
  "\<exists>desc d col d'. map fd_Name (sd_Fields (col_Schema desc)) = [''age'', ''name''] \<and>
    updateCollection plain_cat w_cat desc d = (Inr col, d') \<and> GetField (co_desc col) KeyFieldName = None"
proof -
  obtain old i buf and d :: "(dsItem list, dsTxn list) Datastore" where w: "txn_ok items_tree plain_query 0 d" "clean_part i" "sys_view items_tree 0 d (nameK ''User'') = Some (to_bytes i)"
    "sys_view items_tree 0 d (versionK i) = Some buf" "ca_UnmarshalDesc plain_cat buf = Inr old" "col_Name old = ''User''"
    "sd_SchemaID (col_Schema old) = i" "sd_VersionID (col_Schema old) = i" "sd_Name (col_Schema old) = ''User''" "ascii i"
    "sd_Fields (col_Schema old) = [w_field ''_key'' FieldKind_DocKey NONE_CRDT, (w_field ''name'' FieldKind_STRING LWW_REGISTER)\<lparr>fd_ID := 1\<rparr>]"
    using w_stored by blast
  let ?f = "w_field ''age'' FieldKind_INT LWW_REGISTER" and ?fs = "[(w_field ''name'' FieldKind_STRING LWW_REGISTER)\<lparr>fd_ID := 1\<rparr>]"
  let ?desc = "old\<lparr>col_Schema := (col_Schema old)\<lparr>sd_Fields := ?f # ?fs\<rparr>\<rparr>"
  have a: "ascii_desc ?desc" using w(6-10) by (simp add: ascii_desc_def w_field_def ascii_def)
  have "clean_part (col_Name old)" "clean_part (sd_SchemaID (col_Schema old))"
    "sys_view items_tree 0 d (nameK (col_Name old)) = Some (to_bytes i)"
    using w(2,3,6,7) w_desc_new(2) by (simp_all add: w_desc_def)
  from schema_update_drops_key [OF plain_cat_laws w(1) w_cat_def this(1) w(2) this(2,3) w(4,5,11) w_field_facts(1) _ _ w_field_facts(2) _ refl a]
  show ?thesis by (intro exI [of _ ?desc] exI [of _ d]) (simp add: w_field_def)
qed

theorem schema_update_keeps_fields_witness:
  "\<exists>desc d col d'. map fd_Name (sd_Fields (col_Schema desc)) = [''_key'', ''name'', ''age''] \<and>
    updateCollection plain_cat w_cat desc d = (Inr col, d') \<and> numbered (sd_Fields (col_Schema (co_desc col)))"
proof -
  obtain old i buf and d :: "(dsItem list, dsTxn list) Datastore" where w: "txn_ok items_tree plain_query 0 d" "clean_part i" "sys_view items_tree 0 d (nameK ''User'') = Some (to_bytes i)"
    "sys_view items_tree 0 d (versionK i) = Some buf" "ca_UnmarshalDesc plain_cat buf = Inr old" "col_Name old = ''User''"
    "sd_SchemaID (col_Schema old) = i" "sd_VersionID (col_Schema old) = i" "sd_Name (col_Schema old) = ''User''" "ascii i"
    "sd_Fields (col_Schema old) = [w_field ''_key'' FieldKind_DocKey NONE_CRDT, (w_field ''name'' FieldKind_STRING LWW_REGISTER)\<lparr>fd_ID := 1\<rparr>]"
    using w_stored by blast
  let ?desc = "old\<lparr>col_Schema := (col_Schema old)\<lparr>sd_Fields := sd_Fields (col_Schema old) @ [w_field ''age'' FieldKind_INT LWW_REGISTER]\<rparr>\<rparr>"
  have a: "ascii_desc ?desc" using w(6-11) by (simp add: ascii_desc_def w_field_def ascii_def)
  have n: "clean_part (col_Name ?desc)" "clean_part (sd_SchemaID (col_Schema old))"
    "sys_view items_tree 0 d (nameK (col_Name ?desc)) = Some (to_bytes i)" "numbered (sd_Fields (col_Schema old))"
    using w w_desc_new(2) w_field_facts by (simp_all add: w_desc_def)
  have "check_update old ?desc = Inr True"
    by (simp add: check_update_def w w_field_def KeyFieldName_def FieldKind_INT_def FieldKind_FOREIGN_OBJECT_def
        FieldKind_FOREIGN_OBJECT_ARRAY_def LWW_REGISTER_def NONE_CRDT_def Let_def)
  from schema_update_keeps_fields [OF plain_cat_laws w(1) w_cat_def n(1) a w(2) n(3) w(4,5) n(4) this n(2)]
  have "\<exists>col d'. updateCollection plain_cat w_cat ?desc d = (Inr col, d') \<and> numbered (sd_Fields (col_Schema (co_desc col)))"
    by (simp add: w w_field_def KeyFieldName_def) blast
  then show ?thesis by (intro exI [of _ ?desc] exI [of _ d]) (simp add: w w_field_def)
qed

definition w_db :: "(dsItem list, dsTxn list) Datastore multistore" where
  "w_db = MultiStoreFrom (ca_ds plain_cat) (root_dsrw items_tree txns_tree plain_query (pk_NewKey (ca_ds plain_cat)) 0)"

theorem replicator_schemas_lost_witness:
  "\<exists>d'. abind (setReplicator plain_cat w_db w_cat \<lparr>rp_Info = ''p'', rp_Schemas = [''a'']\<rparr>)
      (\<lambda>_. setReplicator plain_cat w_db w_cat \<lparr>rp_Info = ''p'', rp_Schemas = [''b'']\<rparr>) w1 = (Inr (), d') \<and>
    sys_view items_tree 0 d' (System_ToString (NewReplicatorKey ''p'')) = Some (enc_fields (map to_bytes [''p'', ''b'']))"
proof -
  have "clean_part ''p''" by code_simp
  moreover have "fst (DS_Get items_tree (''/db/system'' @ repK ''p'') w1) = Inl ErrNotFound" by code_simp
  ultimately show ?thesis
    using replicator_schemas_lost [OF plain_cat_laws w1_ok w_cat_def w_db_def, of "\<lparr>rp_Info = ''p'', rp_Schemas = [''b'']\<rparr>"
        "\<lparr>rp_Info = ''p'', rp_Schemas = [''a'']\<rparr>"]
    by (simp add: plain_cat_def)
qed

end
