(* ===== verification/CollectionRun.thy ===== *)
theory CollectionRun
  imports CollectionSpec CatalogRun
begin

text \<open>
  Saving and deleting documents of a collection in a transaction of the in-memory datastore.
\<close>

section \<open>Deleting a document\<close>

context kv_store
begin

lemma applyDelete_spec:
  fixes X :: "('c, 'n) pkgs"
  assumes "ok s" and X: "clock_laws X" and k: "doc_wf k" and kk: "k = ToDataStoreKey pk" and inv: "doc_inv k (dv s)"
    and live: "dv s (mkey k) = Some [ObjectMarker]" and h: "heads_inv X (ToHeadStoreKey (WithFieldId k COMPOSITE_NAMESPACE)) (hv s)"
  defines "ns \<equiv> ToHeadStoreKey (WithFieldId k COMPOSITE_NAMESPACE)"
  shows "\<exists>nd s'. applyDelete X (MultiStoreFrom (x_ds X) D) events c pk (s, cbs) = (Inr (), (s', cbs @
      (if events then [PublishUpdate (pk_DocKey pk) (dag_Cid (x_dag X) nd) (co_schemaID c) nd (next_height X ns (hv s))] else []))) \<and>
    ok s' \<and> head_map X ns (hv s') = [dag_Cid (x_dag X) nd \<mapsto> next_height X ns (hv s)] \<and> doc_inv k (dv s') \<and>
    dv s' (mkey k) = Some [DeletedObjectMarker]"
proof -
  let ?ms = "MultiStoreFrom (x_ds X) D" and ?sv = "sd_VersionID (col_Schema (co_desc c))"
  obtain s1 where 1: "col_exists X ?ms pk s = (Inr (True, False), s1)" "ok s1" "hv s1 = hv s" "dv s1 = dv s"
    using col_exists_step [OF assms(1) X k kk] live by (auto simp: ObjectMarker_def DeletedObjectMarker_def)
  note nsw = ns_wf_field [OF k clean_composite, folded ns_def]
  obtain cs s2 where 2: "heads_List X (NewHeadSet (Headstore ?ms) ns) s1 = (Inr (cs, Max (insert 0 (ran (head_map X ns (hv s))))), s2)" "ok s2"
    "hv s2 = hv s" "other_views ''/db/heads'' (view s2) = other_views ''/db/heads'' (view s1)" "set cs = dom (head_map X ns (hv s))"
    using clock_List [OF 1(2) X nsw] h 1(3) MultiStoreFrom_stores(2) [OF clock_lawsD(1) [OF X]] unfolding ns_def by metis
  have dv2: "dv s2 = dv s" using other_viewsD [OF 2(4)] 1(4) by simp
  let ?ls = "map (\<lambda>cid. \<lparr>dl_Name = HEAD, dl_Cid = cid\<rparr>) cs"
  let ?m = "merkle_comp X ?sv (WithFieldId k COMPOSITE_NAMESPACE) []"
  let ?c = "(Comp_Set (x_cid X) (mcd_reg ?m) [] ?ls)\<lparr>cd_Status := Deleted\<rparr>"
  have names: "\<forall>l \<in> set (cd_SubDAGs ?c). dl_Name l \<noteq> ''_head''" if "dom (head_map X ns (hv s2)) = {}"
    using that 2(3,5) by (simp add: Comp_Set_def)
  obtain nd s' where 3: "Publish X (mcd_base ?m) (CompositeDelta ?c) s2 = (Inr (nd, CompositeDelta (?c\<lparr>cd_Priority := next_height X ns (hv s)\<rparr>)), s')"
    "ok s'" "heads_upd X ns (hv s) (hv s') [dag_Cid (x_dag X) nd \<mapsto> next_height X ns (hv s)]" "doc_inv k (dv s')"
    "abs_doc k (dv s') = apply_op (DocDelta ?c) (abs_doc k (dv s))"
    using MC_Publish_step [OF 2(2) X k clean_composite ns_def [THEN meta_eq_to_obj_eq] _ _ names, of ?sv "[]"] h inv dv2 2(3)
    unfolding ns_def by metis
  have "dv s' (mkey k) = Some [DeletedObjectMarker]"
    using 3(5) by (cases "abs_doc k (dv s)") (simp add: abs_doc_def IsDeleted_def Deleted_def)
  moreover have "saveValueToMerkleCRDT X ?ms c k COMPOSITE [ArgBytes [], ArgLinks ?ls, ArgStatus Deleted] s2 = (Inr (nd, next_height X ns (hv s)), s')"
    using 3(1) by (simp add: saveValueToMerkleCRDT_def factory_instances Let_def abind_lift IsDeleted_def Deleted_def MC_Delete_def abind_def
        COMPOSITE_def LWW_REGISTER_def factory_instances(2) [unfolded COMPOSITE_def])
  ultimately show ?thesis
    using 1(1) 2(1) 3(2-4) by (intro exI [of _ nd] exI [of _ s'])
      (simp add: applyDelete_def on_stores_def abind_def Let_def kk [symmetric] ns_def [symmetric] register_def heads_upd_def)
qed

end

context kv_store
begin

lemma ML_Value_deleted:
  fixes X :: "('c, 'n) pkgs"
  assumes "ok s" and X: "clock_laws X" and k: "doc_wf k" and g: "clean_part g" and inv: "doc_inv k (dv s)" and del: "marked_deleted k (dv s)"
  shows "fst (ML_Value X (merkle_reg X sv (WithFieldId k g) n) s) = Inl ErrNotFound"
proof -
  note kv = data_kv [OF assms(1) X]
  show ?thesis
    using kv_store.deleted_field_hidden [OF kv(1), OF kv(2) ds_lawsD(1) [OF clock_lawsD(1) [OF X]] k g inv del]
    by (simp add: ML_Value_def NewMerkleLWWRegister_def Let_def kv(3))
qed

end

section \<open>Saving through the interface of a collection\<close>

context kv_store
begin

lemma col_Save_spec:
  fixes X :: "('c, 'n) pkgs"
  assumes "ok s" and X: "clock_laws X" and k: "doc_wf k" and pk: "getPrimaryKeyFromDocKey (dp_keys P) c (doc_key doc) = Inr pk"
    and kk: "k = ToDataStoreKey pk" and inv: "doc_inv k (dv s)" and live: "\<not> marked_deleted k (dv s)" and sav: "savable P X k c doc (hv s) (dv s)"
    and new: "dv s (mkey k) = None \<longrightarrow> doc_values doc \<noteq> [] \<and> getKeysFromDoc P c doc = Inr (dky, pk)"
  defines "ns \<equiv> ToHeadStoreKey (WithFieldId k COMPOSITE_NAMESPACE)"
  shows "\<exists>nd cs ls s'. col_Save P X (MultiStoreFrom (x_ds X) D) patch events c doc (s, cbs) = (Inr (), (s', cbs @ cs)) \<and>
    DocSetHead (dag_Cid (x_dag X) nd) \<in> set cs \<and> ok s' \<and> doc_inv k (dv s') \<and> dv s' (mkey k) = Some [ObjectMarker] \<and>
    head_map X ns (hv s') = [dag_Cid (x_dag X) nd \<mapsto> next_height X ns (hv s)] \<and> heads_inv X ns (hv s') \<and>
    list_all2 (saved P X k c doc (hv s) (hv s') (dv s')) (filter (dirty doc) (doc_fields doc)) ls \<and>
    (\<forall>g. clean_part g \<longrightarrow> g \<noteq> COMPOSITE_NAMESPACE \<longrightarrow> g \<notin> entry_id c ` set (filter (dirty doc) (doc_fields doc)) \<longrightarrow>
       same_field X k (hv s) (dv s) (hv s') (dv s') g)"
proof -
  let ?ms = "MultiStoreFrom (x_ds X) D"
  obtain s1 where 1: "col_exists X ?ms pk s = (Inr (dv s (mkey k) \<noteq> None, False), s1)" "ok s1" "hv s1 = hv s" "dv s1 = dv s"
    using col_exists_step [OF assms(1) X k kk] live by (auto simp: marked_deleted_def)
  obtain s2 where 2: "col_exists X ?ms pk s1 = (Inr (dv s (mkey k) \<noteq> None, False), s2)" "ok s2" "hv s2 = hv s" "dv s2 = dv s"
    using col_exists_step [OF 1(2) X k kk] live 1(3,4) by (auto simp: marked_deleted_def)
  define t where "t = (if dv s (mkey k) = None then s2 else s1)"
  have t: "ok t" "hv t = hv s" "dv t = dv s" using 1 2 by (simp_all add: t_def)
  have "col_Save P X ?ms patch events c doc (s, cbs) = abind (save P X ?ms patch events c doc) (\<lambda>_. ret ()) (t, cbs)"
    using 1(1) 2(1) pk new
    by (auto simp: col_Save_def col_create_def col_update_def on_stores_def abind_def lift_sum_def t_def split: option.split)
  moreover from save_spec [OF t(1) X k pk kk, unfolded t(2,3), OF inv live sav, of patch events cbs, folded ns_def]
  obtain nd ls s' where "save P X ?ms patch events c doc (t, cbs) =
      (Inr (Some (dag_Cid (x_dag X) nd)), (s', cbs @ DocClean #
        (if events then [PublishUpdate (pk_DocKey pk) (dag_Cid (x_dag X) nd) (co_schemaID c) nd (next_height X ns (hv s))] else []) @
        [DocSetHead (dag_Cid (x_dag X) nd)]))"
    and s': "ok s'" "doc_inv k (dv s')" "dv s' (mkey k) = Some [ObjectMarker]"
      "head_map X ns (hv s') = [dag_Cid (x_dag X) nd \<mapsto> next_height X ns (hv s)]" "heads_inv X ns (hv s')"
      "list_all2 (saved P X k c doc (hv s) (hv s') (dv s')) (filter (dirty doc) (doc_fields doc)) ls"
      "\<forall>g. clean_part g \<longrightarrow> g \<noteq> COMPOSITE_NAMESPACE \<longrightarrow> g \<notin> entry_id c ` set (filter (dirty doc) (doc_fields doc)) \<longrightarrow>
         same_field X k (hv s) (dv s) (hv s') (dv s') g" by blast
  ultimately show ?thesis
    by (intro exI [of _ nd] exI [of _ "DocClean # (if events then [PublishUpdate (pk_DocKey pk) (dag_Cid (x_dag X) nd) (co_schemaID c) nd (next_height X ns (hv s))] else []) @
        [DocSetHead (dag_Cid (x_dag X) nd)]"] exI [of _ ls] exI [of _ s']) (simp add: abind_def)
qed

text \<open>What the interface makes of a document that is deleted.\<close>

lemma deleted_rejected:
  fixes X :: "('c, 'n) pkgs"
  assumes "ok s" and X: "clock_laws X" and k: "doc_wf k" and kk: "k = ToDataStoreKey pk" and del: "dv s (mkey k) = Some [DeletedObjectMarker]"
  shows "getPrimaryKeyFromDocKey K c dk = Inr pk \<Longrightarrow>
      fst (col_Delete K X (MultiStoreFrom (x_ds X) D) events c dk (s, cbs)) = Inl ErrDocumentNotFound"
    and "getPrimaryKeyFromDocKey (dp_keys P) c (doc_key doc) = Inr pk \<Longrightarrow>
      fst (col_Update P X (MultiStoreFrom (x_ds X) D) patch events c doc (s, cbs)) = Inl ErrDocumentDeleted"
    and "getPrimaryKeyFromDocKey (dp_keys P) c (doc_key doc) = Inr pk \<Longrightarrow>
      \<exists>s'. col_Save P X (MultiStoreFrom (x_ds X) D) patch events c doc (s, cbs) = (Inr (), (s', cbs)) \<and> hv s' = hv s \<and> dv s' = dv s"
    and "getKeysFromDoc P c doc = Inr (dky, pk) \<Longrightarrow>
      fst (col_create P X (MultiStoreFrom (x_ds X) D) patch events c doc (s, cbs)) = Inl ErrDocumentAlreadyExists"
proof -
  obtain s' where s': "col_exists X (MultiStoreFrom (x_ds X) D) pk s = (Inr (True, True), s')" "hv s' = hv s" "dv s' = dv s"
    using col_exists_step [OF assms(1) X k kk] del by auto
  note run = abind_def lift_sum_def on_stores_def fail_def
  show "fst (col_Delete K X (MultiStoreFrom (x_ds X) D) events c dk (s, cbs)) = Inl ErrDocumentNotFound"
    if "getPrimaryKeyFromDocKey K c dk = Inr pk" using that s'(1) by (simp add: col_Delete_def run)
  show "fst (col_Update P X (MultiStoreFrom (x_ds X) D) patch events c doc (s, cbs)) = Inl ErrDocumentDeleted"
    if "getPrimaryKeyFromDocKey (dp_keys P) c (doc_key doc) = Inr pk" using that s'(1) by (simp add: col_Update_def run)
  show "\<exists>s'. col_Save P X (MultiStoreFrom (x_ds X) D) patch events c doc (s, cbs) = (Inr (), (s', cbs)) \<and> hv s' = hv s \<and> dv s' = dv s"
    if "getPrimaryKeyFromDocKey (dp_keys P) c (doc_key doc) = Inr pk" using that s' by (simp add: col_Save_def run)
  show "fst (col_create P X (MultiStoreFrom (x_ds X) D) patch events c doc (s, cbs)) = Inl ErrDocumentAlreadyExists"
    if "getKeysFromDoc P c doc = Inr (dky, pk)" using that s'(1) by (simp add: col_create_def run)
qed

lemma col_Exists_step:
  fixes X :: "('c, 'n) pkgs"
  assumes "ok s" and X: "clock_laws X" and k: "doc_wf k" and pk: "getPrimaryKeyFromDocKey K c dk = Inr pk" and kk: "k = ToDataStoreKey pk"
  shows "fst (col_Exists K X (MultiStoreFrom (x_ds X) D) c dk s) = Inr (dv s (mkey k) \<notin> {None, Some [DeletedObjectMarker]})"
  using col_exists_step [OF assms(1) X k kk] pk by (auto simp: col_Exists_def atry_def abind_def lift_sum_def)

end

section \<open>Properties\<close>

abbreviation data_view :: "(dsItem, 't) btree_ops \<Rightarrow> nat \<Rightarrow> ('t, 'u) Datastore \<Rightarrow> string \<Rightarrow> bytes option" where
  "data_view B p d \<equiv> sub_view ''/db/data'' (kv_view B p d)"

abbreviation head_view :: "(dsItem, 't) btree_ops \<Rightarrow> nat \<Rightarrow> ('t, 'u) Datastore \<Rightarrow> string \<Rightarrow> bytes option" where
  "head_view B p d \<equiv> sub_view ''/db/heads'' (kv_view B p d)"

text \<open>
  C5. Saving a document that is not deleted, whether it is new or exists, succeeds. Afterwards every
  dirty field reads back as the bytes of its value, a deleted value as no bytes; the fields that were
  not dirty are as before; the document exists, and the head that is registered for it is the one
  head of its composite DAG. A new document must have a value and the key that its contents hash to.
\<close>

theorem document_saved:
  fixes X :: "('c, 'n) pkgs"
  assumes "clock_laws X" and "txn_ok B Q p d" and "ms = MultiStoreFrom (x_ds X) (txn_dsrw B Q p)"
    and "getPrimaryKeyFromDocKey (dp_keys P) c (doc_key doc) = Inr pk" and "k = ToDataStoreKey pk" and "doc_wf k"
    and "doc_inv k (data_view B p d)" and "\<not> marked_deleted k (data_view B p d)"
    and "savable P X k c doc (head_view B p d) (data_view B p d)"
    and "data_view B p d (mkey k) = None \<longrightarrow> doc_values doc \<noteq> [] \<and> getKeysFromDoc P c doc = Inr (dky, pk)"
  shows "\<exists>d' cs cid h. col_Save P X ms patch events c doc (d, cbs) = (Inr (), (d', cbs @ cs)) \<and> DocSetHead cid \<in> set cs \<and>
    head_map X (ToHeadStoreKey (WithFieldId k COMPOSITE_NAMESPACE)) (head_view B p d') = [cid \<mapsto> h] \<and>
    fst (col_Exists (dp_keys P) X ms c (doc_key doc) d') = Inr True \<and>
    (\<forall>e \<in> set (doc_fields doc). dirty doc e \<longrightarrow> (\<exists>vl b. GetValueWithField doc (snd e) = Inr vl \<and> saved_bytes P vl = Inr b \<and>
       fst (ML_Value X (NewMerkleLWWRegister X (Datastore_of ms) (Headstore ms) (DAGstore ms) sv (WithFieldId k (entry_id c e)) n) d') = Inr b)) \<and>
    (\<forall>g. clean_part g \<longrightarrow> g \<notin> entry_id c ` set (filter (dirty doc) (doc_fields doc)) \<longrightarrow> g \<noteq> COMPOSITE_NAMESPACE \<longrightarrow>
       data_view B p d' (vkey k g) = data_view B p d (vkey k g))"
proof -
  note kv = mem_txn.kv_store_axioms
  obtain nd cs ls d' where s: "col_Save P X ms patch events c doc (d, cbs) = (Inr (), (d', cbs @ cs))" "DocSetHead (dag_Cid (x_dag X) nd) \<in> set cs"
      "txn_ok B Q p d'" "data_view B p d' (mkey k) = Some [ObjectMarker]"
      "head_map X (ToHeadStoreKey (WithFieldId k COMPOSITE_NAMESPACE)) (head_view B p d') =
        [dag_Cid (x_dag X) nd \<mapsto> next_height X (ToHeadStoreKey (WithFieldId k COMPOSITE_NAMESPACE)) (head_view B p d)]"
    and sv: "list_all2 (saved P X k c doc (head_view B p d) (head_view B p d') (data_view B p d')) (filter (dirty doc) (doc_fields doc)) ls"
    and o: "\<forall>g. clean_part g \<longrightarrow> g \<noteq> COMPOSITE_NAMESPACE \<longrightarrow> g \<notin> entry_id c ` set (filter (dirty doc) (doc_fields doc)) \<longrightarrow>
       same_field X k (head_view B p d) (data_view B p d) (head_view B p d') (data_view B p d') g"
    using kv_store.col_Save_spec [OF kv, OF assms(2,1,6,4,5,7-10), of patch events cbs, folded assms(3)] by blast
  have ex: "fst (col_Exists (dp_keys P) X ms c (doc_key doc) d') = Inr True"
    using kv_store.col_Exists_step [OF kv, OF s(3) assms(1,6,4,5), folded assms(3)] s(4) by (simp add: ObjectMarker_def DeletedObjectMarker_def)
  have live: "\<not> marked_deleted k (data_view B p d')" using s(4) by (simp add: marked_deleted_def ObjectMarker_def DeletedObjectMarker_def)
  have rd: "\<exists>vl b. GetValueWithField doc (snd e) = Inr vl \<and> saved_bytes P vl = Inr b \<and>
      fst (ML_Value X (NewMerkleLWWRegister X (Datastore_of ms) (Headstore ms) (DAGstore ms) sv (WithFieldId k (entry_id c e)) n) d') = Inr b"
    if e: "e \<in> set (doc_fields doc)" "dirty doc e" for e
  proof -
    obtain l where "saved P X k c doc (head_view B p d) (head_view B p d') (data_view B p d') e l"
      using list_all2_mem(1) [OF sv, of e] e by auto
    then obtain vl b where b: "GetValueWithField doc (snd e) = Inr vl" "saved_bytes P vl = Inr b"
      "data_view B p d' (vkey k (entry_id c e)) = Some (LWW_REGISTER # b)" by (auto simp: saved_def Let_def)
    have "clean_part (entry_id c e)" using assms(9) e writable_clean [of P c doc e] by (auto simp: savable_def)
    then show ?thesis using b kv_store.ML_Value_step [OF kv, OF s(3) assms(1,6) _ live b(3), folded assms(3)] by blast
  qed
  show ?thesis
    using s(1,2,5) ex rd o by (intro exI [of _ d'] exI [of _ cs] exI [of _ "dag_Cid (x_dag X) nd"] exI) (auto simp: same_field_def)
qed


section \<open>A concrete collection\<close>

definition w_keys :: "string key_ops" where
  "w_keys = \<lparr>uu_NewV5 = (\<lambda>n s. s), uu_String = (\<lambda>u. u), uu_FromString = Inr, uu_SDNNamespaceV0 = [],
     mb_Encode = (\<lambda>b. ''b''), mb_Decode = (\<lambda>s. Inr [1])\<rparr>"

definition w_docs :: "(string, nat) doc_pkgs" where
  "w_docs = \<lparr>dp_keys = w_keys, dp_Marshal = (\<lambda>v. case v of Plain (Str x) \<Rightarrow> Inr (to_bytes x) | _ \<Rightarrow> Inr []),
     dp_EncMode = Inr (\<lambda>m. Inr (to_bytes (concat (map fst m)))), dp_Sum = (\<lambda>b. Inr (length b)), dp_String = format_uint\<rparr>"

definition w_col :: collection where
  "w_col = \<lparr>co_colID = 1, co_schemaID = ''s'', co_desc = \<lparr>col_Name = ''User'', col_ID = 1, col_Schema = \<lparr>sd_SchemaID = ''s'', sd_VersionID = ''s'',
     sd_Name = ''User'', sd_Fields = [w_field ''_key'' FieldKind_DocKey NONE_CRDT, (w_field ''name'' FieldKind_STRING LWW_REGISTER)\<lparr>fd_ID := 1\<rparr>]\<rparr>\<rparr>\<rparr>"

definition w_doc :: "(string, nat) Document" where
  "w_doc = SetAs ''name'' (Plain (Str ''Ada'')) LWW_REGISTER (NewDocWithKey (NewDocKeyV0 w_keys format_uint 4))"

definition w_pk :: PrimaryDataStoreKey where
  "w_pk = \<lparr>pk_CollectionId = ''1'', pk_DocKey = ''b-4''\<rparr>"

lemma w_doc_fields: "doc_fields w_doc = [(''name'', newField LWW_REGISTER ''name'')]"
  "GetValueWithField w_doc (newField LWW_REGISTER ''name'') = Inr (newCBORValue LWW_REGISTER (Plain (Str ''Ada'')))"
  "doc_values w_doc \<noteq> []"
  by (simp_all add: w_doc_def SetAs_def setCBOR_def doc_set_def NewDocWithKey_def newEmptyDoc_def GetValueWithField_def Let_def)

lemma w_doc_keys: "getPrimaryKeyFromDocKey (dp_keys w_docs) w_col (doc_key w_doc) = Inr w_pk" "doc_wf (ToDataStoreKey w_pk)"
  "\<exists>dky. getKeysFromDoc w_docs w_col w_doc = Inr (dky, w_pk)" "field_id w_col ''name'' = ''1''"
proof -
  show "getPrimaryKeyFromDocKey (dp_keys w_docs) w_col (doc_key w_doc) = Inr w_pk" by code_simp
  show "doc_wf (ToDataStoreKey w_pk)" by code_simp
  have "map_sum id snd (getKeysFromDoc w_docs w_col w_doc) = Inr w_pk" by code_simp
  then show "\<exists>dky. getKeysFromDoc w_docs w_col w_doc = Inr (dky, w_pk)" by (cases "getKeysFromDoc w_docs w_col w_doc") auto
  show "field_id w_col ''name'' = ''1''" by code_simp
qed

lemma w_dirty: "dirty w_doc (''name'', newField LWW_REGISTER ''name'')" "writable w_docs w_col w_doc (''name'', newField LWW_REGISTER ''name'')"
proof -
  show "dirty w_doc (''name'', newField LWW_REGISTER ''name'')" by (simp add: dirty_def w_doc_fields newCBORValue_def)
  have "GetField (co_desc w_col) ''name'' = Some ((w_field ''name'' FieldKind_STRING LWW_REGISTER)\<lparr>fd_ID := 1\<rparr>)"
    "\<not> IsObject ((w_field ''name'' FieldKind_STRING LWW_REGISTER)\<lparr>fd_ID := 1\<rparr>)"
    "isSecondaryIDField w_col ((w_field ''name'' FieldKind_STRING LWW_REGISTER)\<lparr>fd_ID := 1\<rparr>) = None" by code_simp+
  then show "writable w_docs w_col w_doc (''name'', newField LWW_REGISTER ''name'')"
    by (simp add: writable_def w_doc_fields newCBORValue_def saved_bytes_def w_docs_def)
qed

lemma w_savable: "savable w_docs plain_pkgs (ToDataStoreKey w_pk) w_col w_doc (\<lambda>_. None) (\<lambda>_. None)"
  using w_dirty by (simp add: savable_def w_doc_fields ready_def empty_heads empty_doc w_docs_def)

lemma w_start:
  assumes "getKeysFromDoc w_docs w_col w_doc = Inr (dky, w_pk)"
  shows "doc_inv (ToDataStoreKey w_pk) (data_view items_tree 0 w1)" "\<not> marked_deleted (ToDataStoreKey w_pk) (data_view items_tree 0 w1)"
    "savable w_docs plain_pkgs (ToDataStoreKey w_pk) w_col w_doc (head_view items_tree 0 w1) (data_view items_tree 0 w1)"
    "data_view items_tree 0 w1 (mkey (ToDataStoreKey w_pk)) = None \<longrightarrow> doc_values w_doc \<noteq> [] \<and> getKeysFromDoc w_docs w_col w_doc = Inr (dky, w_pk)"
  using assms w_savable w_doc_fields(3) by (simp_all add: w1_facts)


theorem document_saved_witness:
  "\<exists>d' cs. col_Save w_docs plain_pkgs w_ms (\<lambda>_ _ _. ret ()) False w_col w_doc (w1, []) = (Inr (), (d', cs)) \<and>
    fst (col_Exists w_keys plain_pkgs w_ms w_col (doc_key w_doc) d') = Inr True \<and>
    fst (ML_Value plain_pkgs (NewMerkleLWWRegister plain_pkgs (Datastore_of w_ms) (Headstore w_ms) (DAGstore w_ms) []
      (WithFieldId (ToDataStoreKey w_pk) ''1'') []) d') = Inr (to_bytes ''Ada'')"
proof -
  obtain dky where dky: "getKeysFromDoc w_docs w_col w_doc = Inr (dky, w_pk)" using w_doc_keys(3) by blast
  note s = w_start [OF dky]
  show ?thesis
    using document_saved [OF plain_pkgs_laws w1_ok w_ms_def [unfolded w_root_def] w_doc_keys(1) refl w_doc_keys(2) s,
        of "\<lambda>_ _ _. ret ()" False "[]" "[]" "[]"] w_dirty
    by (auto simp: w_doc_fields w_doc_keys(4) saved_bytes_def newCBORValue_def w_docs_def)
qed


end
