(* ===== verification/MemPurge.thy ===== *)
theory MemPurge
  imports MemRun
begin

text \<open>
  The two clean-up loops of the in-memory datastore: the removal of expired entries from the
  registry of transactions and the purge of versions that no transaction can read any more.
\<close>

section \<open>Expired transactions\<close>

text \<open>
  C31. The loop that clears the registry ends: its second scan finds nothing left to delete, and what
  remains are exactly the transactions that have not expired.
\<close>

theorem clear_loop_two:
  assumes F: "btree_laws byDSVersion F"
  shows "\<exists>u'. clear_loop F now 2 u = Some u' \<and>
    set (bt_Iter F u') = {e \<in> set (bt_Iter F u). \<not> fl_expiresAt e < now}"
proof -
  let ?old = "filter (\<lambda>e. fl_expiresAt e < now) (bt_Iter F u)"
  let ?u = "foldl (bt_Delete F) u ?old"
  have new: "set (bt_Iter F ?u) = {e \<in> set (bt_Iter F u). \<not> fl_expiresAt e < now}"
    using Iter_delete_list [OF F, of ?old u] byDSVersion_irrefl by auto
  then have "filter (\<lambda>e. fl_expiresAt e < now) (bt_Iter F ?u) = []" by (auto simp: filter_empty_conv)
  then show ?thesis
    using new by (cases "?old = []") (auto simp: numeral_2_eq_2 Let_def filter_empty_conv)
qed

section \<open>Old versions\<close>

text \<open>
  C11. The purge ends. It leaves what every version from the oldest registered transaction on can
  see unchanged, and keeps at most one version of a key up to that one.
\<close>

theorem purge_safe:
  assumes L: "btree_laws byKeys B"
  shows "\<exists>d'. executePurge B F d = Some d' \<and>
    (\<forall>k. \<forall>v \<ge> purge_version F d. snapshot B d' v k = snapshot B d v k) \<and>
    (\<forall>x \<in> set (bt_Iter B (ds_values d')). \<forall>y \<in> set (bt_Iter B (ds_values d')).
       key x = key y \<longrightarrow> version x < version y \<longrightarrow> purge_version F d < version y)"
proof -
  obtain vs where "executePurge B F d = Some (d\<lparr>ds_values := vs\<rparr>)"
    and "\<forall>k. \<forall>v \<ge> purge_version F d. ds_get B vs k v = ds_get B (ds_values d) k v"
    and "\<forall>x \<in> set (bt_Iter B vs). \<forall>y \<in> set (bt_Iter B vs). key x = key y \<longrightarrow> version x < version y \<longrightarrow> purge_version F d < version y"
    using executePurge_ends [OF L, of F d] by blast
  then show ?thesis by (intro exI [of _ "d\<lparr>ds_values := vs\<rparr>"]) (simp add: snapshot_def)
qed

theorem purge_safe_witness: "\<exists>d'. executePurge items_tree txns_tree w5 = Some d' \<and> snapshot items_tree d' 1 ''/a'' = Some [1]"
proof -
  obtain d' where "executePurge items_tree txns_tree w5 = Some d'"
    and snap: "\<forall>k. \<forall>v \<ge> purge_version txns_tree w5. snapshot items_tree d' v k = snapshot items_tree w5 v k"
    using purge_safe [OF items_tree_laws] by blast
  moreover have "purge_version txns_tree w5 \<le> 1" "snapshot items_tree w5 1 ''/a'' = Some [1]" by code_simp+
  ultimately show ?thesis by metis
qed

theorem clear_loop_two_witness:
  "\<exists>u'. clear_loop txns_tree 4000 2 (inFlightTxn w4) = Some u' \<and>
     set (bt_Iter txns_tree u') = {e \<in> set (bt_Iter txns_tree (inFlightTxn w4)). \<not> fl_expiresAt e < 4000}"
  by (rule clear_loop_two [OF txns_tree_laws])

section \<open>Transactions that share a registry entry\<close>

text \<open>
  The registry is ordered by the version a transaction was begun at and nothing else, so two
  transactions begun at one version share an entry and the end of one unregisters the other. Here
  a direct write, which runs its own transaction at the same version, unregisters an open
  transaction; the next purge removes the version that transaction reads.
\<close>

definition x1 where "x1 = snd (DS_Put items_tree txns_tree plain_NewKey 0 ''/a'' [1] w0)"
definition x2 where "x2 = snd (NewTransaction items_tree txns_tree 0 False x1)"
definition x3 where "x3 = snd (DS_Put items_tree txns_tree plain_NewKey 0 ''/a'' [2] x2)"
definition x4 where "x4 = executePurge items_tree txns_tree x3"

theorem purge_forgets_open_txn:
  "fst (NewTransaction items_tree txns_tree 0 False x1) = Inr 1 \<and>
   fst (Txn_Get items_tree 1 ''/a'' x3) = Inr [1] \<and>
   map_option (\<lambda>d. fst (Txn_Get items_tree 1 ''/a'' d)) x4 = Some (Inl ErrNotFound)"
  by code_simp

text \<open>For the same reason closing the datastore closes only one of the transactions begun at a version.\<close>

theorem close_misses_txn:
  "\<not> txn_closed (txn_at (snd (DS_Close txns_tree w2)) 0) \<and> txn_closed (txn_at (snd (DS_Close txns_tree w2)) 1)"
  by code_simp

end
