(* ===== verification/Connor.thy ===== *)
theory Connor
  imports Values
begin

text \<open>
  The filter language (\<^verbatim>\<open>connor\<close>) and the two kinds of filter keys of the planner
  (\<^verbatim>\<open>planner/mapper/targetable.go\<close>): a condition is evaluated against a dynamic value and gives a
  boolean or an error. A Go map is the list of its entries in the order of iteration.
\<close>

section \<open>Conditions\<close>

datatype FilterKey = PropertyIndex nat | Operator string

text \<open>
  A condition is a plain value, a slice of conditions (\<^verbatim>\<open>[]any\<close>, never a plain \<open>Anys\<close>) or a map
  from filter keys to conditions.
\<close>

datatype cond = CVal any | CList "cond list" | CMap "(FilterKey \<times> cond) list"

text \<open>\<open>GetProp\<close> panics on a value that is no document and on an index out of range.\<close>

definition PropertyIndex_GetProp :: "nat \<Rightarrow> any \<Rightarrow> error + any" where
  "PropertyIndex_GetProp i data =
     (case data of
        Nil_any \<Rightarrow> Inr Nil_any
      | Doc d \<Rightarrow> if i < length (Fields d) then Inr (Fields d ! i) else Inl GoPanic
      | _ \<Rightarrow> Inl GoPanic)"

definition PropertyIndex_GetOperatorOrDefault :: "nat \<Rightarrow> string \<Rightarrow> string" where
  "PropertyIndex_GetOperatorOrDefault i defaultOp = defaultOp"

definition PropertyIndex_Equal :: "nat \<Rightarrow> FilterKey \<Rightarrow> bool" where
  "PropertyIndex_Equal i other = (case other of PropertyIndex j \<Rightarrow> i = j | _ \<Rightarrow> False)"

definition Operator_GetProp :: "string \<Rightarrow> any \<Rightarrow> error + any" where
  "Operator_GetProp op data = Inr data"

definition Operator_GetOperatorOrDefault :: "string \<Rightarrow> string \<Rightarrow> string" where
  "Operator_GetOperatorOrDefault op defaultOp = op"

definition Operator_Equal :: "string \<Rightarrow> FilterKey \<Rightarrow> bool" where
  "Operator_Equal op other = (case other of Operator op' \<Rightarrow> op = op' | _ \<Rightarrow> False)"

text \<open>The methods of the interface \<^verbatim>\<open>FilterKey\<close>, on either kind of key.\<close>

definition GetProp :: "FilterKey \<Rightarrow> any \<Rightarrow> error + any" where
  "GetProp k data = (case k of PropertyIndex i \<Rightarrow> PropertyIndex_GetProp i data | Operator op \<Rightarrow> Operator_GetProp op data)"

definition GetOperatorOrDefault :: "FilterKey \<Rightarrow> string \<Rightarrow> string" where
  "GetOperatorOrDefault k defaultOp =
     (case k of
        PropertyIndex i \<Rightarrow> PropertyIndex_GetOperatorOrDefault i defaultOp
      | Operator op \<Rightarrow> Operator_GetOperatorOrDefault op defaultOp)"

definition FilterKey_Equal :: "FilterKey \<Rightarrow> FilterKey \<Rightarrow> bool" where
  "FilterKey_Equal k other =
     (case k of PropertyIndex i \<Rightarrow> PropertyIndex_Equal i other | Operator op \<Rightarrow> Operator_Equal op other)"

lemmas GetProp_defs = GetProp_def PropertyIndex_GetProp_def Operator_GetProp_def
lemmas GetOperatorOrDefault_defs =
  GetOperatorOrDefault_def PropertyIndex_GetOperatorOrDefault_def Operator_GetOperatorOrDefault_def

lemma FilterKey_Equal_iff [simp]: "FilterKey_Equal k other \<longleftrightarrow> k = other"
  by (auto simp: FilterKey_Equal_def PropertyIndex_Equal_def Operator_Equal_def split: FilterKey.splits)

definition ErrUnhandledType :: error where
  "ErrUnhandledType = ErrNamed ''unexpected type''"

definition ErrUnknownOperator :: error where
  "ErrUnknownOperator = ErrNamed ''unknown operator''"

text \<open>The parts of the language that depend on the platform: see the theory \<open>Values\<close>.\<close>

record env =
  en_Parse :: "string \<Rightarrow> error + int"
  en_f2i :: "float64 \<Rightarrow> 64 word"

section \<open>Comparisons\<close>

definition upcast_cond :: "cond \<Rightarrow> any option" where
  "upcast_cond c = (case c of CVal v \<Rightarrow> Some (TryUpcast v) | _ \<Rightarrow> None)"

definition ge :: "env \<Rightarrow> cond \<Rightarrow> any \<Rightarrow> error + bool" where
  "ge E condition data =
     (case condition of
        CVal Nil_any \<Rightarrow> Inr True
      | CVal (Time c) \<Rightarrow>
          (case data of
             Time d \<Rightarrow> Inr (c < d \<or> d = c)
           | Str d \<Rightarrow> (case en_Parse E d of Inl err \<Rightarrow> Inl err | Inr dt \<Rightarrow> Inr (c < dt \<or> dt = c))
           | _ \<Rightarrow> Inl ErrUnhandledType)
      | _ \<Rightarrow>
          (case upcast_cond condition of
             Some (Float64 cn) \<Rightarrow>
               (case TryUpcast data of
                  Float64 dn \<Rightarrow> Inr (f_le cn dn)
                | Int64 dn \<Rightarrow> Inr (f_lt cn (float_of_int (sint dn)))
                | _ \<Rightarrow> Inr False)
           | Some (Int64 cn) \<Rightarrow>
               (case TryUpcast data of
                  Float64 dn \<Rightarrow> Inr (f_le (float_of_int (sint cn)) dn)
                | Int64 dn \<Rightarrow> Inr (sint cn \<le> sint dn)
                | _ \<Rightarrow> Inr False)
           | _ \<Rightarrow> Inl ErrUnhandledType))"

definition gt :: "env \<Rightarrow> cond \<Rightarrow> any \<Rightarrow> error + bool" where
  "gt E condition data =
     (case condition of
        CVal Nil_any \<Rightarrow> Inr (data \<noteq> Nil_any)
      | CVal (Time c) \<Rightarrow>
          (case data of
             Time d \<Rightarrow> Inr (c < d)
           | Str d \<Rightarrow> (case en_Parse E d of Inl err \<Rightarrow> Inl err | Inr dt \<Rightarrow> Inr (c < dt))
           | _ \<Rightarrow> Inl ErrUnhandledType)
      | _ \<Rightarrow>
          (case upcast_cond condition of
             Some (Float64 cn) \<Rightarrow>
               (case TryUpcast data of
                  Float64 dn \<Rightarrow> Inr (f_lt cn dn)
                | Int64 dn \<Rightarrow> Inr (f_lt cn (float_of_int (sint dn)))
                | _ \<Rightarrow> Inr False)
           | Some (Int64 cn) \<Rightarrow>
               (case TryUpcast data of
                  Float64 dn \<Rightarrow> Inr (f_lt (float_of_int (sint cn)) dn)
                | Int64 dn \<Rightarrow> Inr (sint cn < sint dn)
                | _ \<Rightarrow> Inr False)
           | _ \<Rightarrow> Inl ErrUnhandledType))"

definition le :: "env \<Rightarrow> cond \<Rightarrow> any \<Rightarrow> error + bool" where
  "le E condition data =
     (case condition of
        CVal Nil_any \<Rightarrow> Inr (data = Nil_any)
      | CVal (Time c) \<Rightarrow>
          (case data of
             Time d \<Rightarrow> Inr (d < c \<or> d = c)
           | Str d \<Rightarrow> (case en_Parse E d of Inl err \<Rightarrow> Inl err | Inr dt \<Rightarrow> Inr (dt < c \<or> dt = c))
           | _ \<Rightarrow> Inl ErrUnhandledType)
      | _ \<Rightarrow>
          (case upcast_cond condition of
             Some (Float64 cn) \<Rightarrow>
               (case TryUpcast data of
                  Float64 dn \<Rightarrow> Inr (f_le dn cn)
                | Int64 dn \<Rightarrow> Inr (f_le (float_of_int (sint dn)) cn)
                | _ \<Rightarrow> Inr False)
           | Some (Int64 cn) \<Rightarrow>
               (case TryUpcast data of
                  Float64 dn \<Rightarrow> Inr (f_le dn (float_of_int (sint cn)))
                | Int64 dn \<Rightarrow> Inr (sint dn \<le> sint cn)
                | _ \<Rightarrow> Inr False)
           | _ \<Rightarrow> Inl ErrUnhandledType))"

definition lt :: "env \<Rightarrow> cond \<Rightarrow> any \<Rightarrow> error + bool" where
  "lt E condition data =
     (case condition of
        CVal Nil_any \<Rightarrow> Inr False
      | CVal (Time c) \<Rightarrow>
          (case data of
             Time d \<Rightarrow> Inr (d < c)
           | Str d \<Rightarrow> (case en_Parse E d of Inl err \<Rightarrow> Inl err | Inr dt \<Rightarrow> Inr (dt < c))
           | _ \<Rightarrow> Inl ErrUnhandledType)
      | _ \<Rightarrow>
          (case upcast_cond condition of
             Some (Float64 cn) \<Rightarrow>
               (case TryUpcast data of
                  Float64 dn \<Rightarrow> Inr (f_lt dn cn)
                | Int64 dn \<Rightarrow> Inr (f_lt (float_of_int (sint dn)) cn)
                | _ \<Rightarrow> Inr False)
           | Some (Int64 cn) \<Rightarrow>
               (case TryUpcast data of
                  Float64 dn \<Rightarrow> Inr (f_lt dn (float_of_int (sint cn)))
                | Int64 dn \<Rightarrow> Inr (sint dn < sint cn)
                | _ \<Rightarrow> Inr False)
           | _ \<Rightarrow> Inl ErrUnhandledType))"

section \<open>Patterns\<close>

fun Contains :: "string \<Rightarrow> string \<Rightarrow> bool" where
  "Contains [] p = (p = [])"
| "Contains (x # xs) p = (HasPrefix (x # xs) p \<or> Contains xs p)"

definition like_string :: "string \<Rightarrow> string \<Rightarrow> bool" where
  "like_string cn d =
     (let hasPrefix = (length cn \<ge> 2 \<and> hd cn = CHR ''%'');
          cn1 = (if hasPrefix then TrimPrefix cn ''%'' else cn);
          hasSuffix = (length cn \<ge> 2 \<and> last cn1 = CHR ''%'');
          cn2 = (if hasSuffix then TrimSuffix cn1 ''%'' else cn1);
          startAndEnd = (if length cn \<ge> 2 \<and> \<not> hasPrefix \<and> \<not> hasSuffix then split_on (CHR ''%'') cn2 else [])
      in if hasPrefix \<and> hasSuffix then Contains d cn2
         else if hasPrefix then HasSuffix d cn2
         else if hasSuffix then HasPrefix d cn2
         else if length startAndEnd = 2 then HasPrefix d (startAndEnd ! 0) \<and> HasSuffix d (startAndEnd ! 1)
         else cn2 = d)"

definition like :: "cond \<Rightarrow> any \<Rightarrow> error + bool" where
  "like condition data =
     (let match = (\<lambda>data. case condition of
            CVal (Str cn) \<Rightarrow> (case data of Str d \<Rightarrow> Inr (like_string cn d) | _ \<Rightarrow> Inr False)
          | _ \<Rightarrow> Inl ErrUnhandledType)
      in case data of
           OptStr None \<Rightarrow> Inr (condition = CVal Nil_any)
         | OptStr (Some v) \<Rightarrow> match (Str v)
         | _ \<Rightarrow> match data)"

definition negate :: "error + bool \<Rightarrow> error + bool" where
  "negate r = (case r of Inl err \<Rightarrow> Inl err | Inr m \<Rightarrow> Inr (\<not> m))"

definition nlike :: "cond \<Rightarrow> any \<Rightarrow> error + bool" where
  "nlike conditions data = negate (like conditions data)"

section \<open>Equality and the combinations\<close>

fun cond_equal :: "cond \<Rightarrow> any \<Rightarrow> bool" where
  "cond_equal (CVal v) d = deep_equal v d"
| "cond_equal (CList cs) d =
     (case d of Anys ds \<Rightarrow> list_all2 (\<lambda>f y. f y) (map cond_equal cs) ds | _ \<Rightarrow> False)"
| "cond_equal (CMap cs) d = False"

definition data_weight :: "any \<Rightarrow> nat" where
  "data_weight data = (case data of Docs arr \<Rightarrow> 2 * length arr + 4 | _ \<Rightarrow> 3)"

function (sequential) eq :: "env \<Rightarrow> cond \<Rightarrow> any \<Rightarrow> error + bool"
  and eq_docs :: "env \<Rightarrow> cond \<Rightarrow> doc list \<Rightarrow> error + bool"
  and eq_val :: "env \<Rightarrow> cond \<Rightarrow> any \<Rightarrow> error + bool"
  and eq_map :: "env \<Rightarrow> (FilterKey \<times> cond) list \<Rightarrow> any \<Rightarrow> error + bool"
  and matchWith :: "env \<Rightarrow> string \<Rightarrow> cond \<Rightarrow> any \<Rightarrow> error + bool"
  and eq_all :: "env \<Rightarrow> cond list \<Rightarrow> any \<Rightarrow> error + bool"
  and eq_any :: "env \<Rightarrow> cond list \<Rightarrow> any \<Rightarrow> error + bool" where
  "eq E condition data =
     (case data of
        Docs arr \<Rightarrow> eq_docs E condition arr
      | OptBool v \<Rightarrow> (case v of None \<Rightarrow> Inr (condition = CVal Nil_any) | Some b \<Rightarrow> eq_val E condition (Bool b))
      | OptInt v \<Rightarrow> (case v of None \<Rightarrow> Inr (condition = CVal Nil_any) | Some i \<Rightarrow> eq_val E condition (Int64 i))
      | OptFloat v \<Rightarrow> (case v of None \<Rightarrow> Inr (condition = CVal Nil_any) | Some x \<Rightarrow> eq_val E condition (Float64 x))
      | OptStr v \<Rightarrow> (case v of None \<Rightarrow> Inr (condition = CVal Nil_any) | Some s \<Rightarrow> eq_val E condition (Str s))
      | _ \<Rightarrow> eq_val E condition data)"
| "eq_docs E condition [] = Inr False"
| "eq_docs E condition (item # arr) =
     (case eq E condition (Doc item) of
        Inl err \<Rightarrow> Inl err | Inr m \<Rightarrow> if m then Inr True else eq_docs E condition arr)"
| "eq_val E (CMap cn) data = eq_map E cn data"
| "eq_val E (CVal (Str cn)) data = Inr (data = Str cn)"
| "eq_val E (CVal (Int64 cn)) data = Inr (numbers_Equal (en_f2i E) (Int64 cn) data)"
| "eq_val E (CVal (Int32 cn)) data = Inr (numbers_Equal (en_f2i E) (Int32 cn) data)"
| "eq_val E (CVal (Float64 cn)) data = Inr (numbers_Equal (en_f2i E) (Float64 cn) data)"
| "eq_val E (CVal (Time cn)) data = Inr (time_Equal (en_Parse E) (Time cn) data)"
| "eq_val E condition data = Inr (cond_equal condition data)"
| "eq_map E [] data = Inr True"
| "eq_map E ((prop, c) # cn) data =
     (case GetProp prop data of
        Inl err \<Rightarrow> Inl err
      | Inr d \<Rightarrow>
          (case matchWith E (GetOperatorOrDefault prop ''_eq'') c d of
             Inl err \<Rightarrow> Inl err | Inr m \<Rightarrow> if \<not> m then Inr False else eq_map E cn data))"
| "matchWith E op conditions data =
     (if op = ''_and'' then (case conditions of CList cn \<Rightarrow> eq_all E cn data | _ \<Rightarrow> Inl ErrUnhandledType)
      else if op = ''_eq'' then eq E conditions data
      else if op = ''_ge'' then ge E conditions data
      else if op = ''_gt'' then gt E conditions data
      else if op = ''_in'' then (case conditions of CList cn \<Rightarrow> eq_any E cn data | _ \<Rightarrow> Inl ErrUnhandledType)
      else if op = ''_le'' then le E conditions data
      else if op = ''_lt'' then lt E conditions data
      else if op = ''_ne'' then negate (eq E conditions data)
      else if op = ''_nin'' then negate (case conditions of CList cn \<Rightarrow> eq_any E cn data | _ \<Rightarrow> Inl ErrUnhandledType)
      else if op = ''_or'' then (case conditions of CList cn \<Rightarrow> eq_any E cn data | _ \<Rightarrow> Inl ErrUnhandledType)
      else if op = ''_like'' then like conditions data
      else if op = ''_nlike'' then nlike conditions data
      else Inl ErrUnknownOperator)"
| "eq_all E [] data = Inr True"
| "eq_all E (c # cn) data =
     (case eq E c data of Inl err \<Rightarrow> Inl err | Inr m \<Rightarrow> if \<not> m then Inr False else eq_all E cn data)"
| "eq_any E [] data = Inr False"
| "eq_any E (c # cn) data =
     (case eq E c data of Inl err \<Rightarrow> Inl err | Inr m \<Rightarrow> if m then Inr True else eq_any E cn data)"
  by pat_completeness auto
termination
  by (relation "measures [\<lambda>x. case x of
        Inl (Inl (E, c, d)) \<Rightarrow> size c
      | Inl (Inr (Inl (E, c, ds))) \<Rightarrow> size c
      | Inl (Inr (Inr (E, c, d))) \<Rightarrow> size c
      | Inr (Inl (Inl (E, cn, d))) \<Rightarrow> size (CMap cn)
      | Inr (Inl (Inr (E, p, c, d))) \<Rightarrow> size c
      | Inr (Inr (Inl (E, cn, d))) \<Rightarrow> size (CList cn)
      | Inr (Inr (Inr (E, cn, d))) \<Rightarrow> size (CList cn),
    \<lambda>x. case x of
        Inl (Inl (E, c, d)) \<Rightarrow> data_weight d
      | Inl (Inr (Inl (E, c, ds))) \<Rightarrow> 2 * length ds + 3
      | Inl (Inr (Inr (E, c, d))) \<Rightarrow> 2
      | Inr (Inl (Inl (E, cn, d))) \<Rightarrow> 1
      | Inr (Inl (Inr (E, p, c, d))) \<Rightarrow> data_weight d + 1
      | Inr (Inr (Inl (E, cn, d))) \<Rightarrow> 0
      | Inr (Inr (Inr (E, cn, d))) \<Rightarrow> 0]")
    (auto simp: data_weight_def)

text \<open>The operators that evaluate their conditions with \<^verbatim>\<open>eq\<close>.\<close>

definition and_op :: "env \<Rightarrow> cond \<Rightarrow> any \<Rightarrow> error + bool" where
  "and_op E condition data = (case condition of CList cn \<Rightarrow> eq_all E cn data | _ \<Rightarrow> Inl ErrUnhandledType)"

definition or_op :: "env \<Rightarrow> cond \<Rightarrow> any \<Rightarrow> error + bool" where
  "or_op E condition data = (case condition of CList cn \<Rightarrow> eq_any E cn data | _ \<Rightarrow> Inl ErrUnhandledType)"

definition in_op :: "env \<Rightarrow> cond \<Rightarrow> any \<Rightarrow> error + bool" where
  "in_op E conditions data = (case conditions of CList cn \<Rightarrow> eq_any E cn data | _ \<Rightarrow> Inl ErrUnhandledType)"

definition ne :: "env \<Rightarrow> cond \<Rightarrow> any \<Rightarrow> error + bool" where
  "ne E conditions data = negate (eq E conditions data)"

definition nin :: "env \<Rightarrow> cond \<Rightarrow> any \<Rightarrow> error + bool" where
  "nin E conditions data = negate (in_op E conditions data)"

lemma matchWith_ops:
  "matchWith E op c d =
     (if op = ''_and'' then and_op E c d else if op = ''_eq'' then eq E c d else if op = ''_ge'' then ge E c d
      else if op = ''_gt'' then gt E c d else if op = ''_in'' then in_op E c d else if op = ''_le'' then le E c d
      else if op = ''_lt'' then lt E c d else if op = ''_ne'' then ne E c d else if op = ''_nin'' then nin E c d
      else if op = ''_or'' then or_op E c d else if op = ''_like'' then like c d
      else if op = ''_nlike'' then nlike c d else Inl ErrUnknownOperator)"
  by (simp only: matchWith.simps and_op_def or_op_def in_op_def ne_def nin_def)

declare eq.simps [simp del] matchWith.simps [simp del]

definition Match :: "env \<Rightarrow> (FilterKey \<times> cond) list \<Rightarrow> any \<Rightarrow> error + bool" where
  "Match E conditions data = eq E (CMap conditions) data"

text \<open>A filter of a plan; a plan without one lets every document pass.\<close>

record Filter =
  Conditions :: "(FilterKey \<times> cond) list"
  ExternalConditions :: "(string \<times> any) list"

definition NewFilter :: Filter where
  "NewFilter = \<lparr>Conditions = [], ExternalConditions = []\<rparr>"

definition RunFilter :: "env \<Rightarrow> any \<Rightarrow> Filter option \<Rightarrow> error + bool" where
  "RunFilter E doc filt = (case filt of None \<Rightarrow> Inr True | Some f \<Rightarrow> Match E (Conditions f) doc)"

end
