(* ===== verification/ConnorSpec.thy ===== *)
theory ConnorSpec
  imports Connor
begin

text \<open>
  What filters mean: a reference semantics without short cuts and errors that the evaluation agrees
  with whenever it gives a result, the exactness of the numeric comparisons, and the patterns of
  \<^verbatim>\<open>_like\<close> against the usual wildcard matching.
\<close>

section \<open>A reference semantics\<close>

definition truth :: "error + bool \<Rightarrow> bool" where
  "truth r = (case r of Inl _ \<Rightarrow> False | Inr b \<Rightarrow> b)"

lemma truth_simps [simp]: "truth (Inr b) = b" "truth (Inl e) = False"
  by (simp_all add: truth_def)

text \<open>The values a condition is compared with: the documents of a list, the value of an option.\<close>

definition targets :: "any \<Rightarrow> any list option" where
  "targets data =
     (case data of
        Docs arr \<Rightarrow> Some (map Doc arr)
      | OptBool v \<Rightarrow> map_option (\<lambda>b. [Bool b]) v
      | OptInt v \<Rightarrow> map_option (\<lambda>i. [Int64 i]) v
      | OptFloat v \<Rightarrow> map_option (\<lambda>x. [Float64 x]) v
      | OptStr v \<Rightarrow> map_option (\<lambda>s. [Str s]) v
      | _ \<Rightarrow> Some [data])"

lemma size_member: "x \<in> set xs \<Longrightarrow> f x < Suc (size_list f xs)"
  using size_list_estimation' [of x xs "f x" f] by simp

lemma size_entry: "(k, c) \<in> set cn \<Longrightarrow> size c < size (CMap cn)"
  using size_member [of "(k, c)" cn "size_prod (\<lambda>_. 0) size"] by simp

text \<open>\<open>sat E op c data\<close>: the operator \<open>op\<close> with condition \<open>c\<close> holds of the data.\<close>

function sat :: "env \<Rightarrow> string \<Rightarrow> cond \<Rightarrow> any \<Rightarrow> bool" where
  "sat E op (CVal v) data =
     (let e = (case targets data of None \<Rightarrow> v = Nil_any | Some ds \<Rightarrow> (\<exists>d \<in> set ds. truth (eq_val E (CVal v) d)))
      in if op = ''_eq'' then e else if op = ''_ne'' then \<not> e
         else if op = ''_ge'' then truth (ge E (CVal v) data) else if op = ''_gt'' then truth (gt E (CVal v) data)
         else if op = ''_le'' then truth (le E (CVal v) data) else if op = ''_lt'' then truth (lt E (CVal v) data)
         else if op = ''_like'' then truth (like (CVal v) data)
         else if op = ''_nlike'' then \<not> truth (like (CVal v) data) else False)"
| "sat E op (CList cs) data =
     (if op = ''_and'' then (\<forall>c \<in> set cs. sat E ''_eq'' c data)
      else if op = ''_or'' \<or> op = ''_in'' then (\<exists>c \<in> set cs. sat E ''_eq'' c data)
      else if op = ''_nin'' then \<not> (\<exists>c \<in> set cs. sat E ''_eq'' c data)
      else if op = ''_eq'' then (case targets data of None \<Rightarrow> False | Some ds \<Rightarrow> (\<exists>d \<in> set ds. cond_equal (CList cs) d))
      else if op = ''_ne'' then \<not> (case targets data of None \<Rightarrow> False | Some ds \<Rightarrow> (\<exists>d \<in> set ds. cond_equal (CList cs) d))
      else if op = ''_like'' then truth (like (CList cs) data)
      else if op = ''_nlike'' then \<not> truth (like (CList cs) data) else False)"
| "sat E op (CMap cn) data =
     (let e = (case targets data of
            None \<Rightarrow> False
          | Some ds \<Rightarrow> (\<exists>d \<in> set ds. \<forall>(k, c) \<in> set cn.
              case GetProp k d of Inl _ \<Rightarrow> False | Inr d' \<Rightarrow> sat E (GetOperatorOrDefault k ''_eq'') c d'))
      in if op = ''_eq'' then e else if op = ''_ne'' then \<not> e
         else if op = ''_like'' then truth (like (CMap cn) data)
         else if op = ''_nlike'' then \<not> truth (like (CMap cn) data) else False)"
  by pat_completeness auto
termination
  apply (relation "measure (\<lambda>(E, op, c, d). size c)")
  apply (auto simp: size_member simp del: cond.size(6) dest!: size_entry)
  done

declare sat.simps [simp del]

definition sat_map :: "env \<Rightarrow> (FilterKey \<times> cond) list \<Rightarrow> any \<Rightarrow> bool" where
  "sat_map E cn d \<longleftrightarrow> (\<forall>(k, c) \<in> set cn.
     case GetProp k d of Inl _ \<Rightarrow> False | Inr d' \<Rightarrow> sat E (GetOperatorOrDefault k ''_eq'') c d')"

definition sat_val :: "env \<Rightarrow> cond \<Rightarrow> any \<Rightarrow> bool" where
  "sat_val E c d = (case c of CVal v \<Rightarrow> truth (eq_val E c d) | CList cs \<Rightarrow> cond_equal c d | CMap cn \<Rightarrow> sat_map E cn d)"

lemma sat_eq:
  "sat E ''_eq'' c data = (case targets data of None \<Rightarrow> c = CVal Nil_any | Some ds \<Rightarrow> (\<exists>d \<in> set ds. sat_val E c d))"
  by (cases c) (simp_all add: sat.simps sat_val_def sat_map_def Let_def split: option.splits)

lemma sat_ne: "sat E ''_ne'' c data = (\<not> sat E ''_eq'' c data)"
  by (cases c) (simp_all add: sat.simps Let_def)

lemma sat_Doc: "sat E ''_eq'' c (Doc x) = sat_val E c (Doc x)"
  by (simp add: sat_eq targets_def)

lemma sat_compare:
  "ge E c d = Inr b \<Longrightarrow> b = sat E ''_ge'' c d" "gt E c d = Inr b \<Longrightarrow> b = sat E ''_gt'' c d"
  "le E c d = Inr b \<Longrightarrow> b = sat E ''_le'' c d" "lt E c d = Inr b \<Longrightarrow> b = sat E ''_lt'' c d"
  by (cases c; simp add: sat.simps Let_def ge_def gt_def le_def lt_def upcast_cond_def)+

lemma sat_like:
  "like c d = Inr b \<Longrightarrow> b = sat E ''_like'' c d" "nlike c d = Inr b \<Longrightarrow> b = sat E ''_nlike'' c d"
proof -
  have "sat E ''_like'' c d = truth (like c d)" "sat E ''_nlike'' c d = (\<not> truth (like c d))"
    by (cases c; simp add: sat.simps Let_def)+
  then show "like c d = Inr b \<Longrightarrow> b = sat E ''_like'' c d" "nlike c d = Inr b \<Longrightarrow> b = sat E ''_nlike'' c d"
    by (auto simp: nlike_def negate_def split: sum.splits)
qed

lemma sat_map_simps [simp]:
  "sat_map E [] d"
  "sat_map E ((k, c) # cn) d =
     ((case GetProp k d of Inl _ \<Rightarrow> False | Inr d' \<Rightarrow> sat E (GetOperatorOrDefault k ''_eq'') c d') \<and> sat_map E cn d)"
  by (auto simp: sat_map_def)

lemma negate_Inr: "negate r = Inr b \<longleftrightarrow> r = Inr (\<not> b)"
  by (auto simp: negate_def split: sum.splits)

lemma eq_sat:
  "eq E c d = Inr b \<Longrightarrow> b = sat E ''_eq'' c d"
  "eq_docs E c ds = Inr b \<Longrightarrow> b = (\<exists>x \<in> set ds. sat E ''_eq'' c (Doc x))"
  "eq_val E c d = Inr b \<Longrightarrow> b = sat_val E c d"
  "eq_map E cn d = Inr b \<Longrightarrow> b = sat_map E cn d"
  "matchWith E op c d = Inr b \<Longrightarrow> b = sat E op c d"
  "eq_all E cs d = Inr b \<Longrightarrow> b = (\<forall>c \<in> set cs. sat E ''_eq'' c d)"
  "eq_any E cs d = Inr b \<Longrightarrow> b = (\<exists>c \<in> set cs. sat E ''_eq'' c d)"
proof (induction E c d and E c ds and E c d and E cn d and E op c d and E cs d and E cs d arbitrary: b and b and b and b and b and b and b
    rule: eq_eq_docs_eq_val_eq_map_matchWith_eq_all_eq_any.induct)
  case (1 E condition data)
  show ?case
    by (cases data) (use 1 in \<open>auto simp: eq.simps sat_eq targets_def split: option.splits\<close>)
next
  case (2 E condition)
  then show ?case by simp
next
  case (3 E condition item arr)
  then show ?case by (auto split: sum.splits if_splits)
next
  case (4 E cn data)
  then show ?case by (simp add: sat_val_def)
next
  case (12 E k c cn data)
  then show ?case by (auto split: sum.splits if_splits)
next
  case (13 E op conditions data)
  show ?case
  proof (cases "op \<in> {''_and'', ''_or'', ''_in'', ''_nin''}")
    case True
    with "13.prems" obtain cn where cn: "conditions = CList cn"
      by (cases conditions) (auto simp: matchWith.simps negate_def)
    have all: "b' = (\<forall>c \<in> set cn. sat E ''_eq'' c data)" if "op = ''_and''" "eq_all E cn data = Inr b'" for b'
      using "13.IH"(1) [OF that(1) cn that(2)] .
    have some: "b' = (\<exists>c \<in> set cn. sat E ''_eq'' c data)"
      if P: "op = ''_or'' \<or> op = ''_in'' \<or> op = ''_nin''" "eq_any E cn data = Inr b'" for b'
      using P(1)
    proof (elim disjE)
      assume "op = ''_or''"
      then show ?thesis by (intro "13.IH"(6) [OF _ _ _ _ _ _ _ _ _ _ cn P(2)]) simp_all
    next
      assume "op = ''_in''"
      then show ?thesis by (intro "13.IH"(3) [OF _ _ _ _ _ cn P(2)]) simp_all
    next
      assume "op = ''_nin''"
      then show ?thesis by (intro "13.IH"(5) [OF _ _ _ _ _ _ _ _ _ cn P(2)]) simp_all
    qed
    from True consider "op = ''_and''" | "op = ''_or'' \<or> op = ''_in''" | "op = ''_nin''" by blast
    then show ?thesis
    proof cases
      case 1
      with "13.prems" cn all [OF 1] show ?thesis by (simp add: matchWith.simps sat.simps)
    next
      case 2
      with "13.prems" cn have "eq_any E cn data = Inr b" by (auto simp: matchWith.simps)
      from some [OF _ this] 2 cn show ?thesis by (auto simp: sat.simps)
    next
      case 3
      with "13.prems" cn have "eq_any E cn data = Inr (\<not> b)" by (simp add: matchWith.simps negate_Inr)
      from some [OF _ this] 3 cn show ?thesis by (auto simp: sat.simps)
    qed
  next
    case False
    have e: "b' = sat E ''_eq'' conditions data" if "op = ''_eq''" "eq E conditions data = Inr b'" for b'
      using "13.IH"(2) [OF _ that] that(1) by simp
    have n: "b' = sat E ''_eq'' conditions data" if "op = ''_ne''" "eq E conditions data = Inr b'" for b'
      using "13.IH"(4) [OF _ _ _ _ _ _ _ that] that(1) by simp
    from False "13.prems" consider "op = ''_eq''" | "op = ''_ne''" | "op = ''_ge''" | "op = ''_gt''"
      | "op = ''_le''" | "op = ''_lt''" | "op = ''_like''" | "op = ''_nlike''"
      unfolding matchWith.simps by (simp split: if_split_asm)
    then show ?thesis
    proof cases
      case 1
      from "13.prems" show ?thesis unfolding 1 by (intro e [OF 1]) (simp add: matchWith.simps)
    next
      case 2
      with "13.prems" have "eq E conditions data = Inr (\<not> b)" by (simp add: matchWith.simps negate_Inr)
      from n [OF 2 this] show ?thesis unfolding 2 sat_ne by blast
    qed (use "13.prems" in \<open>auto intro!: sat_compare sat_like simp: matchWith.simps\<close>)
  qed
next
  case (15 E c cn data)
  then show ?case by (auto split: sum.splits if_splits)
next
  case (17 E c cn data)
  then show ?case by (auto split: sum.splits if_splits)
qed (simp_all add: sat_val_def)

end
