(* ===== verification/FilterTypes.thy ===== *)
theory FilterTypes
  imports ConnorSpec
begin

text \<open>
  Which filters evaluate without an error: a type of the data and the operators and conditions that
  fit it, and that a typed filter gives the boolean of the reference semantics.
\<close>

section \<open>Filters that evaluate\<close>

text \<open>
  The types of data a filter is written for: anything, instants (or strings that parse as one), and
  objects with the types of their fields; an object is a document, a list of documents or missing.
\<close>

datatype ty = TAny | TTime | TObject "ty list"

primrec has_type :: "env \<Rightarrow> ty \<Rightarrow> any \<Rightarrow> bool" where
  "has_type E TAny d = True"
| "has_type E TTime d =
     (case d of Time _ \<Rightarrow> True | Str s \<Rightarrow> (case en_Parse E s of Inl _ \<Rightarrow> False | Inr _ \<Rightarrow> True) | _ \<Rightarrow> False)"
| "has_type E (TObject ts) d =
     (let fields = (\<lambda>x. list_all2 (\<lambda>f v. f v) (map (has_type E) ts) (Fields x))
      in case d of
           Nil_any \<Rightarrow> list_all (\<lambda>f. f Nil_any) (map (has_type E) ts)
         | Doc x \<Rightarrow> fields x
         | Docs xs \<Rightarrow> list_all fields xs
         | _ \<Rightarrow> False)"

definition numeric :: "any \<Rightarrow> bool" where
  "numeric v = (case TryUpcast v of Int64 _ \<Rightarrow> True | Float64 _ \<Rightarrow> True | _ \<Rightarrow> False)"

text \<open>\<open>typed ty op c\<close>: the operator and its condition fit data of the type.\<close>

inductive typed :: "ty \<Rightarrow> string \<Rightarrow> cond \<Rightarrow> bool" where
  typed_list: "typed ty op (CList cs)"
    if "op \<in> {''_and'', ''_or'', ''_in'', ''_nin''}" "\<And>c. c \<in> set cs \<Longrightarrow> typed ty ''_eq'' c"
| typed_eq: "typed ty op c" if "op \<in> {''_eq'', ''_ne''}" "\<And>cn. c \<noteq> CMap cn"
| typed_map: "typed ty op (CMap cn)"
    if "op \<in> {''_eq'', ''_ne''}"
      "\<And>op' c. (Operator op', c) \<in> set cn \<Longrightarrow> typed ty op' c"
      "\<And>i c. (PropertyIndex i, c) \<in> set cn \<Longrightarrow> ty = TObject ts \<and> i < length ts \<and> typed (ts ! i) ''_eq'' c"
| typed_compare: "typed ty op (CVal v)"
    if "op \<in> {''_ge'', ''_gt'', ''_le'', ''_lt''}" "v = Nil_any \<or> numeric v \<or> (\<exists>t. v = Time t) \<and> ty = TTime"
| typed_like: "typed ty op (CVal (Str s))" if "op \<in> {''_like'', ''_nlike''}"

lemma eq_docs_total: "(\<And>x. x \<in> set xs \<Longrightarrow> \<exists>b. eq E c (Doc x) = Inr b) \<Longrightarrow> \<exists>b. eq_docs E c xs = Inr b"
  by (induction xs) (force split: sum.splits)+

lemma eq_all_total: "(\<And>c. c \<in> set cs \<Longrightarrow> \<exists>b. eq E c d = Inr b) \<Longrightarrow> \<exists>b. eq_all E cs d = Inr b"
  by (induction cs) (force split: sum.splits)+

lemma eq_any_total: "(\<And>c. c \<in> set cs \<Longrightarrow> \<exists>b. eq E c d = Inr b) \<Longrightarrow> \<exists>b. eq_any E cs d = Inr b"
  by (induction cs) (force split: sum.splits)+

lemma eq_map_total:
  assumes "\<And>k c. (k, c) \<in> set cn \<Longrightarrow>
    \<exists>d' b. GetProp k d = Inr d' \<and> matchWith E (GetOperatorOrDefault k ''_eq'') c d' = Inr b"
  shows "\<exists>b. eq_map E cn d = Inr b"
  using assms
proof (induction cn)
  case (Cons kc cn)
  obtain k c where kc: "kc = (k, c)" by (cases kc)
  obtain d' b where "GetProp k d = Inr d'" "matchWith E (GetOperatorOrDefault k ''_eq'') c d' = Inr b"
    using Cons.prems [of k c] kc by auto
  moreover have "\<exists>b. eq_map E cn d = Inr b"
    using Cons.prems by (intro Cons.IH) simp
  ultimately show ?case by (auto simp: kc)
qed auto

lemma eq_val_total: "(\<And>cn. c \<noteq> CMap cn) \<Longrightarrow> \<exists>b. eq_val E c d = Inr b"
  by (cases "(E, c, d)" rule: eq_val.cases) auto

lemma eq_total:
  assumes val: "\<And>ds d'. targets d = Some ds \<Longrightarrow> d' \<in> set ds \<Longrightarrow> \<exists>b. eq_val E c d' = Inr b"
  shows "\<exists>b. eq E c d = Inr b"
proof (cases d)
  case (Docs xs)
  have "\<exists>b. eq E c (Doc x) = Inr b" if "x \<in> set xs" for x
    using val [of "map Doc xs" "Doc x"] that by (simp add: eq.simps [of E c "Doc x"] Docs targets_def)
  then show ?thesis using Docs eq_docs_total [of xs E c] by (simp add: eq.simps)
qed (use val in \<open>auto simp: eq.simps targets_def split: option.splits\<close>)


lemma has_type_target:
  "has_type E ty d \<Longrightarrow> targets d = Some ds \<Longrightarrow> d' \<in> set ds \<Longrightarrow> has_type E ty d'"
  by (cases ty; cases d) (auto simp: targets_def Let_def list_all_iff)

lemma targets_simple: "targets d = Some ds \<Longrightarrow> d' \<in> set ds \<Longrightarrow> d' \<noteq> Docs xs"
  by (cases d) (auto simp: targets_def)

lemma has_type_GetProp:
  assumes "has_type E (TObject ts) d" "i < length ts" "\<And>xs. d \<noteq> Docs xs"
  shows "\<exists>d'. GetProp (PropertyIndex i) d = Inr d' \<and> has_type E (ts ! i) d'"
  using assms by (cases d) (auto simp: GetProp_defs Let_def list_all2_conv_all_nth list_all_length)

lemma number_case_total:
  "\<exists>b. (case x of Float64 dn \<Rightarrow> Inr (f dn) | Int64 dn \<Rightarrow> Inr (g dn) | _ \<Rightarrow> Inr False) = (Inr b :: error + bool)"
  by (cases x) auto

lemma time_case_total:
  "has_type E TTime d \<Longrightarrow>
   \<exists>b. (case d of Time t \<Rightarrow> Inr (f t) | Str s \<Rightarrow> (case en_Parse E s of Inl err \<Rightarrow> Inl err | Inr t \<Rightarrow> Inr (f t))
        | _ \<Rightarrow> Inl ErrUnhandledType) = (Inr b :: error + bool)"
  by (cases d) (auto split: sum.splits)

lemma TryUpcast_simps [simp]:
  "TryUpcast Nil_any = Nil_any" "TryUpcast (Bool b) = Bool b" "TryUpcast (Str s) = Str s" "TryUpcast (Time t) = Time t"
  "TryUpcast (Int8 x8) = Int64 (scast x8)" "TryUpcast (Int16 x16) = Int64 (scast x16)"
  "TryUpcast (Int32 x32) = Int64 (scast x32)" "TryUpcast (GoInt w) = Int64 w" "TryUpcast (Int64 w) = Int64 w"
  "TryUpcast (Uint64 w) = Int64 w" "TryUpcast (Float32 x) = Float64 x" "TryUpcast (Float64 x) = Float64 x"
  "TryUpcast (OptBool ob) = OptBool ob" "TryUpcast (OptInt oi) = OptInt oi" "TryUpcast (OptFloat ofl) = OptFloat ofl"
  "TryUpcast (OptStr ost) = OptStr ost" "TryUpcast (Anys xs) = Anys xs" "TryUpcast (Slice n xs) = Slice n xs"
  "TryUpcast (ByteSlice bs) = ByteSlice bs" "TryUpcast (Doc x0) = Doc x0" "TryUpcast (Docs ds) = Docs ds"
  by (simp_all add: TryUpcast_def)

lemma TryUpcast_case:
  "TryUpcast v = Int64 i \<or> TryUpcast v = Float64 x \<Longrightarrow>
   (case v of Nil_any \<Rightarrow> a | Time c \<Rightarrow> f c | _ \<Rightarrow> z) = z"
  by (cases v) simp_all

lemma compare_float:
  assumes "TryUpcast v = Float64 cn"
  shows
    "ge E (CVal v) d = (case TryUpcast d of Float64 dn \<Rightarrow> Inr (f_le cn dn) | Int64 dn \<Rightarrow> Inr (f_lt cn (float_of_int (sint dn))) | _ \<Rightarrow> Inr False)"
    "gt E (CVal v) d = (case TryUpcast d of Float64 dn \<Rightarrow> Inr (f_lt cn dn) | Int64 dn \<Rightarrow> Inr (f_lt cn (float_of_int (sint dn))) | _ \<Rightarrow> Inr False)"
    "le E (CVal v) d = (case TryUpcast d of Float64 dn \<Rightarrow> Inr (f_le dn cn) | Int64 dn \<Rightarrow> Inr (f_le (float_of_int (sint dn)) cn) | _ \<Rightarrow> Inr False)"
    "lt E (CVal v) d = (case TryUpcast d of Float64 dn \<Rightarrow> Inr (f_lt dn cn) | Int64 dn \<Rightarrow> Inr (f_lt (float_of_int (sint dn)) cn) | _ \<Rightarrow> Inr False)"
  unfolding ge_def gt_def le_def lt_def upcast_cond_def cond.case assms option.case any.case
  by (rule TryUpcast_case [OF disjI2, OF assms])+

lemma compare_int:
  assumes "TryUpcast v = Int64 cn"
  shows
    "ge E (CVal v) d = (case TryUpcast d of Float64 dn \<Rightarrow> Inr (f_le (float_of_int (sint cn)) dn) | Int64 dn \<Rightarrow> Inr (sint cn \<le> sint dn) | _ \<Rightarrow> Inr False)"
    "gt E (CVal v) d = (case TryUpcast d of Float64 dn \<Rightarrow> Inr (f_lt (float_of_int (sint cn)) dn) | Int64 dn \<Rightarrow> Inr (sint cn < sint dn) | _ \<Rightarrow> Inr False)"
    "le E (CVal v) d = (case TryUpcast d of Float64 dn \<Rightarrow> Inr (f_le dn (float_of_int (sint cn))) | Int64 dn \<Rightarrow> Inr (sint dn \<le> sint cn) | _ \<Rightarrow> Inr False)"
    "lt E (CVal v) d = (case TryUpcast d of Float64 dn \<Rightarrow> Inr (f_lt dn (float_of_int (sint cn))) | Int64 dn \<Rightarrow> Inr (sint dn < sint cn) | _ \<Rightarrow> Inr False)"
  unfolding ge_def gt_def le_def lt_def upcast_cond_def cond.case assms option.case any.case
  by (rule TryUpcast_case [OF disjI1, OF assms])+

lemma compare_total:
  assumes "v = Nil_any \<or> numeric v \<or> (\<exists>t. v = Time t) \<and> has_type E TTime d"
  shows "\<exists>b. ge E (CVal v) d = Inr b" "\<exists>b. gt E (CVal v) d = Inr b"
    "\<exists>b. le E (CVal v) d = Inr b" "\<exists>b. lt E (CVal v) d = Inr b"
proof -
  consider "v = Nil_any" | i where "TryUpcast v = Int64 i" | x where "TryUpcast v = Float64 x"
    | t where "v = Time t" "has_type E TTime d"
    using assms by (auto simp: numeric_def split: any.splits)
  then have "(\<exists>b. ge E (CVal v) d = Inr b) \<and> (\<exists>b. gt E (CVal v) d = Inr b) \<and>
    (\<exists>b. le E (CVal v) d = Inr b) \<and> (\<exists>b. lt E (CVal v) d = Inr b)"
  proof cases
    case 1
    then show ?thesis by (auto simp: ge_def gt_def le_def lt_def)
  next
    case (2 i)
    show ?thesis unfolding compare_int [OF 2] by (intro conjI number_case_total)
  next
    case (3 x)
    show ?thesis unfolding compare_float [OF 3] by (intro conjI number_case_total)
  next
    case (4 t)
    show ?thesis unfolding 4(1) ge_def gt_def le_def lt_def cond.case any.case
      by (intro conjI time_case_total 4(2))
  qed
  then show "\<exists>b. ge E (CVal v) d = Inr b" "\<exists>b. gt E (CVal v) d = Inr b"
    "\<exists>b. le E (CVal v) d = Inr b" "\<exists>b. lt E (CVal v) d = Inr b"
    by blast+
qed

lemma like_total: "\<exists>b. like (CVal (Str s)) d = Inr b" "\<exists>b. nlike (CVal (Str s)) d = Inr b"
  by (cases d; auto simp: like_def nlike_def negate_def split: option.splits)+

lemma negate_total: "\<exists>b. r = Inr b \<Longrightarrow> \<exists>b. negate r = Inr b"
  by (auto simp: negate_def)

lemma typed_total: "typed ty op c \<Longrightarrow> has_type E ty d \<Longrightarrow> \<exists>b. matchWith E op c d = Inr b"
proof (induction ty op c arbitrary: d rule: typed.induct)
  case (typed_list op cs ty)
  have "\<exists>b. eq E c d = Inr b" if "c \<in> set cs" for c
    using typed_list(3) [OF that typed_list.prems] by (simp add: matchWith.simps)
  from eq_all_total [OF this] eq_any_total [OF this] typed_list(1) show ?case
    by (elim insertE emptyE) (simp_all add: matchWith.simps negate_total)
next
  case (typed_eq op c ty)
  have "\<exists>b. eq E c d = Inr b"
    by (rule eq_total, rule eq_val_total) (rule typed_eq(2))
  with typed_eq(1) show ?case by (elim insertE emptyE) (simp_all add: matchWith.simps negate_total)
next
  case (typed_map op cn ty ts)
  have val: "\<exists>b. eq_map E cn d' = Inr b" if "has_type E ty d'" "\<And>xs. d' \<noteq> Docs xs" for d'
  proof (rule eq_map_total)
    fix k c assume kc: "(k, c) \<in> set cn"
    show "\<exists>d'' b. GetProp k d' = Inr d'' \<and> matchWith E (GetOperatorOrDefault k ''_eq'') c d'' = Inr b"
    proof (cases k)
      case (PropertyIndex i)
      with typed_map(4) kc have i: "ty = TObject ts" "i < length ts" by blast+
      from has_type_GetProp [OF that(1) [unfolded i(1)] i(2) that(2)] show ?thesis
        using typed_map(4) kc by (auto simp: PropertyIndex GetOperatorOrDefault_defs)
    next
      case (Operator op')
      then show ?thesis using typed_map(3) kc that(1) by (simp add: GetProp_defs GetOperatorOrDefault_defs)
    qed
  qed
  have "\<exists>b. eq E (CMap cn) d = Inr b"
    by (rule eq_total)
      (simp only: eq_val.simps, rule val, erule (1) has_type_target [OF typed_map.prems], erule (1) targets_simple)
  with typed_map(1) show ?case by (elim insertE emptyE) (simp_all add: matchWith.simps negate_total)
next
  case (typed_compare op v ty)
  then have "v = Nil_any \<or> numeric v \<or> (\<exists>t. v = Time t) \<and> has_type E TTime d"
    using typed_compare.prems by (elim disjE conjE exE) simp_all
  from compare_total [OF this] typed_compare(1) show ?case
    by (elim insertE emptyE) (simp_all add: matchWith.simps)
next
  case (typed_like op ty s)
  then show ?case by (elim insertE emptyE) (simp_all add: matchWith.simps like_total)
qed

lemma Match_sat: "Match E cn d = Inr b \<Longrightarrow> b = sat E ''_eq'' (CMap cn) d"
  unfolding Match_def by (rule eq_sat)

lemma sat_entries: "set cn = set cn' \<Longrightarrow> sat E ''_eq'' (CMap cn) d = sat E ''_eq'' (CMap cn') d"
  by (simp add: sat_eq sat_val_def sat_map_def split: option.splits)

text \<open>
  C9. A filter that is typed for its data evaluates: \<^verbatim>\<open>Match\<close> gives no error and no panic, and its
  result is the value of the reference semantics.
\<close>

theorem typed_filter_evaluates:
  assumes "typed ty ''_eq'' (CMap conditions)" "has_type E ty data"
  shows "Match E conditions data = Inr (sat E ''_eq'' (CMap conditions) data)"
proof -
  from typed_total [OF assms] obtain b where "Match E conditions data = Inr b"
    by (auto simp: matchWith.simps Match_def)
  with Match_sat [OF this] show ?thesis by simp
qed

text \<open>
  C35. The order in which the entries of a filter are visited (Go leaves the order of a map open) has
  no influence on its result: two orders that both give a result give the same one.
\<close>

theorem match_order_irrelevant:
  assumes "set conditions = set conditions'" "Match E conditions data = Inr b" "Match E conditions' data = Inr b'"
  shows "b = b'"
  using Match_sat [OF assms(2)] Match_sat [OF assms(3)] sat_entries [OF assms(1)] by simp

text \<open>
  With an entry that is false and an entry that is an error the result does depend on the order:
  one order gives false, the other the error.
\<close>

theorem match_order_on_errors:
  "\<exists>E entry1 entry2 data. Match E [entry1, entry2] data = Inr False \<and>
     Match E [entry2, entry1] data = Inl ErrUnknownOperator"
  by (rule exI [of _ "\<lparr>en_Parse = (\<lambda>_. Inl GoPanic), en_f2i = (\<lambda>_. 0)\<rparr>"],
      rule exI [of _ "(PropertyIndex 0, CVal (Bool True))"], rule exI [of _ "(Operator ''_all'', CVal Nil_any)"],
      rule exI [of _ "Doc (MkDoc False [Bool False] 0)"])
    (simp add: Match_def eq.simps matchWith.simps GetProp_defs GetOperatorOrDefault_defs)

text \<open>A filter on a user's name, age and books, for a user with two books.\<close>

definition w_env :: env where
  "w_env = \<lparr>en_Parse = (\<lambda>s. if s = ''now'' then Inr 7 else Inl GoPanic), en_f2i = (\<lambda>_. 0)\<rparr>"

definition w_book :: "string \<Rightarrow> any \<Rightarrow> doc" where
  "w_book title time = MkDoc False [Str title, time] 0"

definition w_user :: any where
  "w_user = Doc (MkDoc False [Str ''Bob'', Int64 40, Docs [w_book ''A'' (Time 9), w_book ''B'' (Str ''now'')]] 0)"

definition w_filter :: "(FilterKey \<times> cond) list" where
  "w_filter =
     [(Operator ''_or'', CList
        [CMap [(PropertyIndex 0, CMap [(Operator ''_like'', CVal (Str ''Jo%''))])],
         CMap [(PropertyIndex 1, CMap [(Operator ''_gt'', CVal (Int64 21))])]]),
      (PropertyIndex 2, CMap [(PropertyIndex 1, CMap [(Operator ''_le'', CVal (Time 7))])])]"

definition w_type :: ty where
  "w_type = TObject [TAny, TAny, TObject [TAny, TTime]]"

lemma typed_object:
  assumes "op \<in> {''_eq'', ''_ne''}" "\<And>op' c. (Operator op', c) \<in> set cn \<Longrightarrow> typed (TObject ts) op' c"
    "\<And>i c. (PropertyIndex i, c) \<in> set cn \<Longrightarrow> i < length ts \<and> typed (ts ! i) ''_eq'' c"
  shows "typed (TObject ts) op (CMap cn)"
  using assms by (intro typed_map [of _ _ _ ts]) auto

lemma typed_operator: "op \<in> {''_eq'', ''_ne''} \<Longrightarrow> typed ty op' c \<Longrightarrow> typed ty op (CMap [(Operator op', c)])"
  by (rule typed_map) auto

lemma w_filter_typed: "typed w_type ''_eq'' (CMap w_filter)"
  unfolding w_filter_def w_type_def
  by (auto simp: numeric_def intro!: typed_operator typed_object typed_list typed_compare typed_like)

lemma w_user_typed: "has_type w_env w_type w_user"
  by (simp add: w_user_def w_type_def w_book_def w_env_def)

theorem typed_filter_evaluates_witness: "Match w_env w_filter w_user = Inr (sat w_env ''_eq'' (CMap w_filter) w_user)"
  by (rule typed_filter_evaluates [OF w_filter_typed w_user_typed])

lemmas run_filter = Match_def eq.simps matchWith.simps GetProp_defs GetOperatorOrDefault_defs negate_def

lemma w_filter_orders:
  "Match w_env w_filter w_user = Inr True" "Match w_env (rev w_filter) w_user = Inr True"
  by (simp_all add: run_filter w_filter_def w_user_def w_book_def w_env_def like_def like_string_def compare_int
      HasPrefix_def le_def)

theorem match_order_irrelevant_witness:
  "Match w_env w_filter w_user = Inr True \<and> Match w_env (rev w_filter) w_user = Inr True \<and> True = True"
  by (intro conjI w_filter_orders match_order_irrelevant [OF set_rev [symmetric] w_filter_orders])

end
