(* ===== verification/FilterLeaves.thy ===== *)
theory FilterLeaves
  imports FilterTypes
begin

text \<open>
  The comparisons of a filter against the order of the numbers, and \<^verbatim>\<open>_like\<close> against the usual
  matching of wildcards.
\<close>

section \<open>Numbers\<close>

lemma sint_back: "word_of_int (sint w) = w"
  by simp

declare of_int_sint [simp del]

lemma bit_len_le: "bit_len n \<le> k \<longleftrightarrow> n < 2 ^ k"
proof (induction n arbitrary: k rule: bit_len.induct)
  case (1 n)
  show ?case
  proof (cases "n = 0")
    case True
    then show ?thesis by (subst bit_len.simps) simp
  next
    case False
    then have b: "bit_len n = Suc (bit_len (n div 2))" by (subst bit_len.simps) simp
    show ?thesis
    proof (cases k)
      case (Suc k')
      then show ?thesis using 1 [OF False, of k'] by (simp add: b less_mult_imp_div_less div_less_iff_less_mult mult.commute)
    qed (use False in \<open>simp add: b\<close>)
  qed
qed

lemma float_of_small: "\<bar>i\<bar> < 2 ^ 53 \<Longrightarrow> float_of_int i = Fin (of_int i)"
  by (auto simp: float_of_int_def round53_def bit_len_le nat_less_iff)

lemma trunc_of_int [simp]: "trunc (of_int i) = i"
  by (simp add: trunc_def flip: of_int_minus)

lemma int64_of_small: "\<bar>sint w\<bar> < 2 ^ 53 \<Longrightarrow> int64_of_float other (Fin (of_int (sint (w :: 64 word)))) = w"
  by (auto simp: int64_of_float_def sint_back abs_if split: if_splits)

text \<open>
  The number a value stands for: the signed or unsigned integer at its width, or the finite
  floating-point number. Integers of 54 bits and more are left out, because their conversion to a
  floating-point number rounds.
\<close>

definition num_val :: "any \<Rightarrow> rat option" where
  "num_val v =
     (let small = (\<lambda>i :: int. if \<bar>i\<bar> < 2 ^ 53 then Some (of_int i) else None) in
      case v of
        Int8 w \<Rightarrow> small (sint w)
      | Int16 w \<Rightarrow> small (sint w)
      | Int32 w \<Rightarrow> small (sint w)
      | GoInt w \<Rightarrow> small (sint w)
      | Int64 w \<Rightarrow> small (sint w)
      | Uint64 w \<Rightarrow> small (uint w)
      | Float32 (Fin r) \<Rightarrow> Some r
      | Float64 (Fin r) \<Rightarrow> Some r
      | _ \<Rightarrow> None)"

definition is_float :: "any \<Rightarrow> bool" where
  "is_float v = (case v of Float32 _ \<Rightarrow> True | Float64 _ \<Rightarrow> True | _ \<Rightarrow> False)"

lemma sint_small: "uint (w :: 64 word) < 2 ^ 53 \<Longrightarrow> sint w = uint w"
proof -
  assume w: "uint w < 2 ^ 53"
  then have "(uint w + 2 ^ 63) mod 2 ^ 64 = uint w + 2 ^ 63" by (intro mod_pos_pos_trivial) simp_all
  then show ?thesis by (simp add: sint_uint signed_take_bit_eq_take_bit_shift take_bit_eq_mod)
qed

lemma sint_widened:
  "sint (scast (a :: 8 word) :: 64 word) = sint a" "sint (scast (b :: 16 word) :: 64 word) = sint b"
  "sint (scast (c :: 32 word) :: 64 word) = sint c"
  by (rule sint_up_scast, simp add: is_up)+

lemma num_valE:
  assumes "num_val v = Some x"
  obtains w where "TryUpcast v = Int64 w" "\<bar>sint w\<bar> < 2 ^ 53" "x = of_int (sint w)" "\<not> is_float v"
  | "TryUpcast v = Float64 (Fin x)" "is_float v"
proof (cases v)
  case (Float32 r)
  with assms that(2) show ?thesis by (cases r) (simp_all add: num_val_def is_float_def)
next
  case (Float64 r)
  with assms that(2) show ?thesis by (cases r) (simp_all add: num_val_def is_float_def)
next
  case (Uint64 w)
  with assms that(1) [of w] sint_small [of w] show ?thesis
    by (simp add: num_val_def is_float_def Let_def split: if_splits)
qed (use assms that(1) in \<open>simp_all add: num_val_def is_float_def Let_def sint_widened split: if_splits\<close>)

lemma f_simps [simp]: "f_eq (Fin x) (Fin y) = (x = y)" "f_le (Fin x) (Fin y) = (x \<le> y)"
  by (auto simp: f_eq_def f_le_def)

text \<open>
  C25. On integers of magnitude below \<open>2 ^ 53\<close> and finite floating-point numbers, in any mixture of widths,
  the comparisons of a filter are those of the numbers themselves. The one exception is
  \<^verbatim>\<open>_ge\<close> with a floating-point condition on integer data, which is strict.
\<close>

theorem comparisons_exact:
  assumes c: "num_val c = Some x" and d: "num_val data = Some y"
  shows "gt E (CVal c) data = Inr (x < y) \<and> le E (CVal c) data = Inr (y \<le> x) \<and> lt E (CVal c) data = Inr (y < x) \<and>
    ge E (CVal c) data = Inr (if is_float c \<and> \<not> is_float data then x < y else x \<le> y) \<and>
    numbers_Equal (en_f2i E) c data = (x = y)"
  using c
proof (cases rule: num_valE)
  case (1 w)
  from d show ?thesis
    by (cases rule: num_valE) (use 1 in \<open>auto simp: compare_int [OF 1(1)] float_of_small numbers_Equal_def
          Let_def int64_of_small signed_word_eqI\<close>)
next
  case 2
  from d show ?thesis
    by (cases rule: num_valE) (use 2 in \<open>auto simp: compare_float [OF 2(1)] float_of_small numbers_Equal_def
          Let_def int64_of_small\<close>)
qed

theorem comparisons_exact_witness:
  "gt w_env (CVal (Float64 (Fin (5 / 2)))) (Int8 3) = Inr True \<and>
   le w_env (CVal (Float64 (Fin (5 / 2)))) (Int8 3) = Inr False \<and>
   lt w_env (CVal (Float64 (Fin (5 / 2)))) (Int8 3) = Inr False \<and>
   ge w_env (CVal (Float64 (Fin (5 / 2)))) (Int8 3) = Inr True \<and>
   numbers_Equal (en_f2i w_env) (Float64 (Fin (5 / 2))) (Int8 3) = False"
  using comparisons_exact [of "Float64 (Fin (5 / 2))" "5 / 2" "Int8 3" 3 w_env]
  by (simp add: num_val_def is_float_def Let_def)

text \<open>
  An unsigned integer of 64 bits whose first bit is set is taken for a negative number: the check
  in \<^verbatim>\<open>TryUpcast\<close> that the conversion keeps the value never fails, and the integer compares below
  every integer that is not negative.
\<close>

theorem large_uint64_negative:
  assumes "2 ^ 63 \<le> uint w"
  shows "TryUpcast (Uint64 w) = Int64 w \<and> sint w = uint w - 2 ^ 64 \<and>
    (\<forall>E c. 0 \<le> sint c \<longrightarrow> lt E (CVal (Int64 c)) (Uint64 w) = Inr True)"
proof -
  have "(uint w + 2 ^ 63) mod 2 ^ 64 = (uint w + 2 ^ 63 - 2 ^ 64) mod 2 ^ 64" by (rule minus_mod_self2 [symmetric])
  also have "\<dots> = uint w - 2 ^ 63" using assms uint_bounded [of w] by (subst mod_pos_pos_trivial) simp_all
  finally have s: "sint w = uint w - 2 ^ 64"
    using assms uint_bounded [of w] by (simp add: sint_uint signed_take_bit_eq_take_bit_shift take_bit_eq_mod)
  then have "sint w < 0" using uint_bounded [of w] by simp
  then show ?thesis using s by (simp add: compare_int)
qed

theorem large_uint64_negative_witness:
  "TryUpcast (Uint64 18446744073709551615) = Int64 18446744073709551615 \<and>
   lt w_env (CVal (Int64 0)) (Uint64 18446744073709551615) = Inr True"
proof -
  have "2 ^ 63 \<le> uint (18446744073709551615 :: 64 word)" by simp
  from large_uint64_negative [OF this] show ?thesis by auto
qed

section \<open>Wildcards\<close>

text \<open>The usual meaning of a pattern: \<^verbatim>\<open>%\<close> stands for any string, every other character for itself.\<close>

fun wildcard :: "string \<Rightarrow> string \<Rightarrow> bool" where
  "wildcard [] d = (d = [])"
| "wildcard (c # p) d =
     (if c = CHR ''%'' then (\<exists>i \<le> length d. wildcard p (drop i d))
      else (case d of [] \<Rightarrow> False | x # d' \<Rightarrow> x = c \<and> wildcard p d'))"

lemma wildcard_literal:
  "CHR ''%'' \<notin> set x \<Longrightarrow> wildcard (x @ p) d \<longleftrightarrow> (\<exists>d'. d = x @ d' \<and> wildcard p d')"
  by (induction x arbitrary: d) (auto split: list.splits)

lemma wildcard_any: "wildcard (CHR ''%'' # p) d \<longleftrightarrow> (\<exists>u v. d = u @ v \<and> wildcard p v)"
proof
  assume "wildcard (CHR ''%'' # p) d"
  then obtain i where "wildcard p (drop i d)" by auto
  then show "\<exists>u v. d = u @ v \<and> wildcard p v" by (metis append_take_drop_id)
next
  assume "\<exists>u v. d = u @ v \<and> wildcard p v"
  then obtain u v where "d = u @ v" "wildcard p v" by blast
  then show "wildcard (CHR ''%'' # p) d" by (auto intro!: exI [of _ "length u"])
qed

declare wildcard.simps(2) [simp del]

lemma wildcard_self: "CHR ''%'' \<notin> set x \<Longrightarrow> wildcard x d \<longleftrightarrow> d = x"
  using wildcard_literal [of x "[]" d] by simp

lemma Contains_iff: "Contains s p \<longleftrightarrow> (\<exists>u v. s = u @ p @ v)"
proof (induction s)
  case (Cons x s)
  have "(\<exists>u v. x # s = u @ p @ v) \<longleftrightarrow> (\<exists>v. x # s = p @ v) \<or> (\<exists>u v. s = u @ p @ v)"
    by (metis append_Cons append_Nil list.sel(3) neq_Nil_conv)
  then show ?case using Cons by (simp add: HasPrefix_iff)
qed auto

lemma overlap:
  "(\<exists>d'. d = x @ d' \<and> (\<exists>u. d' = u @ y)) \<longleftrightarrow>
   HasPrefix d x \<and> HasSuffix d y \<and> length x + length y \<le> length d"
proof
  assume r: "HasPrefix d x \<and> HasSuffix d y \<and> length x + length y \<le> length d"
  then obtain v where d1: "d = x @ v" by (auto simp: HasPrefix_iff)
  from r obtain u where d2: "d = u @ y" by (auto simp: HasSuffix_iff)
  with r have l: "length x \<le> length u" by simp
  have "take (length x) u = take (length x) d" using l d2 by simp
  then have "u = x @ drop (length x) u" using d1 append_take_drop_id [of "length x" u] by simp
  with d2 show "\<exists>d'. d = x @ d' \<and> (\<exists>u. d' = u @ y)" by (metis append.assoc)
qed (auto simp: HasPrefix_iff HasSuffix_iff)

lemma like_string_edges:
  "p \<noteq> [] \<Longrightarrow> last p \<noteq> CHR ''%'' \<Longrightarrow> like_string (''%'' @ p) d = HasSuffix d p"
  "p \<noteq> [] \<Longrightarrow> hd p \<noteq> CHR ''%'' \<Longrightarrow> like_string (p @ ''%'') d = HasPrefix d p"
  "like_string (''%'' @ p @ ''%'') d = Contains d p"
proof -
  have tr: "TrimSuffix (z @ ''%'') ''%'' = z" for z by (simp add: TrimSuffix_def HasSuffix_def)
  have tp: "TrimPrefix (CHR ''%'' # z) ''%'' = z" for z by (simp add: TrimPrefix_def HasPrefix_def)
  show "p \<noteq> [] \<Longrightarrow> last p \<noteq> CHR ''%'' \<Longrightarrow> like_string (''%'' @ p) d = HasSuffix d p"
    by (cases p) (simp_all add: like_string_def Let_def tp)
  show "p \<noteq> [] \<Longrightarrow> hd p \<noteq> CHR ''%'' \<Longrightarrow> like_string (p @ ''%'') d = HasPrefix d p"
    using tr [of p] by (cases p) (simp_all add: like_string_def Let_def)
  show "like_string (''%'' @ p @ ''%'') d = Contains d p"
    by (simp add: like_string_def Let_def tp tr)
qed

lemma like_string_inside:
  assumes x: "CHR ''%'' \<notin> set x" "x \<noteq> []" and z: "z \<noteq> []" "last z \<noteq> CHR ''%''"
  shows "like_string (x @ ''%'' @ z) d =
    (if CHR ''%'' \<in> set z then d = x @ ''%'' @ z else HasPrefix d x \<and> HasSuffix d z)"
proof -
  have h: "hd x \<noteq> CHR ''%''" "hd (x @ ''%'' @ z) = hd x" "last (x @ ''%'' @ z) = last z" "length (x @ ''%'' @ z) \<ge> 2"
    using x z by (auto dest: hd_in_set simp: Suc_le_eq)
  have two: "length (split_on c z) = 1 \<longleftrightarrow> c \<notin> set z" for c
    by (induction z) (auto split: list.splits)
  show ?thesis
    using h x z two [of "CHR ''%''"] by (auto simp: like_string_def Let_def)
qed

text \<open>
  C36. What \<^verbatim>\<open>_like\<close> matches, on a string and on an optional string that is there. For patterns with a
  \<^verbatim>\<open>%\<close> at the start, at the end, at both or nowhere, it is the usual matching of wildcards. With one
  \<^verbatim>\<open>%\<close> inside, the part before and the part after it may overlap in the data: the usual matching is
  the one of \<^verbatim>\<open>_like\<close> on data at least as long as both. A second \<^verbatim>\<open>%\<close> is not a wildcard: with two or
  more inside, and for the pattern \<^verbatim>\<open>%\<close> alone, only the pattern itself is matched.
\<close>

theorem like_wildcards:
  assumes x: "CHR ''%'' \<notin> set x" "x \<noteq> []" and y: "CHR ''%'' \<notin> set y" "y \<noteq> []"
    and z: "CHR ''%'' \<in> set z" "last z \<noteq> CHR ''%''" and data: "data \<in> {Str d, OptStr (Some d)}"
  shows "like (CVal (Str x)) data = Inr (wildcard x d) \<and>
    like (CVal (Str (x @ ''%''))) data = Inr (wildcard (x @ ''%'') d) \<and>
    like (CVal (Str (''%'' @ x))) data = Inr (wildcard (''%'' @ x) d) \<and>
    like (CVal (Str (''%'' @ x @ ''%''))) data = Inr (wildcard (''%'' @ x @ ''%'') d) \<and>
    (\<exists>b. like (CVal (Str (x @ ''%'' @ y))) data = Inr b \<and>
      wildcard (x @ ''%'' @ y) d = (b \<and> length x + length y \<le> length d)) \<and>
    like (CVal (Str (x @ ''%'' @ z))) data = Inr (d = x @ ''%'' @ z) \<and>
    like (CVal (Str ''%'')) data = Inr (d = ''%'')"
proof -
  have l: "like (CVal (Str p)) data = Inr (like_string p d)" for p
    using data by (auto simp: like_def Let_def)
  have h: "hd x \<noteq> CHR ''%''" "last x \<noteq> CHR ''%''" "last y \<noteq> CHR ''%''" "z \<noteq> []"
    using x y z by (auto dest: hd_in_set last_in_set)
  have 1: "like_string x d = wildcard x d" using x h by (auto simp: like_string_def Let_def wildcard_self)
  have 2: "like_string (x @ ''%'') d = wildcard (x @ ''%'') d"
    unfolding like_string_edges(2) [OF x(2) h(1)] using x by (simp add: wildcard_literal wildcard_any HasPrefix_iff)
  have 3: "like_string (''%'' @ x) d = wildcard (''%'' @ x) d"
    unfolding like_string_edges(1) [OF x(2) h(2)] using x by (simp add: wildcard_any HasSuffix_iff wildcard_self)
  have 4: "like_string (''%'' @ x @ ''%'') d = wildcard (''%'' @ x @ ''%'') d"
    unfolding like_string_edges(3) using x by (simp add: wildcard_any wildcard_literal Contains_iff) blast
  have 5: "wildcard (x @ ''%'' @ y) d = (like_string (x @ ''%'' @ y) d \<and> length x + length y \<le> length d)"
    unfolding like_string_inside [OF x y(2) h(3)] using x y by (simp add: wildcard_literal wildcard_any wildcard_self overlap)
  have 6: "like_string (x @ ''%'' @ z) d = (d = x @ ''%'' @ z)"
    unfolding like_string_inside [OF x h(4) z(2)] using z by simp
  have 7: "like_string ''%'' d = (d = ''%'')" by (auto simp: like_string_def)
  from 1 2 3 4 5 6 7 show ?thesis unfolding l by blast
qed

theorem like_wildcards_witness:
  "like (CVal (Str ''ab%'')) (Str ''abc'') = Inr (wildcard ''ab%'' ''abc'') \<and>
   like (CVal (Str ''%ab'')) (Str ''abc'') = Inr (wildcard ''%ab'' ''abc'') \<and>
   \<not> wildcard ''ab%bc'' ''abc'' \<and> like (CVal (Str ''ab%b%c'')) (Str ''abc'') = Inr False \<and>
   like (CVal (Str ''%'')) (Str ''abc'') = Inr False"
  using like_wildcards [of "''ab''" "''bc''" "''b%c''" "Str ''abc''" "''abc''"] by simp

end
