(* ===== verification/DocMapping.thy ===== *)
theory DocMapping
  imports Connor "HOL-Library.AList"
begin

text \<open>
  Documents inside a plan and their mappings (\<^verbatim>\<open>core/doc.go\<close>): which field has which index, and what is
  rendered for the consumer. A Go map is an association list in the order of iteration; a nil
  pointer to a mapping is \<open>None\<close>, and a panic is the error \<open>GoPanic\<close>.
\<close>

section \<open>Documents\<close>

definition DocKeyFieldIndex :: nat where
  "DocKeyFieldIndex = 0"

definition GetKey :: "doc \<Rightarrow> error + string" where
  "GetKey d =
     (if DocKeyFieldIndex < length (Fields d)
      then Inr (case Fields d ! DocKeyFieldIndex of Str k \<Rightarrow> k | _ \<Rightarrow> [])
      else Inl GoPanic)"

text \<open>An assignment to a field of a slice.\<close>

definition set_field :: "doc \<Rightarrow> nat \<Rightarrow> any \<Rightarrow> error + doc" where
  "set_field d i v =
     (if i < length (Fields d) then Inr (MkDoc (Hidden d) ((Fields d)[i := v]) (Status d)) else Inl GoPanic)"

definition SetKey :: "doc \<Rightarrow> string \<Rightarrow> error + doc" where
  "SetKey d key = set_field d DocKeyFieldIndex (Str key)"

text \<open>\<open>Clone\<close> fills in the fields only: the flag and the status are those of a new document.\<close>

primrec Clone :: "doc \<Rightarrow> doc" and clone_field :: "any \<Rightarrow> any" where
  "Clone (MkDoc h fs st) = MkDoc False (map clone_field fs) 0"
| "clone_field (Doc d) = Doc (Clone d)"
| "clone_field (Docs ds) = Docs (map Clone ds)"
| "clone_field Nil_any = Nil_any"
| "clone_field (Bool b) = Bool b"
| "clone_field (Int8 i) = Int8 i"
| "clone_field (Int16 i) = Int16 i"
| "clone_field (Int32 i) = Int32 i"
| "clone_field (GoInt i) = GoInt i"
| "clone_field (Int64 i) = Int64 i"
| "clone_field (Uint64 i) = Uint64 i"
| "clone_field (Float32 x) = Float32 x"
| "clone_field (Float64 x) = Float64 x"
| "clone_field (Str t) = Str t"
| "clone_field (Time t) = Time t"
| "clone_field (OptBool v) = OptBool v"
| "clone_field (OptInt v) = OptInt v"
| "clone_field (OptFloat v) = OptFloat v"
| "clone_field (OptStr v) = OptStr v"
| "clone_field (Anys xs) = Anys xs"
| "clone_field (Slice t xs) = Slice t xs"
| "clone_field (ByteSlice b) = ByteSlice b"

section \<open>Mappings\<close>

record RenderKey =
  rk_Index :: nat
  rk_Key :: string

record mappingTypeInfo =
  ti_Index :: nat
  ti_Name :: string

datatype DocumentMapping = MkMapping
  (typeInfo: "mappingTypeInfo option")
  (RenderKeys: "RenderKey list")
  (IndexesByName: "(string \<times> nat list) list")
  (nextIndex: nat)
  (ChildMappings: "DocumentMapping option list")

definition NewDocumentMapping :: DocumentMapping where
  "NewDocumentMapping = MkMapping None [] [] 0 []"

primrec CloneWithoutRender :: "DocumentMapping \<Rightarrow> DocumentMapping" where
  "CloneWithoutRender (MkMapping ti rks names next children) =
     MkMapping ti [] names next (map (map_option CloneWithoutRender) children)"

definition GetNextIndex :: "DocumentMapping \<Rightarrow> nat" where
  "GetNextIndex mapping = nextIndex mapping"

definition NewDoc :: "DocumentMapping \<Rightarrow> doc" where
  "NewDoc mapping = MkDoc False (replicate (nextIndex mapping) Nil_any) 0"

definition FirstIndexOfName :: "DocumentMapping \<Rightarrow> string \<Rightarrow> error + nat" where
  "FirstIndexOfName mapping name =
     (case map_of (IndexesByName mapping) name of Some (i # _) \<Rightarrow> Inr i | _ \<Rightarrow> Inl GoPanic)"

definition SetFirstOfName :: "DocumentMapping \<Rightarrow> doc \<Rightarrow> string \<Rightarrow> any \<Rightarrow> error + doc" where
  "SetFirstOfName mapping d name value =
     (case map_of (IndexesByName mapping) name of Some (i # _) \<Rightarrow> set_field d i value | _ \<Rightarrow> Inl GoPanic)"

definition FirstOfName :: "DocumentMapping \<Rightarrow> doc \<Rightarrow> string \<Rightarrow> error + any" where
  "FirstOfName mapping d name =
     (case FirstIndexOfName mapping name of
        Inl e \<Rightarrow> Inl e
      | Inr i \<Rightarrow> if i < length (Fields d) then Inr (Fields d ! i) else Inl GoPanic)"

definition Add :: "DocumentMapping \<Rightarrow> nat \<Rightarrow> string \<Rightarrow> DocumentMapping" where
  "Add mapping index name =
     (let inner = (case map_of (IndexesByName mapping) name of None \<Rightarrow> [] | Some is \<Rightarrow> is) @ [index]
      in MkMapping (typeInfo mapping) (RenderKeys mapping) (AList.update name inner (IndexesByName mapping))
           (if index \<ge> nextIndex mapping then index + 1 else nextIndex mapping) (ChildMappings mapping))"

definition TypeNameFieldName :: string where
  "TypeNameFieldName = ''__typename''"

definition SetTypeName :: "DocumentMapping \<Rightarrow> string \<Rightarrow> DocumentMapping" where
  "SetTypeName mapping typeName =
     (let index = GetNextIndex mapping; m = Add mapping index TypeNameFieldName
      in MkMapping (Some \<lparr>ti_Index = index, ti_Name = typeName\<rparr>) (RenderKeys m) (IndexesByName m)
           (nextIndex m) (ChildMappings m))"

definition SetChildAt :: "DocumentMapping \<Rightarrow> nat \<Rightarrow> DocumentMapping option \<Rightarrow> DocumentMapping" where
  "SetChildAt m index childMapping =
     (let len = length (ChildMappings m);
          newMappings = (if int index \<ge> int len - 1
                         then take (index + 1) (ChildMappings m) @ replicate (index + 1 - len) None
                         else ChildMappings m)
      in MkMapping (typeInfo m) (RenderKeys m) (IndexesByName m) (nextIndex m) (newMappings[index := childMapping]))"

text \<open>The search for a name: first among the names of the mapping, then in its children.\<close>

fun find_index :: "(string \<times> nat list) list \<Rightarrow> nat \<Rightarrow> string option" where
  "find_index [] i = None"
| "find_index ((name, is) # names) i = (if i \<in> set is then Some name else find_index names i)"

function TryToFindNameFromIndex :: "DocumentMapping \<Rightarrow> nat \<Rightarrow> string option"
  and find_in_children :: "DocumentMapping option list \<Rightarrow> nat \<Rightarrow> string option" where
  "TryToFindNameFromIndex (MkMapping ti rks names next children) targetIndex =
     (case find_index names targetIndex of Some name \<Rightarrow> Some name | None \<Rightarrow> find_in_children children targetIndex)"
| "find_in_children [] targetIndex = None"
| "find_in_children (None # children) targetIndex = find_in_children children targetIndex"
| "find_in_children (Some child # children) targetIndex =
     (case TryToFindNameFromIndex child targetIndex of
        Some name \<Rightarrow> Some name | None \<Rightarrow> find_in_children children targetIndex)"
  by pat_completeness auto
termination
  by (relation "measure (\<lambda>x. case x of
      Inl (m, _) \<Rightarrow> size m | Inr (ms, _) \<Rightarrow> size_list (size_option size) ms)") auto

section \<open>Rendering\<close>

datatype rendered = RVal any | RMap "(string \<times> rendered) list" | RMaps "(string \<times> rendered) list list"

definition child_at :: "DocumentMapping \<Rightarrow> nat \<Rightarrow> error + DocumentMapping option" where
  "child_at m i = (if i < length (ChildMappings m) then Inr (ChildMappings m ! i) else Inl GoPanic)"

lemma size_field: "i < length (Fields d) \<Longrightarrow> size (Fields d ! i) < size d"
  by (cases d) (auto simp: less_Suc_eq_le intro: size_list_estimation' [OF nth_mem])

text \<open>
  The keys are rendered from the first to the last: \<open>render_keys\<close> takes them in reverse order and
  renders those before the head of its list first. Hidden documents of a list are left out.
\<close>

function ToMap :: "DocumentMapping option \<Rightarrow> doc \<Rightarrow> error + (string \<times> rendered) list"
  and render_keys :: "DocumentMapping \<Rightarrow> RenderKey list \<Rightarrow> doc \<Rightarrow> error + (string \<times> rendered) list"
  and render :: "DocumentMapping \<Rightarrow> nat \<Rightarrow> any \<Rightarrow> error + rendered"
  and render_docs :: "DocumentMapping option \<Rightarrow> doc list \<Rightarrow> error + (string \<times> rendered) list list" where
  "ToMap mapping doc =
     (case mapping of None \<Rightarrow> Inl GoPanic | Some m \<Rightarrow> render_keys m (rev (RenderKeys m)) doc)"
| "render_keys m [] doc = Inr []"
| "render_keys m (rk # rks) doc =
     (case render_keys m rks doc of
        Inl e \<Rightarrow> Inl e
      | Inr mappedDoc \<Rightarrow>
          if rk_Index rk < length (Fields doc)
          then (case render m (rk_Index rk) (Fields doc ! rk_Index rk) of
                  Inl e \<Rightarrow> Inl e
                | Inr v \<Rightarrow> Inr (AList.update (rk_Key rk) v mappedDoc))
          else Inl GoPanic)"
| "render m index value =
     (case value of
        Docs innerV \<Rightarrow>
          (case child_at m index of
             Inl e \<Rightarrow> Inl e
           | Inr innerMapping \<Rightarrow> map_sum id RMaps (render_docs innerMapping innerV))
      | Doc innerV \<Rightarrow>
          (case child_at m index of
             Inl e \<Rightarrow> Inl e
           | Inr innerMapping \<Rightarrow> map_sum id RMap (ToMap innerMapping innerV))
      | _ \<Rightarrow>
          (case typeInfo m of
             Some ti \<Rightarrow> if index = ti_Index ti then Inr (RVal (Str (ti_Name ti))) else Inr (RVal value)
           | None \<Rightarrow> Inr (RVal value)))"
| "render_docs innerMapping [] = Inr []"
| "render_docs innerMapping (innerDoc # docs) =
     (if Hidden innerDoc then render_docs innerMapping docs
      else (case ToMap innerMapping innerDoc of
              Inl e \<Rightarrow> Inl e
            | Inr r \<Rightarrow> map_sum id (\<lambda>rs. r # rs) (render_docs innerMapping docs)))"
  by pat_completeness auto
termination
  by (relation "measures [\<lambda>x. case x of
      Inl (Inl (m, d)) \<Rightarrow> size d
    | Inl (Inr (m, rks, d)) \<Rightarrow> size d
    | Inr (Inl (m, i, v)) \<Rightarrow> size v
    | Inr (Inr (m, ds)) \<Rightarrow> size_list size ds,
    \<lambda>x. case x of
      Inl (Inl (m, d)) \<Rightarrow> (case m of None \<Rightarrow> 0 | Some m \<Rightarrow> length (RenderKeys m)) + 1
    | Inl (Inr (m, rks, d)) \<Rightarrow> length rks
    | _ \<Rightarrow> 0]")
    (auto simp: size_field)

declare ToMap.simps [simp del] render.simps [simp del]

section \<open>Filters for people\<close>

text \<open>\<^verbatim>\<open>Filter.ToMap\<close>: a filter with the names of the properties instead of their indexes.\<close>

datatype filter_out = FVal cond | FMap "(string \<times> filter_out) list" | FList "filter_out list"

definition tryGetChildMapping :: "DocumentMapping \<Rightarrow> nat \<Rightarrow> DocumentMapping option \<times> bool" where
  "tryGetChildMapping mapping index =
     (if int index \<le> int (length (ChildMappings mapping)) - 1 then (ChildMappings mapping ! index, True) else (None, False))"

function filterObjectToMap ::
    "DocumentMapping option \<Rightarrow> (FilterKey \<times> cond) list \<Rightarrow> (string \<times> filter_out) list \<Rightarrow> error + (string \<times> filter_out) list"
  and filter_items :: "DocumentMapping option \<Rightarrow> cond list \<Rightarrow> error + filter_out list" where
  "filterObjectToMap mapping [] outmap = Inr outmap"
| "filterObjectToMap mapping ((PropertyIndex i, v) # obj) outmap =
     (case v of
        CMap subObj \<Rightarrow>
          (case mapping of
             None \<Rightarrow> Inl GoPanic
           | Some m \<Rightarrow>
               (let outkey = (case TryToFindNameFromIndex m i of Some n \<Rightarrow> n | None \<Rightarrow> []);
                    inner = (case tryGetChildMapping m i of (child, ok) \<Rightarrow> if ok then child else mapping)
                in case filterObjectToMap inner subObj [] of
                     Inl e \<Rightarrow> Inl e
                   | Inr r \<Rightarrow> filterObjectToMap mapping obj (AList.update outkey (FMap r) outmap)))
      | _ \<Rightarrow> Inl GoPanic)"
| "filterObjectToMap mapping ((Operator op, v) # obj) outmap =
     (if op = ''_and'' \<or> op = ''_or''
      then (case v of
              CList items \<Rightarrow>
                (case filter_items mapping items of
                   Inl e \<Rightarrow> Inl e
                 | Inr entries \<Rightarrow> filterObjectToMap mapping obj (AList.update op (FList entries) outmap))
            | _ \<Rightarrow> Inl GoPanic)
      else filterObjectToMap mapping obj (AList.update op (FVal v) outmap))"
| "filter_items mapping [] = Inr []"
| "filter_items mapping (item # items) =
     (case item of
        CMap itemMap \<Rightarrow>
          (case filterObjectToMap mapping itemMap [] of
             Inl e \<Rightarrow> Inl e
           | Inr r \<Rightarrow> map_sum id (\<lambda>rs. FMap r # rs) (filter_items mapping items))
      | _ \<Rightarrow> Inl GoPanic)"
  by pat_completeness auto
termination
  by (relation "measure (\<lambda>x. case x of
      Inl (m, obj, out) \<Rightarrow> size (CMap obj) | Inr (m, items) \<Rightarrow> size (CList items))") auto

definition Filter_ToMap :: "Filter \<Rightarrow> DocumentMapping option \<Rightarrow> error + (string \<times> filter_out) list" where
  "Filter_ToMap f mapping = filterObjectToMap mapping (Conditions f) []"

section \<open>Well-formed mappings\<close>

text \<open>The mappings that the operations build.\<close>

inductive built :: "DocumentMapping \<Rightarrow> bool" where
  built_new: "built NewDocumentMapping"
| built_add: "built m \<Longrightarrow> built (Add m i n)"
| built_type: "built m \<Longrightarrow> built (SetTypeName m n)"
| built_child: "built m \<Longrightarrow> built (SetChildAt m i c)"
| built_clone: "built m \<Longrightarrow> built (CloneWithoutRender m)"

definition mapping_wf :: "DocumentMapping \<Rightarrow> bool" where
  "mapping_wf m \<longleftrightarrow> 
     (\<forall>n is. map_of (IndexesByName m) n = Some is \<longrightarrow> is \<noteq> [] \<and> (\<forall>i \<in> set is. i < nextIndex m)) \<and>
     (\<forall>ti. typeInfo m = Some ti \<longrightarrow> ti_Index ti < nextIndex m)"

lemma wf_Add:
  assumes "mapping_wf m"
  shows "mapping_wf (Add m i n)"
proof -
  let ?next = "nextIndex (Add m i n)"
  have n: "i < ?next" "nextIndex m \<le> ?next" by (simp_all add: Add_def Let_def)
  have "is \<noteq> [] \<and> (\<forall>j \<in> set is. j < ?next)" if "map_of (IndexesByName (Add m i n)) n' = Some is" for n' "is"
    using that assms n unfolding mapping_wf_def
    by (fastforce simp: Add_def Let_def update_conv' simp del: map_upd_nonempty split: option.splits if_split_asm)
  moreover have "typeInfo (Add m i n) = typeInfo m" by (simp add: Add_def Let_def)
  ultimately show ?thesis using assms n unfolding mapping_wf_def by (metis order.strict_trans2)
qed

lemma built_wf: "built m \<Longrightarrow> mapping_wf m"
proof (induction rule: built.induct)
  case (built_type m n)
  from wf_Add [OF this(2)] show ?case
    by (auto simp: SetTypeName_def Let_def mapping_wf_def) (simp add: Add_def Let_def GetNextIndex_def)
next
  case (built_clone m)
  show ?case using built_clone(2) by (cases m rule: DocumentMapping.exhaust) (simp add: mapping_wf_def)
next
  case (built_add m i n)
  then show ?case by (simp add: wf_Add)
qed (simp_all add: mapping_wf_def NewDocumentMapping_def SetChildAt_def Let_def)

end
