(* ===== verification/DocSpec.thy ===== *)
theory DocSpec
  imports DocMapping
begin

text \<open>
  What the mappings of documents promise: named fields read back what was written, a copy renders as
  its original does unless it hides documents, and a name found for an index belongs to it.
\<close>

section \<open>Named fields\<close>

lemma FirstIndex_less: "built m \<Longrightarrow> FirstIndexOfName m n = Inr i \<Longrightarrow> i < nextIndex m"
  using built_wf [of m] by (auto simp: FirstIndexOfName_def mapping_wf_def split: option.splits list.splits)

text \<open>
  C37. In a document made for a mapping, whatever was added to the mapping, a field that is set by its
  name is read back by its name, and every field with another index keeps its value; no access
  panics.
\<close>

theorem named_field_round_trip:
  assumes m: "built m" and d: "length (Fields d) = nextIndex m" and n: "FirstIndexOfName m name = Inr i"
  shows "\<exists>d'. SetFirstOfName m d name v = Inr d' \<and> FirstOfName m d' name = Inr v \<and>
    length (Fields d') = nextIndex m \<and>
    (\<forall>name' j. FirstIndexOfName m name' = Inr j \<longrightarrow> j \<noteq> i \<longrightarrow>
       FirstOfName m d' name' = FirstOfName m d name' \<and> FirstOfName m d name' = Inr (Fields d ! j))"
proof -
  let ?d = "MkDoc (Hidden d) ((Fields d)[i := v]) (Status d)"
  have i: "i < length (Fields d)" using FirstIndex_less [OF m n] d by simp
  have "SetFirstOfName m d name v = Inr ?d"
    using n i by (auto simp: SetFirstOfName_def FirstIndexOfName_def set_field_def split: option.splits list.splits)
  moreover have "FirstOfName m ?d name = Inr v" using n i by (simp add: FirstOfName_def)
  moreover have "FirstOfName m ?d name' = FirstOfName m d name' \<and> FirstOfName m d name' = Inr (Fields d ! j)"
    if "FirstIndexOfName m name' = Inr j" "j \<noteq> i" for name' j
    using FirstIndex_less [OF m that(1)] d that by (simp add: FirstOfName_def)
  ultimately show ?thesis using d by auto
qed

definition w_mapping :: DocumentMapping where
  "w_mapping = SetTypeName (Add (Add NewDocumentMapping 0 ''_key'') 1 ''name'') ''User''"

theorem named_field_round_trip_witness:
  "\<exists>d'. SetFirstOfName w_mapping (NewDoc w_mapping) ''name'' (Str ''Bob'') = Inr d' \<and>
    FirstOfName w_mapping d' ''name'' = Inr (Str ''Bob'')"
proof -
  have "built w_mapping" unfolding w_mapping_def by (intro built.intros)
  moreover have "FirstIndexOfName w_mapping ''name'' = Inr 1"
    by (simp add: w_mapping_def FirstIndexOfName_def SetTypeName_def Add_def NewDocumentMapping_def GetNextIndex_def
        TypeNameFieldName_def)
  moreover have "length (Fields (NewDoc w_mapping)) = nextIndex w_mapping" by (simp add: NewDoc_def)
  ultimately show ?thesis using named_field_round_trip [of w_mapping "NewDoc w_mapping" "''name''" 1 "Str ''Bob''"] by blast
qed

section \<open>Copies\<close>

primrec visible :: "doc \<Rightarrow> bool" and visible_field :: "any \<Rightarrow> bool" where
  "visible (MkDoc h fs st) = (\<not> h \<and> list_all (\<lambda>b. b) (map visible_field fs))"
| "visible_field (Doc d) = visible d"
| "visible_field (Docs ds) = list_all (\<lambda>b. b) (map visible ds)"
| "visible_field Nil_any = True" | "visible_field (Bool b) = True" | "visible_field (Int8 i) = True"
| "visible_field (Int16 i) = True" | "visible_field (Int32 i) = True" | "visible_field (GoInt i) = True"
| "visible_field (Int64 i) = True" | "visible_field (Uint64 i) = True" | "visible_field (Float32 x) = True"
| "visible_field (Float64 x) = True" | "visible_field (Str t) = True" | "visible_field (Time t) = True"
| "visible_field (OptBool v) = True" | "visible_field (OptInt v) = True" | "visible_field (OptFloat v) = True"
| "visible_field (OptStr v) = True" | "visible_field (Anys xs) = True" | "visible_field (Slice t xs) = True"
| "visible_field (ByteSlice b) = True"

lemma Fields_Clone [simp]: "Fields (Clone d) = map clone_field (Fields d)"
  by (cases d) simp

lemma Hidden_Clone [simp]: "\<not> Hidden (Clone d)"
  by (cases d) simp

lemma visible_Fields: "visible d \<Longrightarrow> i < length (Fields d) \<Longrightarrow> visible_field (Fields d ! i)"
  by (cases d) (auto simp: list_all_length)

lemma visible_Hidden: "visible d \<Longrightarrow> \<not> Hidden d"
  by (cases d) simp

lemma render_clone:
  "visible d \<Longrightarrow> ToMap mo (Clone d) = ToMap mo d"
  "visible d \<Longrightarrow> render_keys m rks (Clone d) = render_keys m rks d"
  "visible_field v \<Longrightarrow> render m i (clone_field v) = render m i v"
  "list_all visible ds \<Longrightarrow> render_docs mo (map Clone ds) = render_docs mo ds"
proof (induction mo d and m rks d and m i v and mo ds rule: ToMap_render_keys_render_render_docs.induct)
  case (1 mapping doc)
  then show ?case by (simp add: ToMap.simps split: option.splits)
next
  case (3 m rk rks doc)
  then show ?case by (auto simp: visible_Fields split: sum.splits)
next
  case (4 m index v)
  show ?case
  proof (cases v)
    case (Docs ds)
    then show ?thesis using 4 by (simp add: render.simps comp_def list_all_iff split: sum.splits)
  next
    case (Doc d)
    then show ?thesis using 4 by (simp add: render.simps split: sum.splits)
  qed (simp_all add: render.simps)
next
  case (6 mo d ds)
  then show ?case by (simp add: visible_Hidden split: sum.splits)
qed simp_all

text \<open>A copy of a document in which nothing is hidden is rendered as the document itself.\<close>

theorem clone_renders_same:
  assumes "visible d"
  shows "ToMap mapping (Clone d) = ToMap mapping d"
  by (rule render_clone(1) [OF assms])

definition w_hidden :: doc where
  "w_hidden = MkDoc False [Docs [MkDoc True [Str ''secret''] 0]] 0"

definition w_outer :: DocumentMapping where
  "w_outer = MkMapping None [\<lparr>rk_Index = 0, rk_Key = ''books''\<rparr>] [(''books'', [0])] 1
     [Some (MkMapping None [\<lparr>rk_Index = 0, rk_Key = ''title''\<rparr>] [(''title'', [0])] 1 [])]"

lemma w_hidden_render:
  "ToMap (Some w_outer) w_hidden = Inr [(''books'', RMaps [])]"
  "ToMap (Some w_outer) (Clone w_hidden) = Inr [(''books'', RMaps [[(''title'', RVal (Str ''secret''))]])]"
  by (simp_all add: ToMap.simps render.simps w_outer_def w_hidden_def child_at_def)

text \<open>
  A copy does not keep what is hidden: there is a document with a hidden document in a list that is
  not rendered, and is rendered from the copy.
\<close>

theorem clone_shows_hidden:
  "\<exists>mapping d. ToMap mapping d = Inr [(''books'', RMaps [])] \<and>
     ToMap mapping (Clone d) = Inr [(''books'', RMaps [[(''title'', RVal (Str ''secret''))]])]"
  using w_hidden_render by blast

theorem clone_renders_same_witness:
  "ToMap (Some w_outer) (Clone (MkDoc False [Docs [MkDoc False [Str ''A''] 1]] 1)) =
   ToMap (Some w_outer) (MkDoc False [Docs [MkDoc False [Str ''A''] 1]] 1)"
  by (rule clone_renders_same) simp

section \<open>Names of indexes\<close>

lemma find_index_Some: "find_index names i = Some n \<Longrightarrow> \<exists>is. (n, is) \<in> set names \<and> i \<in> set is"
  by (induction names i rule: find_index.induct) (auto split: if_splits)

lemma find_index_None: "find_index names i = None \<longleftrightarrow> (\<forall>(n, is) \<in> set names. i \<notin> set is)"
  by (induction names i rule: find_index.induct) auto

text \<open>The names that an index has in a mapping or in the mappings below it.\<close>

inductive names_index :: "DocumentMapping \<Rightarrow> nat \<Rightarrow> string \<Rightarrow> bool" where
  own: "(n, is) \<in> set (IndexesByName m) \<Longrightarrow> i \<in> set is \<Longrightarrow> names_index m i n"
| child: "Some c \<in> set (ChildMappings m) \<Longrightarrow> names_index c i n \<Longrightarrow> names_index m i n"

lemma find_name_sound:
  "TryToFindNameFromIndex m i = Some n \<Longrightarrow> names_index m i n"
  "find_in_children cs i = Some n \<Longrightarrow> \<exists>c. Some c \<in> set cs \<and> names_index c i n"
proof (induction m i and cs i rule: TryToFindNameFromIndex_find_in_children.induct)
  case (1 ti rks names nx children i)
  then show ?case
    by (auto split: option.splits dest!: find_index_Some intro: names_index.intros(1) [of _ _ "MkMapping _ _ _ _ _", simplified]
        names_index.intros(2) [of _ "MkMapping _ _ _ _ _", simplified])
next
  case (4 c cs i)
  then show ?case by (auto split: option.splits)
qed auto

lemma children_found:
  "Some c \<in> set cs \<Longrightarrow> TryToFindNameFromIndex c i \<noteq> None \<Longrightarrow> find_in_children cs i \<noteq> None"
proof (induction cs)
  case (Cons x cs)
  then show ?case by (cases x) (auto split: option.splits)
qed simp

lemma find_name_complete: "names_index m i n \<Longrightarrow> TryToFindNameFromIndex m i \<noteq> None"
proof (induction rule: names_index.induct)
  case (own n "is" m i)
  then have "find_index (IndexesByName m) i \<noteq> None" by (auto simp: find_index_None)
  then show ?case by (cases m) auto
next
  case (child c m i n)
  then have "find_in_children (ChildMappings m) i \<noteq> None" by (auto dest: children_found)
  then show ?case by (cases m) (auto split: option.splits)
qed

text \<open>
  The name found for an index is a name of it in the mapping or in a mapping below it, and none is
  found exactly when there is none.
\<close>

theorem find_name_correct:
  "case TryToFindNameFromIndex m i of
     Some n \<Rightarrow> names_index m i n
   | None \<Rightarrow> \<not> (\<exists>n. names_index m i n)"
  using find_name_sound(1) [of m i] find_name_complete [of m i] by (auto split: option.splits)

end
