(* ===== verification/Spans.thy ===== *)
theory Spans
  imports Keys
begin

text \<open>
  Ranges of datastore keys (\<^verbatim>\<open>core/data.go\<close>): how two ranges lie to each other, and the merging of a
  collection of ranges. The loops over slices are recursions over their index; an element of a
  slice that was made and never set is the nil interface \<open>None\<close>, and an access out of range or to
  a nil element panics.
\<close>

section \<open>Spans\<close>

record span =
  sp_start :: DataStoreKey
  sp_end :: DataStoreKey

definition NewSpan :: "DataStoreKey \<Rightarrow> DataStoreKey \<Rightarrow> span" where
  "NewSpan start end' = \<lparr>sp_start = start, sp_end = end'\<rparr>"

definition Start :: "span \<Rightarrow> DataStoreKey" where
  "Start s = sp_start s"

definition End :: "span \<Rightarrow> DataStoreKey" where
  "End s = sp_end s"

datatype SpanComparisonResult =
    Before
  | StartBeforeEndEqualToStart
  | StartBeforeEndWithin
  | StartBeforeEndEqual
  | StartBeforeEndAfter
  | StartEqualEndWithin
  | Equal
  | StartEqualEndAfter
  | StartWithinEndWithin
  | StartWithinEndAfter
  | StartWithinEndEqual
  | StartEqualToEndEndAfter
  | After

definition isAdjacent :: "DataStoreKey \<Rightarrow> DataStoreKey \<Rightarrow> bool" where
  "isAdjacent this other \<longleftrightarrow>
     length (ToString this) = length (ToString other) \<and>
     (ToString (PrefixEnd this) = ToString other \<or> ToString this = ToString (PrefixEnd other))"

text \<open>Each group of tests falls through to the next one when none of its tests holds.\<close>

definition Compare_span :: "span \<Rightarrow> span \<Rightarrow> SpanComparisonResult" where
  "Compare_span this other =
     (let thisStart = ToString (sp_start this); thisEnd = ToString (sp_end this);
          otherStart = ToString (Start other); otherEnd = ToString (End other);
          endWithin = (thisEnd < otherEnd \<or> HasPrefix thisEnd otherEnd);
          last = (if thisStart = otherEnd \<or> isAdjacent (sp_start this) (End other) then StartEqualToEndEndAfter else After);
          startWithin =
            (if \<not> thisStart < otherEnd then last
             else if endWithin then StartWithinEndWithin
             else if thisEnd = otherEnd then StartWithinEndEqual
             else if thisEnd > otherEnd then StartWithinEndAfter
             else last);
          startEqual =
            (if thisStart \<noteq> otherStart then startWithin
             else if endWithin then StartEqualEndWithin
             else if thisEnd = otherEnd then Equal
             else if thisEnd > otherEnd then StartEqualEndAfter
             else startWithin)
      in if this = other then Equal
         else if \<not> thisStart < otherStart then startEqual
         else if thisEnd = otherStart \<or> isAdjacent (sp_end this) (Start other) then StartBeforeEndEqualToStart
         else if thisEnd < otherStart then Before
         else if endWithin then StartBeforeEndWithin
         else if thisEnd = otherEnd then StartBeforeEndEqual
         else if thisEnd > otherEnd then StartBeforeEndAfter
         else startEqual)"

record Spans =
  HasValue :: bool
  Value :: "span option list"

definition NewSpans :: "span option list \<Rightarrow> Spans" where
  "NewSpans spans = \<lparr>HasValue = True, Value = spans\<rparr>"

section \<open>Merging\<close>

definition nth_set :: "'a list \<Rightarrow> nat \<Rightarrow> 'a \<Rightarrow> error + 'a list" where
  "nth_set xs i x = (if i < length xs then Inr (xs[i := x]) else Inl GoPanic)"

text \<open>The index of the last span from \<open>i\<close> on whose end is not after the given one.\<close>

fun last_matching :: "span option list \<Rightarrow> string \<Rightarrow> nat \<Rightarrow> nat option \<Rightarrow> error + nat option" where
  "last_matching [] e i found = Inr found"
| "last_matching (None # spans) e i found = Inl GoPanic"
| "last_matching (Some s # spans) e i found =
     last_matching spans e (i + 1) (if ToString (End s) \<le> e then Some i else found)"

text \<open>The items that follow are all written to the index \<open>j\<close>.\<close>

fun write_following :: "span option list \<Rightarrow> nat \<Rightarrow> span option list \<Rightarrow> error + span option list" where
  "write_following [] j result = Inr result"
| "write_following (s # spans) j result =
     (case nth_set result j s of Inl e \<Rightarrow> Inl e | Inr result' \<Rightarrow> write_following spans j result')"

definition removeBefore :: "span option list \<Rightarrow> nat \<Rightarrow> string \<Rightarrow> error + span option list" where
  "removeBefore spans startIndex end' =
     (case last_matching (drop startIndex spans) end' startIndex None of
        Inl e \<Rightarrow> Inl e
      | Inr None \<Rightarrow> Inr spans
      | Inr (Some indexOfLastMatchingItem) \<Rightarrow>
          (let numberOfItemsToRemove = indexOfLastMatchingItem - startIndex;
               result = take startIndex spans @ replicate (length spans - numberOfItemsToRemove - startIndex) None;
               j = startIndex + numberOfItemsToRemove
           in write_following (drop (indexOfLastMatchingItem + 1) spans) j result))"

text \<open>One span is merged into the unique spans, from the index \<open>i\<close> on.\<close>

definition insert_before :: "span option list \<Rightarrow> nat \<Rightarrow> span \<Rightarrow> span option list" where
  "insert_before uniqueSpans i s =
     take i uniqueSpans @ [Some (NewSpan (Start s) (End s))] @
     replicate (length uniqueSpans - i) (uniqueSpans ! i)"

function merge_one :: "span \<Rightarrow> span option list \<Rightarrow> nat \<Rightarrow> bool \<Rightarrow> error + (span option list \<times> bool)" where
  "merge_one s uniqueSpans i uniqueSpanFound =
     (if i \<ge> length uniqueSpans then Inr (uniqueSpans, uniqueSpanFound)
      else (case uniqueSpans ! i of
        None \<Rightarrow> Inl GoPanic
      | Some uniqueSpan \<Rightarrow>
          (case Compare_span s uniqueSpan of
             Before \<Rightarrow> Inr (insert_before uniqueSpans i s, True)
           | StartBeforeEndAfter \<Rightarrow>
               (case removeBefore uniqueSpans i (ToString (End s)) of
                  Inl e \<Rightarrow> Inl e
                | Inr us \<Rightarrow> map_sum id (\<lambda>us'. (us', True)) (nth_set us i (Some (NewSpan (Start s) (End s)))))
           | After \<Rightarrow> merge_one s uniqueSpans (i + 1) uniqueSpanFound
           | r \<Rightarrow>
               if r \<in> {StartBeforeEndEqualToStart, StartBeforeEndWithin, StartBeforeEndEqual}
               then merge_one s (uniqueSpans[i := Some (NewSpan (Start s) (End uniqueSpan))]) (i + 1) True
               else if r \<in> {StartEqualEndWithin, Equal, StartWithinEndWithin, StartWithinEndEqual}
               then Inr (uniqueSpans, True)
               else (case removeBefore uniqueSpans i (ToString (End s)) of
                       Inl e \<Rightarrow> Inl e
                     | Inr us \<Rightarrow>
                         map_sum id (\<lambda>us'. (us', True)) (nth_set us i (Some (NewSpan (Start uniqueSpan) (End s))))))))"
  by pat_completeness auto
termination
  by (relation "measure (\<lambda>(s, us, i, f). length us - i)") auto

declare merge_one.simps [simp del]

fun merge_all :: "span list \<Rightarrow> span option list \<Rightarrow> error + span option list" where
  "merge_all [] uniqueSpans = Inr uniqueSpans"
| "merge_all (s # spans) uniqueSpans =
     (case merge_one s uniqueSpans 0 False of
        Inl e \<Rightarrow> Inl e
      | Inr (us, uniqueSpanFound) \<Rightarrow> merge_all spans (if uniqueSpanFound then us else us @ [Some s]))"

definition MergeAscending :: "span list \<Rightarrow> error + span option list" where
  "MergeAscending spans = (if length spans \<le> 1 then Inr (map Some spans) else merge_all spans [])"

end
