(* ===== verification/SpansSpec.thy ===== *)
theory SpansSpec
  imports Spans
begin

text \<open>
  Merging of key ranges: on ranges between keys of one length given in ascending order no key is
  lost or added; and ways in which other ranges go wrong.
\<close>

section \<open>Ranges in ascending order\<close>

abbreviation st :: "span \<Rightarrow> string" where
  "st s \<equiv> ToString (sp_start s)"

abbreviation en :: "span \<Rightarrow> string" where
  "en s \<equiv> ToString (sp_end s)"

definition in_span :: "string \<Rightarrow> span \<Rightarrow> bool" where
  "in_span k s \<longleftrightarrow> st s \<le> k \<and> k < en s"

text \<open>Ranges between keys of one length, as the ranges of documents of a collection are.\<close>

definition regular :: "nat \<Rightarrow> span \<Rightarrow> bool" where
  "regular L s \<longleftrightarrow> length (st s) = L \<and> length (en s) = L \<and> st s < en s \<and>
     not_max (last_part (sp_start s)) \<and> not_max (last_part (sp_end s))"

definition sep :: "span \<Rightarrow> span \<Rightarrow> bool" where
  "sep a b \<longleftrightarrow> en a < st b \<and> ToString (PrefixEnd (sp_end a)) \<noteq> st b"

lemma HasPrefix_same_length: "length s = length p \<Longrightarrow> HasPrefix s p \<longleftrightarrow> s = p"
  by (auto simp: HasPrefix_def)

lemma less_PrefixEnd: "not_max (last_part k) \<Longrightarrow> ToString k < ToString (PrefixEnd k)"
  using PrefixEnd_prefix [of k "ToString k"] by (simp add: HasPrefix_def)

lemma between_PrefixEnd:
  "not_max (last_part k) \<Longrightarrow> length s = length (ToString k) \<Longrightarrow> ToString k < s \<Longrightarrow> ToString (PrefixEnd k) \<le> s"
  using PrefixEnd_prefix [of k s] HasPrefix_same_length [of s "ToString k"] by (metis leI order_less_imp_le order_less_irrefl)

lemma compare_after:
  assumes "regular L s" "regular L v" "sep v s"
  shows "Compare_span s v = After"
proof -
  have "en v < st s" "ToString (PrefixEnd (sp_end v)) \<noteq> st s" using assms(3) by (auto simp: sep_def)
  moreover have "st v < st s" using assms(2) calculation(1) by (auto simp: regular_def)
  moreover have "\<not> isAdjacent (sp_start s) (sp_end v)"
    using assms calculation less_PrefixEnd [of "sp_start s"] by (auto simp: isAdjacent_def regular_def)
  ultimately show ?thesis by (auto simp: Compare_span_def Let_def Start_def End_def)
qed

lemma sep_trans:
  assumes "regular L v" "regular L u" "sep v u" "st u \<le> st s"
  shows "sep v s"
proof -
  have "ToString (PrefixEnd (sp_end v)) \<le> st u"
    using assms(1,2,3) by (intro between_PrefixEnd) (auto simp: regular_def sep_def)
  then show ?thesis using assms(3,4) by (auto simp: sep_def)
qed

lemma merge_one_skip:
  assumes "\<And>v. v \<in> set ws \<Longrightarrow> Compare_span s v = After"
  shows "merge_one s (map Some (vs @ ws @ rest)) (length vs) f =
    merge_one s (map Some (vs @ ws @ rest)) (length vs + length ws) f"
  using assms
proof (induction ws arbitrary: vs)
  case (Cons w ws)
  from Cons.IH [of "vs @ [w]"] Cons.prems show ?case
    by (subst merge_one.simps) (simp add: nth_append)
qed simp

lemma removeBefore_last:
  "removeBefore (map Some (ws @ [u])) (length ws) e \<in> {Inr (map Some ws @ [x]) | x. True}"
  by (auto simp: removeBefore_def Let_def)

text \<open>What a comparison with the last range tells.\<close>

lemma end_within: "length a = length b \<Longrightarrow> (a < b \<or> HasPrefix a b) = (a \<le> (b :: string))"
  by (auto simp: HasPrefix_same_length)

lemma compare_flat:
  assumes "regular L s" "regular L u" "st u \<le> st s"
  shows "Compare_span s u =
    (if s = u then Equal
     else if st s = st u then (if en s \<le> en u then StartEqualEndWithin else StartEqualEndAfter)
     else if st s < en u then (if en s \<le> en u then StartWithinEndWithin else StartWithinEndAfter)
     else if st s = en u \<or> isAdjacent (sp_start s) (sp_end u) then StartEqualToEndEndAfter else After)"
proof -
  have l: "length (en s) = length (en u)" using assms(1,2) by (simp add: regular_def)
  have n: "\<not> st s < st u" using assms(3) by simp
  show ?thesis unfolding Compare_span_def Let_def Start_def End_def end_within [OF l] using n by auto
qed

lemma compare_last:
  assumes "regular L s" "regular L u" "st u \<le> st s"
  obtains "Compare_span s u \<in> {StartEqualEndWithin, Equal, StartWithinEndWithin, StartWithinEndEqual}" "en s \<le> en u"
  | "Compare_span s u \<in> {StartEqualEndAfter, StartWithinEndAfter, StartEqualToEndEndAfter}" "en u < en s"
  | "Compare_span s u = After" "sep u s"
proof -
  note f = compare_flat [OF assms]
  have e: "st s < en s" using assms(1) by (simp add: regular_def)
  consider "s = u" | "en s \<le> en u" "st s < en u" | "en u < en s" "st s < en u"
    | "\<not> st s < en u" "st s = en u \<or> isAdjacent (sp_start s) (sp_end u)"
    | "\<not> st s < en u" "st s \<noteq> en u" "\<not> isAdjacent (sp_start s) (sp_end u)" by force
  then show thesis
  proof cases
    case 5
    then have "sep u s" using assms(1,2) by (auto simp: sep_def isAdjacent_def regular_def)
    with 5 that(3) show ?thesis using f assms(2) by (auto simp: regular_def split: if_splits)
  next
    case 4
    with e have "en u < en s" by (auto simp: not_less)
    with 4 that(2) show ?thesis using f assms(2) by (auto simp: regular_def split: if_splits)
  qed (use f that in \<open>auto split: if_splits\<close>)
qed

definition ascending :: "nat \<Rightarrow> span list \<Rightarrow> bool" where
  "ascending L vs \<longleftrightarrow> (\<forall>v \<in> set vs. regular L v) \<and> sorted_wrt sep vs"

text \<open>The unique spans after the last of them has been replaced or kept, or the new one appended.\<close>

lemma merge_one_last:
  assumes vs: "ascending L (ws @ [u])" and s: "regular L s" and le: "\<forall>v \<in> set (ws @ [u]). st v \<le> st s"
  shows "merge_one s (map Some (ws @ [u])) 0 False =
    (if Compare_span s u = After then Inr (map Some (ws @ [u]), False)
     else if en s \<le> en u then Inr (map Some (ws @ [u]), True)
     else Inr (map Some (ws @ [NewSpan (sp_start u) (sp_end s)]), True))"
proof -
  have reg: "regular L u" "\<And>v. v \<in> set ws \<Longrightarrow> regular L v" "\<And>v. v \<in> set ws \<Longrightarrow> sep v u"
    using vs by (auto simp: ascending_def sorted_wrt_append)
  have "merge_one s (map Some ([] @ ws @ [u])) (length ([] :: span list)) False =
      merge_one s (map Some ([] @ ws @ [u])) (length ([] :: span list) + length ws) False"
  proof (rule merge_one_skip)
    fix v assume v: "v \<in> set ws"
    from le have "st u \<le> st s" by simp
    with compare_after [OF s reg(2) sep_trans [OF reg(2) reg(1) reg(3)]] v show "Compare_span s v = After" by blast
  qed
  then have skip: "merge_one s (map Some (ws @ [u])) 0 False = merge_one s (map Some (ws @ [u])) (length ws) False"
    by simp
  obtain x where rb: "removeBefore (map Some (ws @ [u])) (length ws) (en s) = Inr (map Some ws @ [x])"
    using removeBefore_last [of ws u "en s"] by blast
  have le_u: "st u \<le> st s" using le by simp
  show ?thesis unfolding skip using rb
    by (cases rule: compare_last [OF s reg(1) le_u])
      (auto simp: merge_one.simps [of s _ "length ws"] merge_one.simps [of s _ "Suc _"] nth_append End_def Start_def
        nth_set_def list_update_append)
qed

definition merged :: "span list \<Rightarrow> span \<Rightarrow> span list" where
  "merged vs s =
     (if vs = [] then [s]
      else (let u = last vs
            in if Compare_span s u = After then vs @ [s]
               else if en s \<le> en u then vs
               else butlast vs @ [NewSpan (sp_start u) (sp_end s)]))"

lemma merge_all_step:
  assumes vs: "ascending L vs" and s: "regular L s" and le: "\<forall>v \<in> set vs. st v \<le> st s"
  shows "merge_all (s # spans) (map Some vs) = merge_all spans (map Some (merged vs s))"
proof (cases vs rule: rev_cases)
  case Nil
  then show ?thesis by (simp add: merge_one.simps merged_def)
next
  case (snoc ws u)
  from merge_one_last [OF vs [unfolded snoc] s le [unfolded snoc]] show ?thesis
    by (simp add: snoc merged_def split: if_splits)
qed

lemma merged_ascending:
  assumes vs: "ascending L vs" and s: "regular L s" and le: "\<forall>v \<in> set vs. st v \<le> st s"
  shows "ascending L (merged vs s) \<and> (\<forall>v \<in> set (merged vs s). st v \<le> st s) \<and>
    (\<forall>k. in_span k s \<or> (\<exists>v \<in> set vs. in_span k v) \<longrightarrow> (\<exists>v \<in> set (merged vs s). in_span k v))"
proof (cases vs rule: rev_cases)
  case Nil
  then show ?thesis using s by (simp add: ascending_def merged_def)
next
  case (snoc ws u)
  have reg: "regular L u" "\<forall>v \<in> set ws. regular L v" "\<forall>v \<in> set ws. sep v u" "sorted_wrt sep ws" "st u \<le> st s"
    "\<forall>v \<in> set ws. st v \<le> st s" using vs le by (auto simp: snoc ascending_def sorted_wrt_append)
  from s reg(1,5) show ?thesis
  proof (cases rule: compare_last)
    case 1
    then have "merged vs s = vs" by (auto simp: snoc merged_def)
    moreover have "in_span k u" if "in_span k s" for k
      using that 1(2) reg(5) unfolding in_span_def by auto
    ultimately show ?thesis using vs le by (auto simp: snoc)
  next
    case 2
    let ?n = "NewSpan (sp_start u) (sp_end s)"
    have n: "merged vs s = ws @ [?n]" using 2 by (auto simp: snoc merged_def)
    have "regular L ?n" "\<forall>v \<in> set ws. sep v ?n" "st ?n \<le> st s"
      using s reg by (auto simp: regular_def sep_def NewSpan_def)
    moreover have "in_span k ?n" if "in_span k s \<or> in_span k u" for k
      using that 2(2) reg(5) unfolding in_span_def NewSpan_def by auto
    ultimately show ?thesis using reg unfolding n by (auto simp: snoc ascending_def sorted_wrt_append)
  next
    case 3
    have "\<forall>v \<in> set ws. sep v s" using sep_trans [OF _ reg(1) _ reg(5)] reg(2,3) by blast
    moreover have "merged vs s = vs @ [s]" using 3 by (simp add: snoc merged_def)
    ultimately show ?thesis using 3 reg s vs by (auto simp: snoc ascending_def sorted_wrt_append)
  qed
qed

text \<open>
  The keys that a merge adds: two ranges are adjacent when the second starts right after the keys
  that have the end of the first as a prefix, and these keys are taken in.
\<close>

definition bridged :: "string \<Rightarrow> span \<Rightarrow> span \<Rightarrow> bool" where
  "bridged k a b \<longleftrightarrow> HasPrefix k (en a) \<and> ToString (PrefixEnd (sp_end a)) = st b"

lemma merged_sound:
  assumes s: "regular L s" and le: "\<forall>v \<in> set vs. st v \<le> st s \<and> regular L v"
    and v: "v \<in> set (merged vs s)" and k: "in_span k v"
  shows "in_span k s \<or> (\<exists>u \<in> set vs. in_span k u \<or> bridged k u s)" and "sp_end v = sp_end s \<or> v \<in> set vs"
proof -
  have "v = s \<or> v \<in> set vs \<or> (\<exists>u \<in> set vs. v = NewSpan (sp_start u) (sp_end s) \<and> Compare_span s u \<noteq> After)"
    using v in_set_butlastD [of _ vs] last_in_set [of vs] by (auto simp: merged_def Let_def split: if_splits)
  then consider "v = s" | "v \<in> set vs"
    | u where "u \<in> set vs" "v = NewSpan (sp_start u) (sp_end s)" "Compare_span s u \<noteq> After" by blast
  then have "(in_span k s \<or> (\<exists>u \<in> set vs. in_span k u \<or> bridged k u s)) \<and> (sp_end v = sp_end s \<or> v \<in> set vs)"
  proof cases
    case 3
    have u: "regular L u" "st u \<le> st s" using le 3(1) by auto
    have kv: "st u \<le> k" "k < en s" using k by (simp_all add: 3(2) in_span_def NewSpan_def)
    have "in_span k s \<or> in_span k u \<or> bridged k u s"
    proof (cases "k < en u \<or> st s \<le> k")
      case True
      with kv show ?thesis by (auto simp: in_span_def)
    next
      case False
      then have gap: "en u \<le> k" "k < st s" by auto
      then have "\<not> st s < en u" "st s \<noteq> en u" "st s \<noteq> st u" using u kv by (auto simp: regular_def)
      then have "isAdjacent (sp_start s) (sp_end u)" using compare_flat [OF s u] 3(3) by (auto split: if_splits)
      then have "ToString (PrefixEnd (sp_end u)) = st s"
        using less_PrefixEnd [of "sp_start s"] s gap by (auto simp: isAdjacent_def regular_def)
      with gap show ?thesis using PrefixEnd_prefix [of "sp_end u" k] u by (auto simp: bridged_def regular_def)
    qed
    then show ?thesis using 3 by (auto simp: NewSpan_def)
  qed (use k in auto)
  then show "in_span k s \<or> (\<exists>u \<in> set vs. in_span k u \<or> bridged k u s)" and "sp_end v = sp_end s \<or> v \<in> set vs" by auto
qed

lemma merged_keys:
  assumes vs: "ascending L vs" and s: "regular L s" and le: "\<forall>v \<in> set vs. st v \<le> st s"
    and k: "(\<exists>t \<in> set (merged vs s @ spans). in_span k t) \<or>
      (\<exists>a \<in> set (merged vs s @ spans). \<exists>b \<in> set spans. bridged k a b)"
  shows "(\<exists>t \<in> set (vs @ s # spans). in_span k t) \<or> (\<exists>a \<in> set (vs @ s # spans). \<exists>b \<in> set (s # spans). bridged k a b)"
proof -
  have "\<forall>v \<in> set vs. st v \<le> st s \<and> regular L v" using le vs by (auto simp: ascending_def)
  note snd = merged_sound [OF s this]
  have "sp_end a = sp_end s \<or> a \<in> set vs" if "a \<in> set (merged vs s)" for a
  proof -
    have "ascending L (merged vs s)" using merged_ascending [OF vs s le] by (rule conjunct1)
    with that have "in_span (st a) a" by (simp add: ascending_def regular_def in_span_def)
    then show ?thesis using snd(2) [OF that] by blast
  qed
  then have ends: "bridged k a b \<Longrightarrow> a \<in> set (merged vs s) \<Longrightarrow> bridged k s b \<or> a \<in> set vs" for a b
    unfolding bridged_def by metis
  from k show ?thesis
  proof (elim disjE bexE)
    fix t assume t: "t \<in> set (merged vs s @ spans)" "in_span k t"
    show ?thesis
    proof (cases "t \<in> set spans")
      case False
      with t snd(1) [of t k] show ?thesis by auto
    qed (use t in auto)
  next
    fix a b assume ab: "a \<in> set (merged vs s @ spans)" "b \<in> set spans" "bridged k a b"
    show ?thesis
    proof (cases "a \<in> set spans")
      case False
      with ab ends [OF ab(3)] show ?thesis by auto
    qed (use ab in auto)
  qed
qed

lemma merge_all_ascending:
  assumes "ascending L vs" "\<forall>s \<in> set spans. regular L s" "sorted (map st spans)" "\<forall>v \<in> set vs. \<forall>s \<in> set spans. st v \<le> st s"
  shows "\<exists>rs. merge_all spans (map Some vs) = Inr (map Some rs) \<and> ascending L rs \<and>
    (\<forall>k. (\<exists>s \<in> set (vs @ spans). in_span k s) \<longrightarrow> (\<exists>s \<in> set rs. in_span k s)) \<and>
    (\<forall>k. (\<exists>s \<in> set rs. in_span k s) \<longrightarrow>
       (\<exists>s \<in> set (vs @ spans). in_span k s) \<or> (\<exists>a \<in> set (vs @ spans). \<exists>b \<in> set spans. bridged k a b))"
  using assms
proof (induction spans arbitrary: vs)
  case (Cons s spans)
  note m = merged_ascending [OF Cons.prems(1), of s]
  have r: "regular L s" "\<forall>v \<in> set vs. st v \<le> st s" "\<forall>t \<in> set spans. st s \<le> st t" using Cons.prems by auto
  have le: "\<forall>v \<in> set (merged vs s). \<forall>t \<in> set spans. st v \<le> st t" using m r by (meson order_trans)
  obtain rs where rs: "merge_all spans (map Some (merged vs s)) = Inr (map Some rs)" "ascending L rs"
    "\<forall>k. (\<exists>s \<in> set (merged vs s @ spans). in_span k s) \<longrightarrow> (\<exists>s \<in> set rs. in_span k s)"
    "\<forall>k. (\<exists>s \<in> set rs. in_span k s) \<longrightarrow> (\<exists>t \<in> set (merged vs s @ spans). in_span k t) \<or>
       (\<exists>a \<in> set (merged vs s @ spans). \<exists>b \<in> set spans. bridged k a b)"
    using Cons.IH [of "merged vs s"] m r le Cons.prems by auto
  have "\<exists>v \<in> set rs. in_span k v" if k: "\<exists>t \<in> set (vs @ s # spans). in_span k t" for k
  proof -
    have "in_span k s \<or> (\<exists>v \<in> set vs. in_span k v) \<longrightarrow> (\<exists>v \<in> set (merged vs s). in_span k v)"
      using m r(1,2) by blast
    with k have "\<exists>t \<in> set (merged vs s @ spans). in_span k t" by auto
    with rs(3) show ?thesis by blast
  qed
  moreover have "(\<exists>t \<in> set (vs @ s # spans). in_span k t) \<or> (\<exists>a \<in> set (vs @ s # spans). \<exists>b \<in> set (s # spans). bridged k a b)"
    if "\<exists>v \<in> set rs. in_span k v" for k
    using merged_keys [OF Cons.prems(1) r(1,2)] rs(4) that by blast
  moreover have "merge_all (s # spans) (map Some vs) = Inr (map Some rs)"
    using rs(1) merge_all_step [OF Cons.prems(1) r(1,2), of spans] by simp
  ultimately show ?case using rs(2) by blast
qed auto

text \<open>
  C27. Ranges between keys of one length that are given in the ascending order of their starts are
  merged into ranges in ascending order with gaps between them. No key that lies in one of the given
  ranges is lost, and none is added, except the keys that have the end of a given range as a prefix
  when another given range starts right after them.
\<close>

theorem merge_ascending_covers:
  assumes "\<forall>s \<in> set spans. regular L s" "sorted (map (\<lambda>s. ToString (sp_start s)) spans)"
  shows "\<exists>rs. MergeAscending spans = Inr (map Some rs) \<and>
    sorted_wrt (\<lambda>a b. ToString (sp_end a) < ToString (sp_start b)) rs \<and>
    (\<forall>k. (\<exists>s \<in> set spans. in_span k s) \<longrightarrow> (\<exists>s \<in> set rs. in_span k s)) \<and>
    (\<forall>k. (\<exists>s \<in> set rs. in_span k s) \<longrightarrow> (\<exists>s \<in> set spans. in_span k s) \<or>
       (\<exists>a \<in> set spans. \<exists>b \<in> set spans. HasPrefix k (ToString (sp_end a)) \<and>
          ToString (PrefixEnd (sp_end a)) = ToString (sp_start b)))"
proof (cases "length spans \<le> 1")
  case True
  then have "sorted_wrt (\<lambda>a b. en a < st b) spans" by (cases spans) auto
  with True show ?thesis by (intro exI [of _ spans]) (simp add: MergeAscending_def)
next
  case False
  obtain rs where rs: "merge_all spans [] = Inr (map Some rs)" "ascending L rs"
    "\<forall>k. (\<exists>s \<in> set spans. in_span k s) \<longrightarrow> (\<exists>s \<in> set rs. in_span k s)"
    "\<forall>k. (\<exists>s \<in> set rs. in_span k s) \<longrightarrow> (\<exists>s \<in> set spans. in_span k s) \<or> (\<exists>a \<in> set spans. \<exists>b \<in> set spans. bridged k a b)"
    using merge_all_ascending [of L "[]" spans] assms by (auto simp: ascending_def)
  have "sorted_wrt (\<lambda>a b. en a < st b) rs"
    using rs(2) sorted_wrt_mono_rel [of rs sep "\<lambda>a b. en a < st b"] by (auto simp: ascending_def sep_def)
  with rs False show ?thesis unfolding bridged_def by (auto simp: MergeAscending_def)
qed

section \<open>Other ranges\<close>

definition doc_span :: "string \<Rightarrow> string \<Rightarrow> span" where
  "doc_span a b =
     (let k = (\<lambda>d. \<lparr>dk_CollectionID = ''1'', dk_InstanceType = ''v'', dk_DocKey = d, dk_FieldId = []\<rparr>)
      in NewSpan (k a) (k b))"

theorem merge_ascending_covers_witness:
  "\<exists>rs. MergeAscending [doc_span ''aa'' ''ab'', doc_span ''ca'' ''cb'', doc_span ''ca'' ''cd''] = Inr (map Some rs) \<and>
     (\<exists>s \<in> set rs. in_span ''/1/v/cb'' s)"
proof -
  let ?l = "[doc_span ''aa'' ''ab'', doc_span ''ca'' ''cb'', doc_span ''ca'' ''cd'']"
  have "\<forall>s \<in> set ?l. regular 7 s" "sorted (map (\<lambda>s. ToString (sp_start s)) ?l)" by code_simp+
  moreover have "in_span ''/1/v/cb'' (doc_span ''ca'' ''cd'')" by code_simp
  ultimately show ?thesis using merge_ascending_covers [of ?l 7] by auto
qed

text \<open>
  In another order ranges are lost, and merging may panic: a range before two others makes a copy
  of the first of them overwrite the second, and a range that covers three of four others makes
  \<^verbatim>\<open>removeBefore\<close> write out of range.
\<close>

theorem merge_ascending_unordered:
  "MergeAscending [doc_span ''ca'' ''cb'', doc_span ''ea'' ''eb'', doc_span ''aa'' ''ab''] =
     Inr [Some (doc_span ''aa'' ''ab''), Some (doc_span ''ca'' ''cb''), Some (doc_span ''ca'' ''cb'')] \<and>
   MergeAscending [doc_span ''ca'' ''cb'', doc_span ''ea'' ''eb'', doc_span ''ga'' ''gb'', doc_span ''ia'' ''ib'',
     doc_span ''aa'' ''gx''] = Inl GoPanic"
  by code_simp

text \<open>
  With keys of different lengths a key is lost although the ranges are given in ascending order: an
  end that has the end of another range as a prefix counts as being within that range.
\<close>

theorem merge_ascending_prefix_end:
  "MergeAscending [doc_span ''a'' ''c'', doc_span ''b'' ''cx''] = Inr [Some (doc_span ''a'' ''c'')] \<and>
   in_span ''/1/v/ca'' (doc_span ''b'' ''cx'') \<and> \<not> in_span ''/1/v/ca'' (doc_span ''a'' ''c'')"
  by code_simp

end
