(* ===== verification/PlanNodes.thy ===== *)
theory PlanNodes
  imports DocMapping Spans
begin

text \<open>
  The nodes of a request plan that filter, order, cut and cache documents (\<^verbatim>\<open>planner\<close>), the
  container of documents (\<^verbatim>\<open>db/container\<close>), the comparison of field values (\<^verbatim>\<open>db/base\<close>) and the
  loop that runs a plan. A node keeps its own state in front of the state of its source: the node
  with record \<open>n\<close> over a source in state \<open>s\<close> is in the state \<open>(n, s)\<close>. A call that never returns
  is \<open>None\<close>. A Go pair of a boolean and an error is the error, or the boolean when there is none.
\<close>

section \<open>The interface of a node\<close>

type_synonym ('s, 'a) pact = "'s \<Rightarrow> ((error + 'a) \<times> 's) option"

record 's planNode =
  pn_Init :: "('s, unit) pact"
  pn_Start :: "('s, unit) pact"
  pn_Spans :: "Spans \<Rightarrow> 's \<Rightarrow> 's"
  pn_Next :: "('s, bool) pact"
  pn_Value :: "'s \<Rightarrow> error + doc"
  pn_Close :: "('s, unit) pact"
  pn_DocumentMap :: "'s \<Rightarrow> DocumentMapping option"

text \<open>A call that a node passes on to its source.\<close>

definition on_source :: "('s, 'a) pact \<Rightarrow> ('n \<times> 's, 'a) pact" where
  "on_source f ns = map_option (\<lambda>(r, s). (r, (fst ns, s))) (f (snd ns))"

section \<open>Comparison of field values\<close>

definition compareNil :: "any \<Rightarrow> any \<Rightarrow> int" where
  "compareNil a b =
     (if a = Nil_any \<and> b = Nil_any then 0 else if b = Nil_any \<and> a \<noteq> Nil_any then 1 else - 1)"

definition compareBool :: "bool \<Rightarrow> bool \<Rightarrow> int" where
  "compareBool a b = (if a = b then 0 else if a \<and> \<not> b then 1 else - 1)"

definition compareInt :: "64 word \<Rightarrow> 64 word \<Rightarrow> int" where
  "compareInt a b = (if a = b then 0 else if sint b < sint a then 1 else - 1)"

definition compareUint :: "64 word \<Rightarrow> 64 word \<Rightarrow> int" where
  "compareUint a b = (if a = b then 0 else if b < a then 1 else - 1)"

definition compareFloat :: "float64 \<Rightarrow> float64 \<Rightarrow> int" where
  "compareFloat a b = (if f_eq a b then 0 else if f_lt b a then 1 else - 1)"

definition compareTime :: "int \<Rightarrow> int \<Rightarrow> int" where
  "compareTime a b = (if a = b then 0 else if b < a then 1 else - 1)"

definition compareString :: "string \<Rightarrow> string \<Rightarrow> int" where
  "compareString a b = (if a = b then 0 else if b < a then 1 else - 1)"

definition compareBytes :: "bytes \<Rightarrow> bytes \<Rightarrow> int" where
  "compareBytes a b = (if a = b then 0 else if b < a then 1 else - 1)"

text \<open>
  The type assertions panic on a value of another type; that of an \<^verbatim>\<open>int\<close> asks for an \<^verbatim>\<open>int64\<close>.
\<close>

definition Compare :: "any \<Rightarrow> any \<Rightarrow> error + int" where
  "Compare a b =
     (if a = Nil_any \<or> b = Nil_any then Inr (compareNil a b)
      else (case a of
        Bool v \<Rightarrow> (case b of Bool w \<Rightarrow> Inr (compareBool v w) | _ \<Rightarrow> Inl GoPanic)
      | GoInt v \<Rightarrow> (case b of Int64 w \<Rightarrow> Inr (compareInt v w) | _ \<Rightarrow> Inl GoPanic)
      | Int64 v \<Rightarrow> (case b of Int64 w \<Rightarrow> Inr (compareInt v w) | _ \<Rightarrow> Inl GoPanic)
      | Uint64 v \<Rightarrow> (case b of Uint64 w \<Rightarrow> Inr (compareUint v w) | _ \<Rightarrow> Inl GoPanic)
      | Float64 v \<Rightarrow> (case b of Float64 w \<Rightarrow> Inr (compareFloat v w) | _ \<Rightarrow> Inl GoPanic)
      | Time v \<Rightarrow> (case b of Time w \<Rightarrow> Inr (compareTime v w) | _ \<Rightarrow> Inl GoPanic)
      | Str v \<Rightarrow> (case b of Str w \<Rightarrow> Inr (compareString v w) | _ \<Rightarrow> Inl GoPanic)
      | ByteSlice v \<Rightarrow> (case b of ByteSlice w \<Rightarrow> Inr (compareBytes v w) | _ \<Rightarrow> Inl GoPanic)
      | _ \<Rightarrow> Inr 0))"

section \<open>Containers of documents\<close>

record DocumentContainer =
  dc_docs :: "doc list"

definition NewDocumentContainer :: "nat \<Rightarrow> DocumentContainer" where
  "NewDocumentContainer capacity = \<lparr>dc_docs = replicate capacity (MkDoc False [] 0)\<rparr>"

definition At :: "DocumentContainer \<Rightarrow> int \<Rightarrow> error + doc" where
  "At c index = (if 0 \<le> index \<and> nat index < length (dc_docs c) then Inr (dc_docs c ! nat index) else Inl GoPanic)"

definition Len :: "DocumentContainer \<Rightarrow> int" where
  "Len c = int (length (dc_docs c))"

definition AddDoc :: "DocumentContainer \<Rightarrow> doc \<Rightarrow> DocumentContainer" where
  "AddDoc c doc = (let copyDoc = Clone doc in c\<lparr>dc_docs := dc_docs c @ [copyDoc]\<rparr>)"

definition Swap :: "DocumentContainer \<Rightarrow> int \<Rightarrow> int \<Rightarrow> error + DocumentContainer" where
  "Swap c i j =
     (case At c i of
        Inl e \<Rightarrow> Inl e
      | Inr tmp \<Rightarrow>
          (case At c j of
             Inl e \<Rightarrow> Inl e
           | Inr d \<Rightarrow> Inr (c\<lparr>dc_docs := (dc_docs c)[nat i := d, nat j := tmp]\<rparr>)))"

definition Container_Close :: "DocumentContainer \<Rightarrow> DocumentContainer" where
  "Container_Close c = c\<lparr>dc_docs := []\<rparr>"

section \<open>Ordered values\<close>

datatype SortDirection = ASC | DESC

record OrderCondition =
  FieldIndexes :: "nat list"
  Direction :: SortDirection

record valuesNode =
  vn_ordering :: "OrderCondition list"
  vn_docs :: DocumentContainer
  vn_docIndex :: int

definition newContainerValuesNode :: "OrderCondition list \<Rightarrow> valuesNode" where
  "newContainerValuesNode orderings =
     \<lparr>vn_ordering = orderings, vn_docs = NewDocumentContainer 0, vn_docIndex = - 1\<rparr>"

definition values_Close :: "valuesNode \<Rightarrow> valuesNode" where
  "values_Close n = n\<lparr>vn_docs := Container_Close (vn_docs n)\<rparr>"

definition values_Next :: "valuesNode \<Rightarrow> bool \<times> valuesNode" where
  "values_Next n =
     (if vn_docIndex n \<ge> Len (vn_docs n) - 1 then (False, n) else (True, n\<lparr>vn_docIndex := vn_docIndex n + 1\<rparr>))"

definition values_Value :: "valuesNode \<Rightarrow> error + doc" where
  "values_Value n = At (vn_docs n) (vn_docIndex n)"

fun getMapPropList :: "doc \<Rightarrow> nat list \<Rightarrow> error + any" where
  "getMapPropList obj [] = Inl GoPanic"
| "getMapPropList obj (p # props) =
     (if p \<ge> length (Fields obj) then Inl GoPanic
      else if props = [] then Inr (Fields obj ! p)
      else (case Fields obj ! p of
              Nil_any \<Rightarrow> Inr Nil_any
            | Doc subObj \<Rightarrow> getMapPropList subObj props
            | _ \<Rightarrow> Inr Nil_any))"

definition getDocProp :: "doc \<Rightarrow> nat list \<Rightarrow> error + any" where
  "getDocProp obj prop' = (if prop' = [] then Inr Nil_any else getMapPropList obj prop')"

text \<open>Both branches of the loop's body return: the conditions after the first are not looked at.\<close>

fun docValueLess :: "OrderCondition list \<Rightarrow> doc \<Rightarrow> doc \<Rightarrow> error + bool" where
  "docValueLess [] docA docB = Inr False"
| "docValueLess (order # orderings) docA docB =
     (case getDocProp docA (FieldIndexes order) of
        Inl e \<Rightarrow> Inl e
      | Inr a \<Rightarrow>
          (case getDocProp docB (FieldIndexes order) of
             Inl e \<Rightarrow> Inl e
           | Inr b \<Rightarrow>
               (case Compare a b of
                  Inl e \<Rightarrow> Inl e
                | Inr compare \<Rightarrow>
                    if Direction order = DESC
                    then (if compare > 0 then Inr True else Inr False)
                    else (if compare < 0 then Inr True else Inr False))))"

definition values_Less :: "valuesNode \<Rightarrow> int \<Rightarrow> int \<Rightarrow> error + bool" where
  "values_Less n i j =
     (case At (vn_docs n) i of
        Inl e \<Rightarrow> Inl e
      | Inr da \<Rightarrow> (case At (vn_docs n) j of Inl e \<Rightarrow> Inl e | Inr db \<Rightarrow> docValueLess (vn_ordering n) da db))"

definition values_Swap :: "valuesNode \<Rightarrow> int \<Rightarrow> int \<Rightarrow> error + valuesNode" where
  "values_Swap n i j = map_sum id (\<lambda>c. n\<lparr>vn_docs := c\<rparr>) (Swap (vn_docs n) i j)"

definition values_Len :: "valuesNode \<Rightarrow> int" where
  "values_Len n = Len (vn_docs n)"

text \<open>
  \<^verbatim>\<open>sort.Stable\<close> as insertion sort, which is what it does up to twenty elements; beyond that it
  merges sorted blocks, with the same result where the comparison is a strict weak order.
\<close>

fun sift_down :: "valuesNode \<Rightarrow> nat \<Rightarrow> error + valuesNode" where
  "sift_down n 0 = Inr n"
| "sift_down n (Suc j) =
     (case values_Less n (int (Suc j)) (int j) of
        Inl e \<Rightarrow> Inl e
      | Inr lt' \<Rightarrow>
          if lt'
          then (case values_Swap n (int (Suc j)) (int j) of Inl e \<Rightarrow> Inl e | Inr n' \<Rightarrow> sift_down n' j)
          else Inr n)"

fun insertion_loop :: "valuesNode \<Rightarrow> nat list \<Rightarrow> error + valuesNode" where
  "insertion_loop n [] = Inr n"
| "insertion_loop n (i # is) = (case sift_down n i of Inl e \<Rightarrow> Inl e | Inr n' \<Rightarrow> insertion_loop n' is)"

definition SortAll :: "valuesNode \<Rightarrow> error + valuesNode" where
  "SortAll n = insertion_loop n [1..<nat (values_Len n)]"

text \<open>The node is a plan of its own: there is nothing to open, and nothing to start.\<close>

definition values_node :: "valuesNode planNode" where
  "values_node =
     \<lparr>pn_Init = (\<lambda>n. Some (Inr (), n)), pn_Start = (\<lambda>n. Some (Inr (), n)), pn_Spans = (\<lambda>_ n. n),
      pn_Next = (\<lambda>n. Some (case values_Next n of (b, n') \<Rightarrow> (Inr b, n'))), pn_Value = values_Value,
      pn_Close = (\<lambda>n. Some (Inr (), values_Close n)), pn_DocumentMap = (\<lambda>_. None)\<rparr>"

text \<open>The strategy that collects all documents, then sorts them.\<close>

record allSortStrategy =
  valueNode :: valuesNode

definition newAllSortStrategy :: "valuesNode \<Rightarrow> allSortStrategy" where
  "newAllSortStrategy v = \<lparr>valueNode = v\<rparr>"

definition strategy_Add :: "allSortStrategy \<Rightarrow> doc \<Rightarrow> allSortStrategy" where
  "strategy_Add s doc = s\<lparr>valueNode := (valueNode s)\<lparr>vn_docs := AddDoc (vn_docs (valueNode s)) doc\<rparr>\<rparr>"

definition strategy_Finish :: "allSortStrategy \<Rightarrow> error + allSortStrategy" where
  "strategy_Finish s = map_sum id (\<lambda>v. s\<lparr>valueNode := v\<rparr>) (SortAll (valueNode s))"

definition strategy_Next :: "allSortStrategy \<Rightarrow> bool \<times> allSortStrategy" where
  "strategy_Next s = (case values_Next (valueNode s) of (b, v) \<Rightarrow> (b, s\<lparr>valueNode := v\<rparr>))"

definition strategy_Value :: "allSortStrategy \<Rightarrow> error + doc" where
  "strategy_Value s = values_Value (valueNode s)"

definition strategy_Close :: "allSortStrategy \<Rightarrow> allSortStrategy" where
  "strategy_Close s = s\<lparr>valueNode := values_Close (valueNode s)\<rparr>"

section \<open>The node that orders\<close>

text \<open>
  \<^verbatim>\<open>valueIter\<close> becomes an alias of the strategy when the sorting is finished; from then on only
  the alias is used.
\<close>

record orderNode =
  on_mapping :: "DocumentMapping option"
  on_ordering :: "OrderCondition list"
  on_valueIter :: "allSortStrategy option"
  on_orderStrategy :: "allSortStrategy option"
  on_needSort :: bool
  on_iterations :: u64

definition OrderBy :: "DocumentMapping option \<Rightarrow> OrderCondition list option \<Rightarrow> orderNode option" where
  "OrderBy mapping n =
     (case n of
        None \<Rightarrow> None
      | Some conditions \<Rightarrow>
          Some \<lparr>on_mapping = mapping, on_ordering = conditions, on_valueIter = None, on_orderStrategy = None,
            on_needSort = True, on_iterations = 0\<rparr>)"

definition order_Init :: "'s planNode \<Rightarrow> (orderNode \<times> 's, unit) pact" where
  "order_Init plan ns =
     on_source (pn_Init plan) ((fst ns)\<lparr>on_needSort := True, on_orderStrategy := None\<rparr>, snd ns)"

partial_function (option) order_fill :: "'s planNode \<Rightarrow> (orderNode \<times> 's, unit) pact" where
  "order_fill plan ns =
     (let n = fst ns
      in if \<not> on_needSort n then Some (Inr (), ns)
         else
           (let strategy = (case on_orderStrategy n of
                  None \<Rightarrow> newAllSortStrategy (newContainerValuesNode (on_ordering n)) | Some st \<Rightarrow> st);
                n1 = n\<lparr>on_orderStrategy := Some strategy\<rparr>
            in Option.bind (pn_Next plan (snd ns)) (\<lambda>(r, s).
                 case r of
                   Inl e \<Rightarrow> Some (Inl e, (n1, s))
                 | Inr next' \<Rightarrow>
                     if \<not> next'
                     then (case strategy_Finish strategy of
                             Inl e \<Rightarrow> Some (Inl e, (n1, s))
                           | Inr st \<Rightarrow>
                               Some (Inr (), (n1\<lparr>on_orderStrategy := Some st, on_valueIter := Some st, on_needSort := False\<rparr>, s)))
                     else (case pn_Value plan s of
                             Inl e \<Rightarrow> Some (Inl e, (n1, s))
                           | Inr d \<Rightarrow> order_fill plan (n1\<lparr>on_orderStrategy := Some (strategy_Add strategy d)\<rparr>, s)))))"

definition order_Next :: "'s planNode \<Rightarrow> (orderNode \<times> 's, bool) pact" where
  "order_Next plan ns =
     Option.bind (order_fill plan ((fst ns)\<lparr>on_iterations := on_iterations (fst ns) + 1\<rparr>, snd ns)) (\<lambda>(r, (n, s)).
       case r of
         Inl e \<Rightarrow> Some (Inl e, (n, s))
       | Inr _ \<Rightarrow>
           (case on_valueIter n of
              None \<Rightarrow> Some (Inl GoPanic, (n, s))
            | Some iter \<Rightarrow>
                (case strategy_Next iter of (next', iter') \<Rightarrow> Some (Inr next', (n\<lparr>on_valueIter := Some iter'\<rparr>, s)))))"

definition order_Value :: "orderNode \<times> 's \<Rightarrow> error + doc" where
  "order_Value ns = (case on_valueIter (fst ns) of None \<Rightarrow> Inl GoPanic | Some iter \<Rightarrow> strategy_Value iter)"

definition order_Close :: "'s planNode \<Rightarrow> (orderNode \<times> 's, unit) pact" where
  "order_Close plan ns =
     Option.bind (pn_Close plan (snd ns)) (\<lambda>(r, s).
       case r of
         Inl e \<Rightarrow> Some (Inl e, (fst ns, s))
       | Inr _ \<Rightarrow>
           (case on_valueIter (fst ns) of
              Some iter \<Rightarrow> Some (Inr (), ((fst ns)\<lparr>on_valueIter := Some (strategy_Close iter)\<rparr>, s))
            | None \<Rightarrow> Some (Inr (), ((fst ns)\<lparr>on_orderStrategy := map_option strategy_Close (on_orderStrategy (fst ns))\<rparr>, s))))"

definition order_node :: "'s planNode \<Rightarrow> (orderNode \<times> 's) planNode" where
  "order_node plan =
     \<lparr>pn_Init = order_Init plan, pn_Start = on_source (pn_Start plan),
      pn_Spans = (\<lambda>spans ns. (fst ns, pn_Spans plan spans (snd ns))), pn_Next = order_Next plan,
      pn_Value = order_Value, pn_Close = order_Close plan, pn_DocumentMap = (\<lambda>ns. on_mapping (fst ns))\<rparr>"

section \<open>The node that cuts\<close>

record Limit =
  lim_Limit :: u64
  lim_Offset :: u64

record limitNode =
  ln_mapping :: "DocumentMapping option"
  ln_limit :: u64
  ln_offset :: u64
  ln_rowIndex :: u64
  ln_iterations :: u64

definition Planner_Limit :: "DocumentMapping option \<Rightarrow> Limit option \<Rightarrow> limitNode option" where
  "Planner_Limit mapping n =
     (case n of
        None \<Rightarrow> None
      | Some l \<Rightarrow>
          Some \<lparr>ln_mapping = mapping, ln_limit = lim_Limit l, ln_offset = lim_Offset l, ln_rowIndex = 0, ln_iterations = 0\<rparr>)"

definition limit_Init :: "'s planNode \<Rightarrow> (limitNode \<times> 's, unit) pact" where
  "limit_Init plan ns = on_source (pn_Init plan) ((fst ns)\<lparr>ln_rowIndex := 0\<rparr>, snd ns)"

partial_function (option) limit_skip :: "'s planNode \<Rightarrow> (limitNode \<times> 's, bool) pact" where
  "limit_skip plan ns =
     Option.bind (pn_Next plan (snd ns)) (\<lambda>(r, s).
       case r of
         Inl e \<Rightarrow> Some (Inl e, (fst ns, s))
       | Inr next' \<Rightarrow>
           if \<not> next' then Some (Inr False, (fst ns, s))
           else
             (let n = (fst ns)\<lparr>ln_rowIndex := ln_rowIndex (fst ns) + 1\<rparr>
              in if ln_rowIndex n > ln_offset n then Some (Inr True, (n, s)) else limit_skip plan (n, s)))"

definition limit_Next :: "'s planNode \<Rightarrow> (limitNode \<times> 's, bool) pact" where
  "limit_Next plan ns =
     (let n = (fst ns)\<lparr>ln_iterations := ln_iterations (fst ns) + 1\<rparr>
      in if ln_limit n \<noteq> 0 \<and> ln_rowIndex n \<ge> ln_limit n + ln_offset n then Some (Inr False, (n, snd ns))
         else limit_skip plan (n, snd ns))"

definition limit_node :: "'s planNode \<Rightarrow> (limitNode \<times> 's) planNode" where
  "limit_node plan =
     \<lparr>pn_Init = limit_Init plan, pn_Start = on_source (pn_Start plan),
      pn_Spans = (\<lambda>spans ns. (fst ns, pn_Spans plan spans (snd ns))), pn_Next = limit_Next plan,
      pn_Value = (\<lambda>ns. pn_Value plan (snd ns)), pn_Close = on_source (pn_Close plan),
      pn_DocumentMap = (\<lambda>ns. ln_mapping (fst ns))\<rparr>"

section \<open>The node that selects\<close>

record selectNode =
  sel_mapping :: "DocumentMapping option"
  sel_currentValue :: doc
  sel_filter :: "Filter option"
  sel_keys :: "string list option"
  sel_iterations :: u64
  sel_filterMatches :: u64

partial_function (option) select_loop :: "env \<Rightarrow> 's planNode \<Rightarrow> (selectNode \<times> 's, bool) pact" where
  "select_loop E plan ns =
     Option.bind (pn_Next plan (snd ns)) (\<lambda>(r, s).
       case r of
         Inl e \<Rightarrow> Some (Inl e, (fst ns, s))
       | Inr hasNext \<Rightarrow>
           if \<not> hasNext then Some (Inr False, (fst ns, s))
           else (case pn_Value plan s of
             Inl e \<Rightarrow> Some (Inl e, (fst ns, s))
           | Inr d \<Rightarrow>
               (let n = (fst ns)\<lparr>sel_currentValue := d\<rparr>
                in case RunFilter E (Doc d) (sel_filter n) of
                     Inl e \<Rightarrow> Some (Inl e, (n, s))
                   | Inr passes \<Rightarrow>
                       if \<not> passes then select_loop E plan (n, s)
                       else
                         (let n' = n\<lparr>sel_filterMatches := sel_filterMatches n + 1\<rparr>
                          in case sel_keys n' of
                               None \<Rightarrow> Some (Inr True, (n', s))
                             | Some keys \<Rightarrow>
                                 (case GetKey d of
                                    Inl e \<Rightarrow> Some (Inl e, (n', s))
                                  | Inr docKey \<Rightarrow>
                                      if docKey \<in> set keys then Some (Inr True, (n', s)) else select_loop E plan (n', s))))))"

definition select_Next :: "env \<Rightarrow> 's planNode \<Rightarrow> (selectNode \<times> 's, bool) pact" where
  "select_Next E plan ns = select_loop E plan ((fst ns)\<lparr>sel_iterations := sel_iterations (fst ns) + 1\<rparr>, snd ns)"

definition select_node :: "env \<Rightarrow> 's planNode \<Rightarrow> (selectNode \<times> 's) planNode" where
  "select_node E plan =
     \<lparr>pn_Init = on_source (pn_Init plan), pn_Start = on_source (pn_Start plan),
      pn_Spans = (\<lambda>spans ns. (fst ns, pn_Spans plan spans (snd ns))), pn_Next = select_Next E plan,
      pn_Value = (\<lambda>ns. Inr (sel_currentValue (fst ns))), pn_Close = on_source (pn_Close plan),
      pn_DocumentMap = (\<lambda>ns. sel_mapping (fst ns))\<rparr>"

section \<open>The node that caches\<close>

record pipeNode =
  pp_mapping :: "DocumentMapping option"
  pp_currentValue :: doc
  pp_docs :: DocumentContainer
  pp_docIndex :: int

definition newPipeNode :: "DocumentMapping option \<Rightarrow> pipeNode" where
  "newPipeNode docMap =
     \<lparr>pp_mapping = docMap, pp_currentValue = MkDoc False [] 0, pp_docs = NewDocumentContainer 0, pp_docIndex = - 1\<rparr>"

definition pipe_Init :: "'s planNode \<Rightarrow> (pipeNode \<times> 's, unit) pact" where
  "pipe_Init source ns =
     on_source (pn_Init source) ((fst ns)\<lparr>pp_docIndex := - 1, pp_docs := NewDocumentContainer 0\<rparr>, snd ns)"

partial_function (option) pipe_load :: "'s planNode \<Rightarrow> (pipeNode \<times> 's, bool) pact" where
  "pipe_load source ns =
     (if \<not> pp_docIndex (fst ns) \<ge> Len (pp_docs (fst ns)) - 1 then Some (Inr True, ns)
      else Option.bind (pn_Next source (snd ns)) (\<lambda>(r, s).
        case r of
          Inl e \<Rightarrow> Some (Inl e, (fst ns, s))
        | Inr hasNext \<Rightarrow>
            if \<not> hasNext then Some (Inr False, (fst ns, s))
            else (case pn_Value source s of
                    Inl e \<Rightarrow> Some (Inl e, (fst ns, s))
                  | Inr doc \<Rightarrow> pipe_load source ((fst ns)\<lparr>pp_docs := AddDoc (pp_docs (fst ns)) doc\<rparr>, s))))"

definition pipe_Next :: "'s planNode \<Rightarrow> (pipeNode \<times> 's, bool) pact" where
  "pipe_Next source ns =
     Option.bind (pipe_load source ns) (\<lambda>(r, (n, s)).
       case r of
         Inl e \<Rightarrow> Some (Inl e, (n, s))
       | Inr loaded \<Rightarrow>
           if \<not> loaded then Some (Inr False, (n, s))
           else
             (let n' = n\<lparr>pp_docIndex := pp_docIndex n + 1\<rparr>
              in case At (pp_docs n') (pp_docIndex n') of
                   Inl e \<Rightarrow> Some (Inl e, (n', s))
                 | Inr doc \<Rightarrow> Some (Inr True, (n'\<lparr>pp_currentValue := Clone doc\<rparr>, s))))"

definition pipe_node :: "'s planNode \<Rightarrow> (pipeNode \<times> 's) planNode" where
  "pipe_node source =
     \<lparr>pn_Init = pipe_Init source, pn_Start = on_source (pn_Start source),
      pn_Spans = (\<lambda>spans ns. (fst ns, pn_Spans source spans (snd ns))), pn_Next = pipe_Next source,
      pn_Value = (\<lambda>ns. Inr (pp_currentValue (fst ns))), pn_Close = on_source (pn_Close source),
      pn_DocumentMap = (\<lambda>ns. pp_mapping (fst ns))\<rparr>"

section \<open>Running a plan\<close>

partial_function (option) execute_loop ::
    "'s planNode \<Rightarrow> DocumentMapping option \<Rightarrow> bool \<Rightarrow> (string \<times> rendered) list list \<Rightarrow> ('s, (string \<times> rendered) list list) pact" where
  "execute_loop plan docMap hasNext docs s =
     (if \<not> hasNext then Some (Inr docs, s)
      else (case pn_Value plan s of
              Inl e \<Rightarrow> Some (Inl e, s)
            | Inr d \<Rightarrow>
                (case ToMap docMap d of
                   Inl e \<Rightarrow> Some (Inl e, s)
                 | Inr copy \<Rightarrow>
                     Option.bind (pn_Next plan s) (\<lambda>(r, s').
                       case r of
                         Inl e \<Rightarrow> Some (Inl e, s')
                       | Inr hasNext' \<Rightarrow> execute_loop plan docMap hasNext' (docs @ [copy]) s'))))"

definition executeRequest :: "'s planNode \<Rightarrow> ('s, (string \<times> rendered) list list) pact" where
  "executeRequest plan s =
     Option.bind (pn_Start plan s) (\<lambda>(r, s1).
       case r of
         Inl e \<Rightarrow> Some (Inl e, s1)
       | Inr _ \<Rightarrow>
           Option.bind (pn_Next plan s1) (\<lambda>(r', s2).
             case r' of
               Inl e \<Rightarrow> Some (Inl e, s2)
             | Inr hasNext \<Rightarrow> execute_loop plan (pn_DocumentMap plan s2) hasNext [] s2))"

end
