(* ===== verification/StableSort.thy ===== *)
theory StableSort
  imports PlanNodes "HOL-Library.Multiset" "HOL-Library.Option_ord"
begin

text \<open>
  Insertion sort on the documents of a container and what a stable sort is: a sorted permutation
  that keeps the order of equivalent elements, of which there is only one.
\<close>

section \<open>Stable sorting of lists\<close>

definition ins_right :: "('a \<Rightarrow> 'a \<Rightarrow> bool) \<Rightarrow> 'a list \<Rightarrow> 'a \<Rightarrow> 'a list" where
  "ins_right lss xs x = rev (dropWhile (lss x) (rev xs)) @ x # rev (takeWhile (lss x) (rev xs))"

definition stable_sort :: "('a \<Rightarrow> 'a \<Rightarrow> bool) \<Rightarrow> 'a list \<Rightarrow> 'a list" where
  "stable_sort lss xs = foldl (ins_right lss) [] xs"

text \<open>A strict weak order on a set.\<close>

definition swo_on :: "'a set \<Rightarrow> ('a \<Rightarrow> 'a \<Rightarrow> bool) \<Rightarrow> bool" where
  "swo_on A lss \<longleftrightarrow>
     (\<forall>x \<in> A. \<not> lss x x) \<and>
     (\<forall>x \<in> A. \<forall>y \<in> A. \<forall>z \<in> A. lss x y \<longrightarrow> lss y z \<longrightarrow> lss x z) \<and>
     (\<forall>x \<in> A. \<forall>y \<in> A. \<forall>z \<in> A. \<not> lss x y \<longrightarrow> \<not> lss y z \<longrightarrow> \<not> lss x z)"

definition same :: "('a \<Rightarrow> 'a \<Rightarrow> bool) \<Rightarrow> 'a \<Rightarrow> 'a \<Rightarrow> bool" where
  "same lss x y \<longleftrightarrow> \<not> lss x y \<and> \<not> lss y x"

definition stable_sorted :: "('a \<Rightarrow> 'a \<Rightarrow> bool) \<Rightarrow> 'a list \<Rightarrow> 'a list \<Rightarrow> bool" where
  "stable_sorted lss xs ys \<longleftrightarrow>
     mset ys = mset xs \<and> sorted_wrt (\<lambda>a b. \<not> lss b a) ys \<and>
     (\<forall>x \<in> set xs. filter (same lss x) ys = filter (same lss x) xs)"

lemma mset_ins_right [simp]: "mset (ins_right lss xs x) = add_mset x (mset xs)"
proof -
  have "mset (takeWhile (lss x) (rev xs)) + mset (dropWhile (lss x) (rev xs)) = mset xs"
    by (metis mset_append mset_rev takeWhile_dropWhile_id)
  then show ?thesis by (simp add: ins_right_def union_commute)
qed

lemma ins_right_snoc: "ins_right lss (xs @ [y]) x = (if lss x y then ins_right lss xs x @ [y] else xs @ [y, x])"
  by (simp add: ins_right_def)

lemma ins_right_Nil [simp]: "ins_right lss [] x = [x]"
  by (simp add: ins_right_def)

lemma set_ins_right [simp]: "set (ins_right lss xs x) = insert x (set xs)"
  by (metis mset_ins_right set_mset_add_mset_insert set_mset_mset)

lemma sorted_ins_right:
  assumes "swo_on A lss" "insert x (set xs) \<subseteq> A" "sorted_wrt (\<lambda>a b. \<not> lss b a) xs"
  shows "sorted_wrt (\<lambda>a b. \<not> lss b a) (ins_right lss xs x)"
  using assms(2,3)
proof (induction xs rule: rev_induct)
  case (snoc y xs)
  have A: "x \<in> A" "y \<in> A" "set xs \<subseteq> A" and s: "sorted_wrt (\<lambda>a b. \<not> lss b a) xs" "\<forall>z \<in> set xs. \<not> lss y z"
    using snoc.prems by (auto simp: sorted_wrt_append)
  show ?case
  proof (cases "lss x y")
    case True
    then have "\<not> lss y x" using assms(1) A unfolding swo_on_def by blast
    with True snoc.IH A s show ?thesis by (auto simp: ins_right_snoc sorted_wrt_append)
  next
    case False
    then have "\<forall>z \<in> set xs. \<not> lss x z" using assms(1) A s(2) unfolding swo_on_def by blast
    with False s show ?thesis by (auto simp: ins_right_snoc sorted_wrt_append)
  qed
qed simp

lemma filter_ins_right:
  assumes "swo_on A lss" "insert x (set xs) \<subseteq> A" "z \<in> A"
  shows "filter (same lss z) (ins_right lss xs x) =
    filter (same lss z) (xs @ [x])"
  using assms(2)
proof (induction xs rule: rev_induct)
  case (snoc y xs)
  have A: "x \<in> A" "y \<in> A" "z \<in> A" using snoc.prems assms(3) by auto
  have "\<not> (lss x y \<and> (\<not> lss z x \<and> \<not> lss x z) \<and> (\<not> lss z y \<and> \<not> lss y z))"
    using assms(1) A unfolding swo_on_def by blast
  then show ?case using snoc by (auto simp: ins_right_snoc same_def)
qed simp

lemma stable_sort_snoc [simp]: "stable_sort lss (xs @ [x]) = ins_right lss (stable_sort lss xs) x"
  by (simp add: stable_sort_def)

lemma mset_stable_sort [simp]: "mset (stable_sort lss xs) = mset xs"
  by (induction xs rule: rev_induct) (simp_all add: stable_sort_def)

lemma set_stable_sort [simp]: "set (stable_sort lss xs) = set xs"
  by (rule mset_eq_setD [OF mset_stable_sort])

lemma stable_sortedD: "stable_sorted lss xs ys \<Longrightarrow> x \<in> set xs \<Longrightarrow> filter (same lss x) ys = filter (same lss x) xs"
  by (simp add: stable_sorted_def)

lemma stable_sort_stable_sorted:
  assumes "swo_on (set xs) lss"
  shows "stable_sorted lss xs (stable_sort lss xs)"
proof -
  have "set ys \<subseteq> set xs \<Longrightarrow> sorted_wrt (\<lambda>a b. \<not> lss b a) (stable_sort lss ys) \<and>
     (\<forall>x \<in> set xs. filter (same lss x) (stable_sort lss ys) =
        filter (same lss x) ys)" for ys
  proof (induction ys rule: rev_induct)
    case (snoc y ys)
    then show ?case
      using sorted_ins_right [OF assms, of y "stable_sort lss ys"] filter_ins_right [OF assms, of y "stable_sort lss ys"]
      by auto
  qed (simp add: stable_sort_def)
  from this [of xs] show ?thesis by (simp add: stable_sorted_def)
qed

text \<open>There is one stable sorted list only, so the way of sorting does not matter.\<close>

lemma stable_sorted_hd:
  assumes "swo_on (set xs) lss" "stable_sorted lss xs (a # as)" "stable_sorted lss xs (b # bs)"
  shows "a = b"
proof -
  have s: "set (a # as) = set xs" "set (b # bs) = set xs"
    using assms(2,3) by (metis stable_sorted_def mset_eq_setD)+
  then have m: "a \<in> set (b # bs)" "b \<in> set (a # as)" "a \<in> set xs" "b \<in> set xs" by auto
  have "\<not> lss a a" "\<not> lss b b" using assms(1) m unfolding swo_on_def by blast+
  moreover have "a = b \<or> \<not> lss b a" "a = b \<or> \<not> lss a b" using assms(2,3) m by (auto simp: stable_sorted_def)
  ultimately have "filter (same lss a) (a # as) = a # filter (same lss a) as"
    "filter (same lss a) (b # bs) = b # filter (same lss a) bs"
    by (auto simp: same_def)
  moreover have "filter (same lss a) (a # as) = filter (same lss a) (b # bs)"
    using stable_sortedD [OF assms(2) m(3)] stable_sortedD [OF assms(3) m(3)] by (rule trans [OF _ sym])
  ultimately show ?thesis by simp
qed

lemma stable_sorted_unique:
  "swo_on (set xs) lss \<Longrightarrow> stable_sorted lss xs ys \<Longrightarrow> stable_sorted lss xs zs \<Longrightarrow> ys = zs"
proof (induction ys arbitrary: xs zs)
  case Nil
  then show ?case by (auto simp: stable_sorted_def)
next
  case (Cons a as)
  from Cons.prems(2,3) obtain b bs where zs: "zs = b # bs" by (cases zs) (auto simp: stable_sorted_def)
  have ab: "b = a" using stable_sorted_hd [OF Cons.prems(1,2)] Cons.prems(3) zs by auto
  have ss: "set xs = set (a # as)" using Cons.prems(2) by (metis stable_sorted_def mset_eq_setD)
  have "filter (same lss x) (a # as) = filter (same lss x) (a # bs)"
    if "x \<in> set as" for x
  proof -
    from that ss have x: "x \<in> set xs" by simp
    show ?thesis
      using stable_sortedD [OF Cons.prems(2) x] stable_sortedD [OF Cons.prems(3) [unfolded zs ab] x] by (rule trans [OF _ sym])
  qed
  then have "filter (same lss x) as = filter (same lss x) bs" if "x \<in> set as" for x
    using that by (fastforce split: if_splits)
  moreover have "mset bs = mset as"
    using Cons.prems(2,3) by (metis ab add_mset_add_mset_same_iff mset.simps(2) stable_sorted_def zs)
  moreover have "sorted_wrt (\<lambda>a b. \<not> lss b a) as" "sorted_wrt (\<lambda>a b. \<not> lss b a) bs"
    using Cons.prems(2,3) by (simp_all add: stable_sorted_def zs)
  ultimately have tail: "stable_sorted lss as as" "stable_sorted lss as bs" by (simp_all add: stable_sorted_def)
  have "swo_on (set as) lss"
    using Cons.prems(1) unfolding ss swo_on_def by (meson list.set_intros(2))
  from Cons.IH [OF this tail] show ?case by (simp add: zs ab)
qed

section \<open>Sorting a container\<close>

definition doc_less :: "OrderCondition list \<Rightarrow> doc \<Rightarrow> doc \<Rightarrow> bool" where
  "doc_less ord a b \<longleftrightarrow> docValueLess ord a b = Inr True"

definition compares :: "OrderCondition list \<Rightarrow> doc set \<Rightarrow> bool" where
  "compares ord A \<longleftrightarrow> (\<forall>a \<in> A. \<forall>b \<in> A. \<exists>r. docValueLess ord a b = Inr r)"

lemma compares_less: "compares ord A \<Longrightarrow> a \<in> A \<Longrightarrow> b \<in> A \<Longrightarrow> docValueLess ord a b = Inr (doc_less ord a b)"
  by (force simp: compares_def doc_less_def)

abbreviation with_docs :: "valuesNode \<Rightarrow> doc list \<Rightarrow> valuesNode" where
  "with_docs n ds \<equiv> n\<lparr>vn_docs := \<lparr>dc_docs = ds\<rparr>\<rparr>"

lemma sift_down_ins:
  assumes "compares (vn_ordering n) A" "insert x (set xs) \<subseteq> A"
  shows "sift_down (with_docs n (xs @ x # ys)) (length xs) =
    Inr (with_docs n (ins_right (doc_less (vn_ordering n)) xs x @ ys))"
  using assms(2)
proof (induction xs arbitrary: ys rule: rev_induct)
  case (snoc y xs)
  have at: "At \<lparr>dc_docs = xs @ y # x # ys\<rparr> (int (Suc (length xs))) = Inr x"
    "At \<lparr>dc_docs = xs @ y # x # ys\<rparr> (int (length xs)) = Inr y"
    by (simp_all add: At_def nth_append nat_add_distrib del: of_nat_Suc)
  have sw: "values_Swap (with_docs n (xs @ y # x # ys)) (int (Suc (length xs))) (int (length xs)) =
      Inr (with_docs n (xs @ x # y # ys))"
    by (simp add: values_Swap_def Swap_def at list_update_append del: of_nat_Suc)
  have less: "values_Less (with_docs n (xs @ y # x # ys)) (int (Suc (length xs))) (int (length xs)) =
      Inr (doc_less (vn_ordering n) x y)"
    using compares_less [OF assms(1), of x y] snoc.prems by (simp add: values_Less_def at del: of_nat_Suc)
  from snoc.IH [of "y # ys"] snoc.prems show ?case by (simp add: less sw ins_right_snoc del: of_nat_Suc)
qed simp

lemma insertion_loop_sorts:
  assumes "compares (vn_ordering n) A" "set (sorted' @ rest) \<subseteq> A"
  shows "insertion_loop (with_docs n (sorted' @ rest)) [length sorted'..<length sorted' + length rest] =
    Inr (with_docs n (foldl (ins_right (doc_less (vn_ordering n))) sorted' rest))"
  using assms(2)
proof (induction rest arbitrary: sorted')
  case (Cons x rest)
  let ?s = "ins_right (doc_less (vn_ordering n)) sorted' x"
  have l: "length ?s = Suc (length sorted')" by (metis length_Cons mset.simps(2) mset_eq_length mset_ins_right)
  have u: "[length sorted'..<length sorted' + length (x # rest)] = length sorted' # [length ?s..<length ?s + length rest]"
    by (simp add: upt_conv_Cons l del: upt_Suc)
  from Cons.IH [of ?s] Cons.prems sift_down_ins [OF assms(1), of x sorted' rest] show ?case
    unfolding u by simp
qed simp

lemma SortAll_stable:
  assumes "compares (vn_ordering n) (set (dc_docs (vn_docs n)))"
  shows "SortAll n = Inr (n\<lparr>vn_docs := \<lparr>dc_docs = stable_sort (doc_less (vn_ordering n)) (dc_docs (vn_docs n))\<rparr>\<rparr>)"
proof (cases "dc_docs (vn_docs n)")
  case Nil
  then show ?thesis by (cases n; cases "vn_docs n") (simp add: SortAll_def values_Len_def Len_def stable_sort_def)
next
  case (Cons d ds)
  have n: "n = with_docs n (d # ds)" using Cons by (cases n; cases "vn_docs n") simp
  from insertion_loop_sorts [of n "set (d # ds)" "[d]" ds] assms Cons n show ?thesis
    by (simp add: SortAll_def values_Len_def Len_def stable_sort_def nat_add_distrib)
qed

section \<open>Values that can be ordered\<close>

text \<open>The kinds of values that \<^verbatim>\<open>Compare\<close> orders; a floating-point number must be a number.\<close>

definition kind :: "any \<Rightarrow> nat" where
  "kind v = (case v of Bool _ \<Rightarrow> 1 | Int64 _ \<Rightarrow> 2 | Uint64 _ \<Rightarrow> 3 | Float64 x \<Rightarrow> if x = NaN then 0 else 4
     | Time _ \<Rightarrow> 5 | Str _ \<Rightarrow> 6 | ByteSlice _ \<Rightarrow> 7 | _ \<Rightarrow> 0)"

definition one_kind :: "any set \<Rightarrow> bool" where
  "one_kind V \<longleftrightarrow> (\<exists>k > 0. \<forall>v \<in> V. v = Nil_any \<or> kind v = k)"

lemma Compare_Nil [simp]:
  "Compare Nil_any Nil_any = Inr 0" "v \<noteq> Nil_any \<Longrightarrow> Compare v Nil_any = Inr 1" "v \<noteq> Nil_any \<Longrightarrow> Compare Nil_any v = Inr (- 1)"
  by (simp_all add: Compare_def compareNil_def)

text \<open>
  What the values stand for, as a sequence of numbers compared lexicographically: a missing value is
  less than any other, \<^verbatim>\<open>false\<close> is less than \<^verbatim>\<open>true\<close>, numbers and times go by their value, strings by
  the codes of their characters and byte slices by their bytes.
\<close>

definition value_key :: "any \<Rightarrow> rat list" where
  "value_key v = (case v of
       Bool x \<Rightarrow> [0, if x then 1 else 0]
     | Int64 x \<Rightarrow> [0, of_int (sint x)]
     | Uint64 x \<Rightarrow> [0, of_int (uint x)]
     | Float64 x \<Rightarrow> (case x of NegInf \<Rightarrow> [- 1] | Fin r \<Rightarrow> [0, r] | PosInf \<Rightarrow> [1] | NaN \<Rightarrow> [])
     | Time x \<Rightarrow> [0, of_int x]
     | Str x \<Rightarrow> 0 # map (\<lambda>c. of_nat (of_char c)) x
     | ByteSlice x \<Rightarrow> 0 # map (\<lambda>b. of_nat (unat b)) x
     | _ \<Rightarrow> [])"

lemma map_mono_less:
  fixes f :: "'a :: linorder \<Rightarrow> 'b :: linorder"
  assumes "\<And>x y. f x < f y \<longleftrightarrow> x < y"
  shows "map f xs < map f ys \<longleftrightarrow> xs < ys" and "map f xs = map f ys \<longleftrightarrow> xs = ys"
proof -
  have eq: "f x = f y \<longleftrightarrow> x = y" for x y using assms by (metis less_irrefl neq_iff)
  show "map f xs < map f ys \<longleftrightarrow> xs < ys"
  proof (induction xs arbitrary: ys)
    case Nil
    then show ?case by (cases ys) simp_all
  next
    case (Cons x xs)
    then show ?case by (cases ys) (simp_all add: assms eq)
  qed
  show "map f xs = map f ys \<longleftrightarrow> xs = ys" using eq by (intro inj_map_eq_map injI) simp
qed

lemma char_key: "(of_nat (of_char c) :: rat) < of_nat (of_char d) \<longleftrightarrow> c < d"
  by (simp add: less_char_def)

lemma byte_key: "(of_nat (unat (b :: byte)) :: rat) < of_nat (unat c) \<longleftrightarrow> b < c"
  by (simp only: of_nat_less_iff word_less_nat_alt)

lemma float_key:
  assumes "x \<noteq> NaN" and "y \<noteq> NaN"
  shows "value_key (Float64 x) < value_key (Float64 y) \<longleftrightarrow> f_lt x y"
    and "value_key (Float64 x) = value_key (Float64 y) \<longleftrightarrow> f_eq x y"
  using assms by (cases x; cases y; simp add: value_key_def f_eq_def)+

lemma kind_values:
  "kind v = 1 \<Longrightarrow> \<exists>x. v = Bool x" "kind v = 2 \<Longrightarrow> \<exists>x. v = Int64 x"
  "kind v = 3 \<Longrightarrow> \<exists>x. v = Uint64 x" "kind v = 4 \<Longrightarrow> \<exists>x. v = Float64 x \<and> x \<noteq> NaN"
  "kind v = 5 \<Longrightarrow> \<exists>x. v = Time x" "kind v = 6 \<Longrightarrow> \<exists>x. v = Str x"
  "kind v = 7 \<Longrightarrow> \<exists>x. v = ByteSlice x" "kind v \<le> 7"
  by (cases v; simp add: kind_def split: if_splits)+

lemma Compare_same_kind:
  assumes "kind a = kind b" and "kind a \<noteq> 0"
  shows "Compare a b = Inr (if value_key a = value_key b then 0 else if value_key b < value_key a then 1 else - 1)"
proof -
  have "kind a = 1 \<or> kind a = 2 \<or> kind a = 3 \<or> kind a = 4 \<or> kind a = 5 \<or> kind a = 6 \<or> kind a = 7"
    using assms(2) kind_values(8) [of a] by arith
  then show ?thesis
  proof (elim disjE)
    assume k: "kind a = 1"
    then obtain x y where "a = Bool x" "b = Bool y" using kind_values(1) assms by metis
    then show ?thesis by (auto simp: Compare_def compareBool_def value_key_def)
  next
    assume k: "kind a = 2"
    then obtain x y where "a = Int64 x" "b = Int64 y" using kind_values(2) assms by metis
    then show ?thesis by (auto simp: Compare_def compareInt_def value_key_def simp del: of_int_sint dest: signed_word_eqI)
  next
    assume k: "kind a = 3"
    then obtain x y where "a = Uint64 x" "b = Uint64 y" using kind_values(3) assms by metis
    then show ?thesis by (auto simp: Compare_def compareUint_def value_key_def word_less_def word_uint_eq_iff simp del: of_int_uint)
  next
    assume k: "kind a = 4"
    then obtain x y where "a = Float64 x" "b = Float64 y" "x \<noteq> NaN" "y \<noteq> NaN" using kind_values(4) assms by metis
    then show ?thesis by (auto simp: Compare_def compareFloat_def float_key)
  next
    assume k: "kind a = 5"
    then obtain x y where "a = Time x" "b = Time y" using kind_values(5) assms by metis
    then show ?thesis by (auto simp: Compare_def compareTime_def value_key_def)
  next
    assume k: "kind a = 6"
    then obtain x y where "a = Str x" "b = Str y" using kind_values(6) assms by metis
    then show ?thesis
      using map_mono_less [of "\<lambda>c. of_nat (of_char c) :: rat", OF char_key]
      by (auto simp: Compare_def compareString_def value_key_def)
  next
    assume k: "kind a = 7"
    then obtain x y where "a = ByteSlice x" "b = ByteSlice y" using kind_values(7) assms by metis
    then show ?thesis
      using map_mono_less [of "\<lambda>b. of_nat (unat b) :: rat", OF byte_key]
      by (auto simp: Compare_def compareBytes_def value_key_def)
  qed
qed

lemma value_key_ne: "kind v \<noteq> 0 \<Longrightarrow> value_key v \<noteq> []"
  by (cases v) (auto simp: kind_def value_key_def split: float64.splits if_splits)

lemma one_kind_Compare:
  assumes "one_kind V" and "a \<in> V" and "b \<in> V"
  shows "Compare a b = Inr (if value_key a = value_key b then 0 else if value_key b < value_key a then 1 else - 1)"
proof -
  obtain k where k: "k > 0" "\<And>v. v \<in> V \<Longrightarrow> v = Nil_any \<or> kind v = k" using assms(1) by (auto simp: one_kind_def)
  have nil: "value_key Nil_any = []" by (simp add: value_key_def)
  have ne: "value_key v \<noteq> []" "v \<noteq> Nil_any" "[] < value_key v" "\<not> value_key v < []" if "kind v = k" for v
  proof -
    show "value_key v \<noteq> []" using that k(1) by (intro value_key_ne) simp
    then show "[] < value_key v" "\<not> value_key v < []" by (cases "value_key v"; simp)+
    show "v \<noteq> Nil_any" using that k(1) by (auto simp: kind_def)
  qed
  from k(2) [OF assms(2)] k(2) [OF assms(3)] show ?thesis
  proof (elim disjE)
    assume "kind a = k" "kind b = k"
    with k(1) show ?thesis by (intro Compare_same_kind) simp_all
  next
    assume "a = Nil_any" "kind b = k"
    then show ?thesis using ne [of b] by (simp add: nil)
  next
    assume "kind a = k" "b = Nil_any"
    then show ?thesis using ne [of a] by (simp add: nil)
  qed simp
qed

text \<open>Documents whose values of the first condition are of one kind.\<close>

definition sortable :: "OrderCondition list \<Rightarrow> doc set \<Rightarrow> bool" where
  "sortable ord A \<longleftrightarrow>
     (case ord of
        [] \<Rightarrow> True
      | o1 # _ \<Rightarrow> \<exists>V. one_kind V \<and> (\<forall>d \<in> A. \<exists>v \<in> V. getDocProp d (FieldIndexes o1) = Inr v))"

text \<open>
  The order that is asked for: by the first condition, ascending or descending, documents with equal
  values in the order they came.
\<close>

definition order_value :: "OrderCondition \<Rightarrow> doc \<Rightarrow> rat list" where
  "order_value o1 d = (case getDocProp d (FieldIndexes o1) of Inr v \<Rightarrow> value_key v | Inl _ \<Rightarrow> [])"

definition sorted_by :: "OrderCondition list \<Rightarrow> doc list \<Rightarrow> doc list" where
  "sorted_by ord ds =
     (case ord of
        [] \<Rightarrow> ds
      | o1 # _ \<Rightarrow> if Direction o1 = DESC then rev (sort_key (order_value o1) (rev ds)) else sort_key (order_value o1) ds)"

lemma sortable_less:
  assumes "sortable ord A" and "a \<in> A" and "b \<in> A"
  shows "docValueLess ord a b = Inr (case ord of [] \<Rightarrow> False
     | o1 # _ \<Rightarrow> if Direction o1 = DESC then order_value o1 b < order_value o1 a else order_value o1 a < order_value o1 b)"
proof (cases ord)
  case (Cons o1 ord')
  with assms(1) obtain V where V: "one_kind V" "\<And>d. d \<in> A \<Longrightarrow> \<exists>v \<in> V. getDocProp d (FieldIndexes o1) = Inr v"
    by (auto simp: sortable_def)
  obtain v w where "v \<in> V" "w \<in> V" "getDocProp a (FieldIndexes o1) = Inr v" "getDocProp b (FieldIndexes o1) = Inr w"
    using V(2) assms(2,3) by metis
  with one_kind_Compare [OF V(1)] show ?thesis by (auto simp: Cons order_value_def)
qed simp

lemma sortable_order:
  assumes "sortable ord A"
  shows "compares ord A" and "swo_on A (doc_less ord)"
proof -
  show "compares ord A" using sortable_less [OF assms] by (simp add: compares_def)
  show "swo_on A (doc_less ord)"
    using sortable_less [OF assms] by (cases ord) (auto simp: swo_on_def doc_less_def)
qed

lemma sorted_by_stable:
  assumes "sortable ord (set ds)"
  shows "stable_sorted (doc_less ord) ds (sorted_by ord ds)"
proof (cases ord)
  case Nil
  then show ?thesis by (simp add: stable_sorted_def sorted_by_def doc_less_def sorted_wrt_iff_nth_less)
next
  case (Cons o1 ord')
  let ?f = "order_value o1"
  have less: "doc_less ord a b \<longleftrightarrow> (if Direction o1 = DESC then ?f b < ?f a else ?f a < ?f b)" if "a \<in> set ds" "b \<in> set ds" for a b
    using sortable_less [OF assms that] by (simp add: doc_less_def Cons)
  have same: "same (doc_less ord) a b \<longleftrightarrow> ?f b = ?f a" if "a \<in> set ds" "b \<in> set ds" for a b
    using less [OF that] less [OF that(2,1)] by (auto simp: same_def)
  have m: "mset (sorted_by ord ds) = mset ds" by (simp add: sorted_by_def Cons)
  then have mem: "set (sorted_by ord ds) = set ds" by (rule mset_eq_setD)
  have srt: "sorted (map ?f (sort_key ?f xs))" for xs by simp
  have "sorted_wrt (\<lambda>a b. if Direction o1 = DESC then ?f b \<le> ?f a else ?f a \<le> ?f b) (sorted_by ord ds)"
    using srt [of ds] srt [of "rev ds"] by (simp add: sorted_by_def Cons sorted_wrt_map sorted_wrt_rev)
  then have "sorted_wrt (\<lambda>a b. \<not> doc_less ord b a) (sorted_by ord ds)"
    by (rule sorted_wrt_mono_rel [rotated]) (use mem less in \<open>auto simp: not_less split: if_splits\<close>)
  moreover have "filter (same (doc_less ord) x) (sorted_by ord ds) = filter (same (doc_less ord) x) ds" if "x \<in> set ds" for x
  proof -
    have "filter (same (doc_less ord) x) ys = filter (\<lambda>y. ?f y = ?f x) ys" if "set ys \<subseteq> set ds" for ys
      using same \<open>x \<in> set ds\<close> that by (intro filter_cong) auto
    moreover have "filter (\<lambda>y. ?f y = ?f x) (sorted_by ord ds) = filter (\<lambda>y. ?f y = ?f x) ds"
      by (simp add: sorted_by_def Cons sort_key_stable rev_filter [symmetric])
    ultimately show ?thesis using mem by simp
  qed
  ultimately show ?thesis using m by (simp add: stable_sorted_def)
qed

lemma stable_sort_sorted_by:
  assumes "sortable ord (set ds)"
  shows "stable_sort (doc_less ord) ds = sorted_by ord ds"
  using stable_sorted_unique [OF sortable_order(2) [OF assms] stable_sort_stable_sorted [OF sortable_order(2) [OF assms]] sorted_by_stable [OF assms]] .

end
