(* ===== verification/PlanSpec.thy ===== *)
theory PlanSpec
  imports StableSort
begin

text \<open>
  What the nodes of a plan promise: a node in a state yields a list of documents and then ends. The
  contract is a locale; every node over a source that keeps it keeps it itself, with the list it
  makes of the list of its source.
\<close>

section \<open>The contract\<close>

lemma execute_loop_end [simp]: "execute_loop N m False docs s = Some (Inr docs, s)"
  by (subst execute_loop.simps) simp

locale plan_source =
  fixes N :: "'s planNode" and opened :: "'s \<Rightarrow> doc list \<Rightarrow> bool" and yields :: "'s \<Rightarrow> doc list \<Rightarrow> bool"
  assumes Next_end: "yields s [] \<Longrightarrow> \<exists>s'. pn_Next N s = Some (Inr False, s')"
    and Next_more: "yields s (d # ds) \<Longrightarrow> \<exists>s'. pn_Next N s = Some (Inr True, s') \<and> pn_Value N s' = Inr d \<and>
      pn_DocumentMap N s' = pn_DocumentMap N s \<and> yields s' ds"
    and Start: "opened s ds \<Longrightarrow> \<exists>s'. pn_Start N s = Some (Inr (), s') \<and>
      pn_DocumentMap N s' = pn_DocumentMap N s \<and> yields s' ds"
begin

lemma execute_loop_yields:
  assumes "yields s ds" "list_all2 (\<lambda>d r. ToMap m d = Inr r) ds rs" "pn_Value N s = Inr d0" "ToMap m d0 = Inr r0"
  shows "\<exists>s'. execute_loop N m True docs s = Some (Inr (docs @ r0 # rs), s')"
  using assms
proof (induction ds arbitrary: s rs d0 r0 docs)
  case Nil
  from Next_end [OF Nil.prems(1)] obtain s' where "pn_Next N s = Some (Inr False, s')" ..
  with Nil.prems show ?case by (subst execute_loop.simps) simp
next
  case (Cons d ds)
  from Cons.prems(2) obtain r rs' where rs: "rs = r # rs'" "ToMap m d = Inr r" "list_all2 (\<lambda>d r. ToMap m d = Inr r) ds rs'"
    by (auto simp: list_all2_Cons1)
  from Next_more [OF Cons.prems(1)] obtain s' where s':
    "pn_Next N s = Some (Inr True, s')" "pn_Value N s' = Inr d" "yields s' ds" by blast
  from Cons.IH [OF s'(3) rs(3) s'(2) rs(2), of "docs @ [r0]"] obtain s'' where
    "execute_loop N m True (docs @ [r0]) s' = Some (Inr ((docs @ [r0]) @ r # rs'), s'')" ..
  with Cons.prems(3,4) s'(1) rs(1) show ?case by (subst execute_loop.simps) simp
qed

text \<open>Running a plan renders the documents it yields, in their order, and ends.\<close>

lemma executeRequest_yields:
  assumes "opened s ds" "list_all2 (\<lambda>d r. ToMap (pn_DocumentMap N s) d = Inr r) ds rs"
  shows "\<exists>s'. executeRequest N s = Some (Inr rs, s')"
proof -
  from Start [OF assms(1)] obtain s1 where s1: "pn_Start N s = Some (Inr (), s1)"
    "pn_DocumentMap N s1 = pn_DocumentMap N s" "yields s1 ds" by blast
  show ?thesis
  proof (cases ds)
    case Nil
    from Next_end [OF s1(3) [unfolded Nil]] s1 assms(2) Nil show ?thesis
      by (auto simp: executeRequest_def)
  next
    case (Cons d ds')
    from assms(2) obtain r rs' where rs: "rs = r # rs'" "ToMap (pn_DocumentMap N s) d = Inr r"
      "list_all2 (\<lambda>d r. ToMap (pn_DocumentMap N s) d = Inr r) ds' rs'"
      by (auto simp: Cons list_all2_Cons1)
    from Next_more [OF s1(3) [unfolded Cons]] obtain s2 where s2: "pn_Next N s1 = Some (Inr True, s2)" "pn_Value N s2 = Inr d"
      "pn_DocumentMap N s2 = pn_DocumentMap N s1" "yields s2 ds'" by blast
    from execute_loop_yields [OF s2(4) rs(3) s2(2) rs(2), of "[]"] s1 s2 show ?thesis
      by (auto simp: executeRequest_def rs(1))
  qed
qed

end

section \<open>Values\<close>

definition values_yields :: "valuesNode \<Rightarrow> doc list \<Rightarrow> bool" where
  "values_yields n ds \<longleftrightarrow>
     (\<exists>k \<le> length (dc_docs (vn_docs n)). vn_docIndex n = int k - 1 \<and> ds = drop k (dc_docs (vn_docs n)))"

lemma values_Next_end: "values_yields n [] \<Longrightarrow> values_Next n = (False, n)"
  by (auto simp: values_yields_def values_Next_def Len_def)

lemma values_Next_more:
  assumes "values_yields n (d # ds)"
  shows "\<exists>n'. values_Next n = (True, n') \<and> values_Value n' = Inr d \<and> values_yields n' ds"
proof -
  obtain k where k: "vn_docIndex n = int k - 1" "d # ds = drop k (dc_docs (vn_docs n))"
    using assms by (auto simp: values_yields_def)
  have l: "k < length (dc_docs (vn_docs n))" using k(2) by (metis drop_all leI list.distinct(1))
  have d: "dc_docs (vn_docs n) ! k = d" "ds = drop (Suc k) (dc_docs (vn_docs n))"
    using k(2) l Cons_nth_drop_Suc [OF l] by (metis list.inject)+
  let ?n = "n\<lparr>vn_docIndex := int k\<rparr>"
  have "values_Next n = (True, ?n)" using k l by (simp add: values_Next_def Len_def)
  moreover have "values_Value ?n = Inr d" using l d by (simp add: values_Value_def At_def)
  moreover have "values_yields ?n ds" using l d by (auto simp: values_yields_def intro!: exI [of _ "Suc k"])
  ultimately show ?thesis by blast
qed

interpretation values_plan: plan_source values_node values_yields values_yields
proof (unfold_locales, goal_cases)
  case (1 s)
  then show ?case by (simp add: values_node_def values_Next_end)
next
  case (2 s d ds)
  from values_Next_more [OF this] show ?case by (auto simp: values_node_def)
next
  case (3 s ds)
  then show ?case by (simp add: values_node_def)
qed

section \<open>Limits\<close>

lemma limit_skip_end:
  assumes "plan_source N Z Y"
  shows "Y s ds \<Longrightarrow> unat (ln_rowIndex n) + length ds < 2 ^ 64 \<Longrightarrow>
    drop (unat (ln_offset n) - unat (ln_rowIndex n)) ds = [] \<Longrightarrow> \<exists>ns'. limit_skip N (n, s) = Some (Inr False, ns')"
proof (induction ds arbitrary: n s)
  case Nil
  from plan_source.Next_end [OF assms Nil(1)] show ?case by (subst limit_skip.simps) auto
next
  case (Cons d ds)
  let ?n = "n\<lparr>ln_rowIndex := ln_rowIndex n + 1\<rparr>"
  have i: "unat (ln_rowIndex ?n) = Suc (unat (ln_rowIndex n))"
    using Cons.prems(2) by (simp add: unat_word_ariths)
  have o: "unat (ln_rowIndex n) < unat (ln_offset n)" "\<not> ln_rowIndex ?n > ln_offset ?n"
    using Cons.prems(3) i by (auto simp: word_less_nat_alt split: if_splits)
  from plan_source.Next_more [OF assms Cons.prems(1)] obtain s' where s': "pn_Next N s = Some (Inr True, s')" "Y s' ds"
    by blast
  have "drop (unat (ln_offset ?n) - unat (ln_rowIndex ?n)) ds = []"
    using Cons.prems(3) i o by (simp add: Suc_diff_Suc [symmetric])
  from Cons.IH [OF s'(2) _ this] i Cons.prems(2) obtain ns' where "limit_skip N (?n, s') = Some (Inr False, ns')" by auto
  with s' o show ?case by (subst limit_skip.simps) auto
qed

lemma limit_skip_more:
  assumes "plan_source N Z Y"
  shows "Y s ds \<Longrightarrow> unat (ln_rowIndex n) + length ds < 2 ^ 64 \<Longrightarrow>
    drop (unat (ln_offset n) - unat (ln_rowIndex n)) ds = d # ds' \<Longrightarrow>
    \<exists>i s'. limit_skip N (n, s) = Some (Inr True, (n\<lparr>ln_rowIndex := i\<rparr>, s')) \<and>
      unat i = Suc (max (unat (ln_rowIndex n)) (unat (ln_offset n))) \<and> unat i + length ds' < 2 ^ 64 \<and>
      pn_Value N s' = Inr d \<and> Y s' ds'"
proof (induction ds arbitrary: n s)
  case (Cons x xs)
  let ?n = "n\<lparr>ln_rowIndex := ln_rowIndex n + 1\<rparr>"
  have i: "unat (ln_rowIndex ?n) = Suc (unat (ln_rowIndex n))"
    using Cons.prems(2) by (simp add: unat_word_ariths)
  from plan_source.Next_more [OF assms Cons.prems(1)] obtain s' where
    s': "pn_Next N s = Some (Inr True, s')" "pn_Value N s' = Inr x" "Y s' xs" by blast
  show ?case
  proof (cases "unat (ln_offset n) \<le> unat (ln_rowIndex n)")
    case True
    then have "ln_rowIndex ?n > ln_offset ?n" using i by (simp add: word_less_nat_alt)
    then show ?thesis using s' i Cons.prems(2,3) True
      by (subst limit_skip.simps) (auto intro!: exI [of _ "ln_rowIndex n + 1"])
  next
    case False
    then have o: "\<not> ln_rowIndex ?n > ln_offset ?n" using i by (simp add: word_less_nat_alt)
    have "drop (unat (ln_offset ?n) - unat (ln_rowIndex ?n)) xs = d # ds'"
      using Cons.prems(3) i False by (simp add: drop_Cons' split: if_splits)
    from Cons.IH [OF s'(3) _ this] i Cons.prems(2) obtain j s'' where
      j: "limit_skip N (?n, s') = Some (Inr True, (?n\<lparr>ln_rowIndex := j\<rparr>, s''))"
      "unat j = Suc (max (unat (ln_rowIndex ?n)) (unat (ln_offset ?n)))" "unat j + length ds' < 2 ^ 64"
      "pn_Value N s'' = Inr d" "Y s'' ds'" by auto
    have "limit_skip N (n, s) = Some (Inr True, (n\<lparr>ln_rowIndex := j\<rparr>, s''))"
      using s' o j(1) by (subst limit_skip.simps) simp
    moreover have "unat j = Suc (max (unat (ln_rowIndex n)) (unat (ln_offset n)))" using j(2) i False by simp
    ultimately show ?thesis using j by blast
  qed
qed simp

text \<open>
  What remains of a list after the rows a limit node has seen. The bound on the rows is the sum of
  limit and offset at 64 bits; when that sum has wrapped around it is below the offset, and one row
  beyond the offset is let through, or none when it is zero.
\<close>

definition bound :: "limitNode \<Rightarrow> nat" where
  "bound n = unat (ln_limit n + ln_offset n)"

definition cut :: "limitNode \<Rightarrow> doc list \<Rightarrow> doc list" where
  "cut n ds =
     (let off = unat (ln_offset n); i = unat (ln_rowIndex n); rest = drop (off - i) ds
      in if ln_limit n = 0 then rest else if bound n \<le> i then [] else take (max 1 (bound n - max i off)) rest)"

definition limit_yields :: "('s \<Rightarrow> doc list \<Rightarrow> bool) \<Rightarrow> limitNode \<times> 's \<Rightarrow> doc list \<Rightarrow> bool" where
  "limit_yields Y ns rs \<longleftrightarrow>
     (\<exists>ds. Y (snd ns) ds \<and> unat (ln_rowIndex (fst ns)) + length ds < 2 ^ 64 \<and> rs = cut (fst ns) ds)"

lemma limit_Next_cases:
  "limit_Next N (n, s) =
     (if ln_limit n \<noteq> 0 \<and> bound n \<le> unat (ln_rowIndex n)
      then Some (Inr False, (n\<lparr>ln_iterations := ln_iterations n + 1\<rparr>, s))
      else limit_skip N (n\<lparr>ln_iterations := ln_iterations n + 1\<rparr>, s))"
  by (simp add: limit_Next_def Let_def word_le_nat_alt bound_def)

lemma cut_end:
  assumes "cut n ds = []" "\<not> (ln_limit n \<noteq> 0 \<and> bound n \<le> unat (ln_rowIndex n))"
  shows "drop (unat (ln_offset n) - unat (ln_rowIndex n)) ds = []"
  using assms by (auto simp: cut_def Let_def max_def split: if_splits)

lemma cut_more:
  assumes "cut n ds = d # rs"
  obtains ds' where "\<not> (ln_limit n \<noteq> 0 \<and> bound n \<le> unat (ln_rowIndex n))"
    "drop (unat (ln_offset n) - unat (ln_rowIndex n)) ds = d # ds'"
    "\<And>i m. unat i = Suc (max (unat (ln_rowIndex n)) (unat (ln_offset n))) \<Longrightarrow> cut (n\<lparr>ln_iterations := m, ln_rowIndex := i\<rparr>) ds' = rs"
proof -
  let ?rest = "drop (unat (ln_offset n) - unat (ln_rowIndex n)) ds"
  obtain ds' where ds': "?rest = d # ds'"
    using assms by (cases ?rest) (auto simp: cut_def Let_def take_Cons' split: if_splits)
  have n: "\<not> (ln_limit n \<noteq> 0 \<and> bound n \<le> unat (ln_rowIndex n))" using assms by (auto simp: cut_def Let_def)
  have "cut (n\<lparr>ln_iterations := m, ln_rowIndex := i\<rparr>) ds' = rs"
    if "unat i = Suc (max (unat (ln_rowIndex n)) (unat (ln_offset n)))" for i m
    using assms ds' that by (auto simp: cut_def Let_def take_Cons' max_def bound_def split: if_splits)
  with ds' n that show thesis by blast
qed

locale limited = plan_source

sublocale limited \<subseteq> lim: plan_source "limit_node N" "limit_yields opened" "limit_yields yields"
proof (unfold_locales, goal_cases)
  case (1 ns)
  obtain n s where ns: "ns = (n, s)" by (cases ns)
  from 1 obtain ds where ds: "yields s ds" "unat (ln_rowIndex n) + length ds < 2 ^ 64" "cut n ds = []"
    by (auto simp: limit_yields_def ns)
  from limit_skip_end [OF plan_source_axioms ds(1), of "n\<lparr>ln_iterations := ln_iterations n + 1\<rparr>"] ds(2) cut_end [OF ds(3)]
  show ?case by (auto simp: limit_node_def ns limit_Next_cases)
next
  case (2 ns d rs)
  obtain n s where ns: "ns = (n, s)" by (cases ns)
  from 2 obtain ds where ds: "yields s ds" "unat (ln_rowIndex n) + length ds < 2 ^ 64" "cut n ds = d # rs"
    by (auto simp: limit_yields_def ns)
  let ?m = "ln_iterations n + 1"
  from cut_more [OF ds(3)] obtain ds' where c: "\<not> (ln_limit n \<noteq> 0 \<and> bound n \<le> unat (ln_rowIndex n))"
    "drop (unat (ln_offset n) - unat (ln_rowIndex n)) ds = d # ds'"
    "\<And>i m. unat i = Suc (max (unat (ln_rowIndex n)) (unat (ln_offset n))) \<Longrightarrow> cut (n\<lparr>ln_iterations := m, ln_rowIndex := i\<rparr>) ds' = rs"
    by blast
  from limit_skip_more [OF plan_source_axioms ds(1), of "n\<lparr>ln_iterations := ?m\<rparr>" d ds'] ds(2) c(2)
  obtain i s' where i: "limit_skip N (n\<lparr>ln_iterations := ?m\<rparr>, s) = Some (Inr True, (n\<lparr>ln_iterations := ?m, ln_rowIndex := i\<rparr>, s'))"
    "unat i = Suc (max (unat (ln_rowIndex n)) (unat (ln_offset n)))" "unat i + length ds' < 2 ^ 64"
    "pn_Value N s' = Inr d" "yields s' ds'" by auto
  have "limit_Next N (n, s) = Some (Inr True, (n\<lparr>ln_iterations := ?m, ln_rowIndex := i\<rparr>, s'))"
    unfolding limit_Next_cases using c(1) i(1) by simp
  with i c(3) [OF i(2), of ?m] show ?case by (auto simp: limit_node_def ns limit_yields_def)
next
  case (3 ns ds)
  then obtain es where es: "opened (snd ns) es" "unat (ln_rowIndex (fst ns)) + length es < 2 ^ 64" "ds = cut (fst ns) es"
    by (auto simp: limit_yields_def)
  from Start [OF es(1)] es(2,3) show ?case by (auto simp: limit_node_def on_source_def limit_yields_def)
qed

section \<open>Filters\<close>

definition selected :: "env \<Rightarrow> selectNode \<Rightarrow> doc \<Rightarrow> bool" where
  "selected E n d \<longleftrightarrow> RunFilter E (Doc d) (sel_filter n) = Inr True \<and>
     (case sel_keys n of None \<Rightarrow> True | Some keys \<Rightarrow> \<exists>k \<in> set keys. GetKey d = Inr k)"

text \<open>The filter evaluates on the document, and its key can be read when keys are asked for.\<close>

definition selectable :: "env \<Rightarrow> selectNode \<Rightarrow> doc \<Rightarrow> bool" where
  "selectable E n d \<longleftrightarrow> (\<exists>b. RunFilter E (Doc d) (sel_filter n) = Inr b) \<and> (sel_keys n = None \<or> Fields d \<noteq> [])"

definition select_yields :: "env \<Rightarrow> ('s \<Rightarrow> doc list \<Rightarrow> bool) \<Rightarrow> selectNode \<times> 's \<Rightarrow> doc list \<Rightarrow> bool" where
  "select_yields E Y ns rs \<longleftrightarrow>
     (\<exists>ds. Y (snd ns) ds \<and> list_all (selectable E (fst ns)) ds \<and> rs = filter (selected E (fst ns)) ds)"

text \<open>One turn of the loop, on a document that can be selected.\<close>

lemma select_loop_step:
  assumes "pn_Next N s = Some (Inr True, s')" "pn_Value N s' = Inr d" "selectable E n d"
  shows "\<exists>m. select_loop E N (n, s) =
    (let n' = n\<lparr>sel_currentValue := d, sel_filterMatches := m\<rparr>
     in if selected E n d then Some (Inr True, (n', s')) else select_loop E N (n', s'))"
proof -
  obtain b where b: "RunFilter E (Doc d) (sel_filter n) = Inr b" using assms(3) by (auto simp: selectable_def)
  have key: "\<exists>k. GetKey d = Inr k" if "sel_keys n \<noteq> None"
    using assms(3) that by (auto simp: selectable_def GetKey_def DocKeyFieldIndex_def)
  have same: "n\<lparr>sel_currentValue := d, sel_filterMatches := sel_filterMatches n\<rparr> = n\<lparr>sel_currentValue := d\<rparr>" by simp
  show ?thesis
  proof (cases b)
    case False
    with assms(1,2) b show ?thesis
      by (intro exI [of _ "sel_filterMatches n"], subst select_loop.simps) (simp add: selected_def same)
  next
    case True
    with assms(1,2) b key show ?thesis
      by (intro exI [of _ "sel_filterMatches n + 1"], subst select_loop.simps) (auto simp: selected_def split: option.splits)
  qed
qed

lemma selected_cong [simp]:
  "selected E (n\<lparr>sel_currentValue := d, sel_filterMatches := m\<rparr>) = selected E n"
  "selectable E (n\<lparr>sel_currentValue := d, sel_filterMatches := m\<rparr>) = selectable E n"
  "selected E (n\<lparr>sel_iterations := i\<rparr>) = selected E n" "selectable E (n\<lparr>sel_iterations := i\<rparr>) = selectable E n"
  by (auto simp: selected_def selectable_def fun_eq_iff)

lemma select_loop_yields:
  assumes "plan_source N Z Y"
  shows "Y s ds \<Longrightarrow> list_all (selectable E n) ds \<Longrightarrow>
    (case filter (selected E n) ds of
       [] \<Rightarrow> \<exists>ns'. select_loop E N (n, s) = Some (Inr False, ns')
     | d # rs \<Rightarrow> \<exists>n' s'. select_loop E N (n, s) = Some (Inr True, (n', s')) \<and> sel_currentValue n' = d \<and>
         sel_mapping n' = sel_mapping n \<and> selected E n' = selected E n \<and> select_yields E Y (n', s') rs)"
proof (induction ds arbitrary: n s)
  case Nil
  from plan_source.Next_end [OF assms Nil(1)] show ?case by (subst select_loop.simps) auto
next
  case (Cons d ds)
  from plan_source.Next_more [OF assms Cons.prems(1)] obtain s' where
    s': "pn_Next N s = Some (Inr True, s')" "pn_Value N s' = Inr d" "Y s' ds" by blast
  from select_loop_step [OF s'(1,2)] Cons.prems(2) obtain m where m: "select_loop E N (n, s) =
    (let n' = n\<lparr>sel_currentValue := d, sel_filterMatches := m\<rparr>
     in if selected E n d then Some (Inr True, (n', s')) else select_loop E N (n', s'))" by auto
  let ?n = "n\<lparr>sel_currentValue := d, sel_filterMatches := m\<rparr>"
  show ?case
  proof (cases "selected E n d")
    case True
    then show ?thesis using m s'(3) Cons.prems(2)
      by (auto simp: select_yields_def intro!: exI [of _ ds])
  next
    case False
    then show ?thesis using m Cons.IH [OF s'(3), of ?n] Cons.prems(2) by (simp add: Let_def split: list.splits)
  qed
qed

locale selecting = plan_source

sublocale selecting \<subseteq> sel: plan_source "select_node E N" "select_yields E opened" "select_yields E yields" for E
proof (unfold_locales, goal_cases)
  case (1 ns)
  then obtain ds where ds: "yields (snd ns) ds" "list_all (selectable E (fst ns)) ds" "filter (selected E (fst ns)) ds = []"
    by (auto simp: select_yields_def)
  from select_loop_yields [OF plan_source_axioms ds(1), of E "(fst ns)\<lparr>sel_iterations := sel_iterations (fst ns) + 1\<rparr>"] ds(2,3)
  show ?case by (simp add: select_node_def select_Next_def)
next
  case (2 ns d rs)
  then obtain ds where ds: "yields (snd ns) ds" "list_all (selectable E (fst ns)) ds" "filter (selected E (fst ns)) ds = d # rs"
    by (auto simp: select_yields_def)
  from select_loop_yields [OF plan_source_axioms ds(1), of E "(fst ns)\<lparr>sel_iterations := sel_iterations (fst ns) + 1\<rparr>"] ds(2,3)
  show ?case by (auto simp: select_node_def select_Next_def)
next
  case (3 ns ds)
  then obtain es where "opened (snd ns) es" "list_all (selectable E (fst ns)) es" "ds = filter (selected E (fst ns)) es"
    by (auto simp: select_yields_def)
  with Start [OF this(1)] show ?case by (auto simp: select_node_def on_source_def select_yields_def)
qed

section \<open>Orders\<close>

definition order_yields :: "('s \<Rightarrow> doc list \<Rightarrow> bool) \<Rightarrow> orderNode \<times> 's \<Rightarrow> doc list \<Rightarrow> bool" where
  "order_yields Y ns rs \<longleftrightarrow>
     (if on_needSort (fst ns)
      then on_orderStrategy (fst ns) = None \<and>
        (\<exists>ds. Y (snd ns) ds \<and> sortable (on_ordering (fst ns)) (set (map Clone ds)) \<and>
           rs = stable_sort (doc_less (on_ordering (fst ns))) (map Clone ds))
      else (\<exists>st. on_valueIter (fst ns) = Some st \<and> values_yields (valueNode st) rs))"

definition order_opened :: "('s \<Rightarrow> doc list \<Rightarrow> bool) \<Rightarrow> orderNode \<times> 's \<Rightarrow> doc list \<Rightarrow> bool" where
  "order_opened Y ns rs \<longleftrightarrow> on_needSort (fst ns) \<and> order_yields Y ns rs"

text \<open>The strategy while documents are collected.\<close>

definition strategy :: "orderNode \<Rightarrow> allSortStrategy" where
  "strategy n = (case on_orderStrategy n of None \<Rightarrow> newAllSortStrategy (newContainerValuesNode (on_ordering n)) | Some st \<Rightarrow> st)"

definition collected :: "orderNode \<Rightarrow> doc list" where
  "collected n = dc_docs (vn_docs (valueNode (strategy n)))"

definition collecting :: "orderNode \<Rightarrow> bool" where
  "collecting n \<longleftrightarrow> on_needSort n \<and> vn_ordering (valueNode (strategy n)) = on_ordering n \<and>
     vn_docIndex (valueNode (strategy n)) = - 1"

lemma strategy_new [simp]:
  "on_orderStrategy n = None \<Longrightarrow> collected n = []"
  "on_orderStrategy n = None \<Longrightarrow> on_needSort n \<Longrightarrow> collecting n"
  by (simp_all add: collected_def collecting_def strategy_def newAllSortStrategy_def newContainerValuesNode_def
      NewDocumentContainer_def)

lemma order_fill_step:
  assumes "collecting n"
  shows "pn_Next N s = Some (Inr True, s') \<Longrightarrow> pn_Value N s' = Inr d \<Longrightarrow>
      order_fill N (n, s) = order_fill N (n\<lparr>on_orderStrategy := Some (strategy_Add (strategy n) d)\<rparr>, s')"
    and "pn_Next N s = Some (Inr False, s') \<Longrightarrow> strategy_Finish (strategy n) = Inr st \<Longrightarrow>
      order_fill N (n, s) =
        Some (Inr (), (n\<lparr>on_orderStrategy := Some st, on_valueIter := Some st, on_needSort := False\<rparr>, s'))"
  using assms by (simp_all add: order_fill.simps [of N "(n, s)"] collecting_def strategy_def [symmetric] Let_def)

lemma collecting_Add:
  assumes "collecting n"
  shows "collecting (n\<lparr>on_orderStrategy := Some (strategy_Add (strategy n) d)\<rparr>)"
    "collected (n\<lparr>on_orderStrategy := Some (strategy_Add (strategy n) d)\<rparr>) = collected n @ [Clone d]"
  using assms by (simp_all add: collecting_def collected_def strategy_def strategy_Add_def AddDoc_def Let_def)

lemma order_fill_yields:
  assumes "plan_source N Z Y"
  shows "Y s ds \<Longrightarrow> collecting n \<Longrightarrow> sortable (on_ordering n) (set (collected n @ map Clone ds)) \<Longrightarrow>
    \<exists>n' s' st. order_fill N (n, s) = Some (Inr (), (n', s')) \<and> on_needSort n' = False \<and> on_mapping n' = on_mapping n \<and>
      on_valueIter n' = Some st \<and> values_yields (valueNode st) (stable_sort (doc_less (on_ordering n)) (collected n @ map Clone ds))"
proof (induction ds arbitrary: n s)
  case Nil
  from plan_source.Next_end [OF assms Nil(1)] obtain s' where s': "pn_Next N s = Some (Inr False, s')" ..
  let ?v = "valueNode (strategy n)"
  let ?r = "stable_sort (doc_less (on_ordering n)) (collected n)"
  have v: "vn_ordering ?v = on_ordering n" "vn_docIndex ?v = - 1" "dc_docs (vn_docs ?v) = collected n"
    using Nil.prems(2) by (auto simp: collecting_def collected_def)
  have "SortAll ?v = Inr (?v\<lparr>vn_docs := \<lparr>dc_docs = ?r\<rparr>\<rparr>)"
    using SortAll_stable [of ?v] sortable_order [OF Nil.prems(3)] v by simp
  then have "strategy_Finish (strategy n) = Inr ((strategy n)\<lparr>valueNode := ?v\<lparr>vn_docs := \<lparr>dc_docs = ?r\<rparr>\<rparr>\<rparr>)"
    by (simp add: strategy_Finish_def)
  moreover have "values_yields (?v\<lparr>vn_docs := \<lparr>dc_docs = ?r\<rparr>\<rparr>) ?r" using v by (simp add: values_yields_def)
  ultimately show ?case using order_fill_step(2) [OF Nil.prems(2) s'] by simp
next
  case (Cons d ds)
  from plan_source.Next_more [OF assms Cons.prems(1)] obtain s' where
    s': "pn_Next N s = Some (Inr True, s')" "pn_Value N s' = Inr d" "Y s' ds" by blast
  from Cons.IH [OF s'(3) collecting_Add(1) [OF Cons.prems(2)], of d] Cons.prems(3) show ?case
    by (simp add: order_fill_step(1) [OF Cons.prems(2) s'(1,2)] collecting_Add(2) [OF Cons.prems(2)])
qed

lemma order_yields_cong [simp]: "order_yields Y (n\<lparr>on_iterations := i\<rparr>, s) = order_yields Y (n, s)"
  by (simp add: order_yields_def fun_eq_iff)

lemma order_fill_ready:
  assumes "plan_source N Z Y" "order_yields Y (n, s) rs"
  shows "\<exists>n' s' st. order_fill N (n, s) = Some (Inr (), (n', s')) \<and> on_needSort n' = False \<and> on_mapping n' = on_mapping n \<and>
    on_valueIter n' = Some st \<and> values_yields (valueNode st) rs"
proof (cases "on_needSort n")
  case True
  with assms(2) obtain ds where "on_orderStrategy n = None" "Y s ds" "sortable (on_ordering n) (set (map Clone ds))"
    "rs = stable_sort (doc_less (on_ordering n)) (map Clone ds)" by (auto simp: order_yields_def)
  with True show ?thesis using order_fill_yields [OF assms(1), of s ds n] by simp
next
  case False
  then show ?thesis using assms(2) by (subst order_fill.simps) (auto simp: order_yields_def)
qed

lemma order_Next_yields:
  assumes "plan_source N Z Y" "order_yields Y (n, s) rs"
  shows "case rs of
      [] \<Rightarrow> \<exists>ns'. order_Next N (n, s) = Some (Inr False, ns')
    | d # rs' \<Rightarrow> \<exists>n' s'. order_Next N (n, s) = Some (Inr True, (n', s')) \<and> order_Value (n', s') = Inr d \<and>
        on_mapping n' = on_mapping n \<and> order_yields Y (n', s') rs'"
proof -
  obtain n' s' st where f: "order_fill N (n\<lparr>on_iterations := on_iterations n + 1\<rparr>, s) = Some (Inr (), (n', s'))"
    "on_needSort n' = False" "on_mapping n' = on_mapping n" "on_valueIter n' = Some st" "values_yields (valueNode st) rs"
    using order_fill_ready [OF assms(1), of "n\<lparr>on_iterations := on_iterations n + 1\<rparr>" s rs] assms(2) by auto
  show ?thesis
  proof (cases rs)
    case Nil
    with f values_Next_end [of "valueNode st"] show ?thesis by (simp add: order_Next_def strategy_Next_def)
  next
    case (Cons d rs')
    from values_Next_more [OF f(5) [unfolded Cons]] obtain v where
      v: "values_Next (valueNode st) = (True, v)" "values_Value v = Inr d" "values_yields v rs'" by blast
    with f Cons show ?thesis
      by (auto simp: order_Next_def strategy_Next_def order_Value_def strategy_Value_def order_yields_def)
  qed
qed

locale ordered_plan = plan_source

sublocale ordered_plan \<subseteq> ord: plan_source "order_node N" "order_opened opened" "order_yields yields"
proof (unfold_locales, goal_cases)
  case (1 ns)
  then show ?case using order_Next_yields [OF plan_source_axioms, of "fst ns" "snd ns" "[]"] by (simp add: order_node_def)
next
  case (2 ns d rs)
  then show ?case using order_Next_yields [OF plan_source_axioms, of "fst ns" "snd ns" "d # rs"] by (auto simp: order_node_def)
next
  case (3 ns rs)
  then obtain ds where "opened (snd ns) ds" "on_needSort (fst ns)" "on_orderStrategy (fst ns) = None"
    "sortable (on_ordering (fst ns)) (set (map Clone ds))"
    "rs = stable_sort (doc_less (on_ordering (fst ns))) (map Clone ds)" by (auto simp: order_opened_def order_yields_def)
  with Start [OF this(1)] show ?case by (auto simp: order_node_def on_source_def order_yields_def)
qed

section \<open>Caches\<close>

definition pipe_yields :: "('s \<Rightarrow> doc list \<Rightarrow> bool) \<Rightarrow> pipeNode \<times> 's \<Rightarrow> doc list \<Rightarrow> bool" where
  "pipe_yields Y ns rs \<longleftrightarrow>
     (\<exists>ds k. Y (snd ns) ds \<and> k \<le> length (dc_docs (pp_docs (fst ns))) \<and> pp_docIndex (fst ns) = int k - 1 \<and>
        rs = map Clone (drop k (dc_docs (pp_docs (fst ns))) @ map Clone ds))"

lemma pipe_load_cached:
  "pp_docIndex n < Len (pp_docs n) - 1 \<Longrightarrow> pipe_load N (n, s) = Some (Inr True, (n, s))"
  by (subst pipe_load.simps) simp

lemma pipe_load_next:
  assumes "\<not> pp_docIndex n < Len (pp_docs n) - 1" "pn_Next N s = Some (Inr True, s')" "pn_Value N s' = Inr d"
    "pp_docIndex n = Len (pp_docs n) - 1"
  shows "pipe_load N (n, s) = Some (Inr True, (n\<lparr>pp_docs := AddDoc (pp_docs n) d\<rparr>, s'))"
  using assms by (subst pipe_load.simps) (simp add: pipe_load_cached AddDoc_def Len_def)

lemma pipe_Next_yields:
  assumes "plan_source N Z Y" "pipe_yields Y (n, s) rs"
  shows "case rs of
      [] \<Rightarrow> \<exists>ns'. pipe_Next N (n, s) = Some (Inr False, ns')
    | d # rs' \<Rightarrow> \<exists>n' s'. pipe_Next N (n, s) = Some (Inr True, (n', s')) \<and> pp_currentValue n' = d \<and>
        pp_mapping n' = pp_mapping n \<and> pipe_yields Y (n', s') rs'"
proof -
  from assms(2) obtain ds k where y: "Y s ds" "k \<le> length (dc_docs (pp_docs n))" "pp_docIndex n = int k - 1"
    "rs = map Clone (drop k (dc_docs (pp_docs n)) @ map Clone ds)" by (auto simp: pipe_yields_def)
  show ?thesis
  proof (cases "k < length (dc_docs (pp_docs n))")
    case True
    then have "drop k (dc_docs (pp_docs n)) = dc_docs (pp_docs n) ! k # drop (Suc k) (dc_docs (pp_docs n))"
      by (simp add: Cons_nth_drop_Suc)
    with True y show ?thesis
      by (auto simp: pipe_Next_def pipe_load_cached Len_def At_def pipe_yields_def intro!: exI [of _ ds] exI [of _ "Suc k"])
  next
    case False
    then have k: "k = length (dc_docs (pp_docs n))" using y(2) by simp
    show ?thesis
    proof (cases ds)
      case Nil
      from plan_source.Next_end [OF assms(1) y(1) [unfolded Nil]] obtain s' where "pn_Next N s = Some (Inr False, s')" ..
      then have "pipe_load N (n, s) = Some (Inr False, (n, s'))" using y(3) k by (subst pipe_load.simps) (simp add: Len_def)
      then show ?thesis using y(4) k Nil by (simp add: pipe_Next_def)
    next
      case (Cons d ds')
      from plan_source.Next_more [OF assms(1) y(1) [unfolded Cons]] obtain s' where
        s': "pn_Next N s = Some (Inr True, s')" "pn_Value N s' = Inr d" "Y s' ds'" by blast
      from pipe_load_next [OF _ s'(1,2)] y(3) k have
        "pipe_load N (n, s) = Some (Inr True, (n\<lparr>pp_docs := AddDoc (pp_docs n) d\<rparr>, s'))" by (simp add: Len_def)
      then show ?thesis using y(3,4) k s'(3) Cons
        by (auto simp: pipe_Next_def At_def AddDoc_def pipe_yields_def intro!: exI [of _ ds'] exI [of _ "Suc k"])
    qed
  qed
qed

locale caching = plan_source

sublocale caching \<subseteq> pipe: plan_source "pipe_node N" "pipe_yields opened" "pipe_yields yields"
proof (unfold_locales, goal_cases)
  case (1 ns)
  then show ?case using pipe_Next_yields [OF plan_source_axioms, of "fst ns" "snd ns" "[]"] by (simp add: pipe_node_def)
next
  case (2 ns d rs)
  then show ?case using pipe_Next_yields [OF plan_source_axioms, of "fst ns" "snd ns" "d # rs"] by (auto simp: pipe_node_def)
next
  case (3 ns rs)
  then obtain ds k where "opened (snd ns) ds" "k \<le> length (dc_docs (pp_docs (fst ns)))" "pp_docIndex (fst ns) = int k - 1"
    "rs = map Clone (drop k (dc_docs (pp_docs (fst ns))) @ map Clone ds)" by (auto simp: pipe_yields_def)
  with Start [OF this(1)] show ?case by (auto simp: pipe_node_def on_source_def pipe_yields_def)
qed

context limited
begin

lemma limit_plan: "plan_source (limit_node N) (limit_yields opened) (limit_yields yields)"
  by (rule lim.plan_source_axioms)

end

context selecting
begin

lemma select_plan: "plan_source (select_node E N) (select_yields E opened) (select_yields E yields)"
  by (rule sel.plan_source_axioms)

end

context ordered_plan
begin

lemma order_plan: "plan_source (order_node N) (order_opened opened) (order_yields yields)"
  by (rule ord.plan_source_axioms)

end

context caching
begin

lemma pipe_plan: "plan_source (pipe_node N) (pipe_yields opened) (pipe_yields yields)"
  by (rule pipe.plan_source_axioms)

end

end
