(* ===== verification/PlanRun.thy ===== *)
theory PlanRun
  imports PlanSpec FilterTypes
begin

text \<open>
  Requests: what a plan made of the nodes that select, order and cut returns for the documents its
  source yields, and where limits and orders do not do what they say.
\<close>

interpretation values_limited: limited values_node values_yields values_yields
  by unfold_locales

interpretation values_selecting: selecting values_node values_yields values_yields
  by unfold_locales

interpretation values_ordered: ordered_plan values_node values_yields values_yields
  by unfold_locales

interpretation values_caching: caching values_node values_yields values_yields
  by unfold_locales

text \<open>The rows of a list that a limit and an offset leave; a limit of zero is none.\<close>

definition page :: "Limit \<Rightarrow> 'a list \<Rightarrow> 'a list" where
  "page l xs =
     (if lim_Limit l = 0 then drop (unat (lim_Offset l)) xs
      else take (unat (lim_Limit l)) (drop (unat (lim_Offset l)) xs))"

lemma cut_new:
  assumes "Planner_Limit m (Some l) = Some n" and "unat (lim_Limit l) + unat (lim_Offset l) < 2 ^ 64"
  shows "cut n ds = page l ds"
proof -
  have n: "ln_limit n = lim_Limit l" "ln_offset n = lim_Offset l" "ln_rowIndex n = 0"
    using assms(1) by (auto simp: Planner_Limit_def)
  have b: "bound n = unat (lim_Limit l) + unat (lim_Offset l)"
    using assms(2) n by (simp add: bound_def unat_word_ariths)
  show ?thesis
  proof (cases "lim_Limit l = 0")
    case False
    then have "0 < unat (lim_Limit l)" by (simp add: unat_gt_0)
    with False show ?thesis by (simp add: cut_def page_def n b max_def)
  qed (simp add: cut_def page_def n)
qed

lemma cut_wrapped:
  assumes "Planner_Limit m (Some l) = Some n" and wrap: "2 ^ 64 \<le> unat (lim_Limit l) + unat (lim_Offset l)"
  shows "cut n ds = (if lim_Limit l + lim_Offset l = 0 then [] else take 1 (drop (unat (lim_Offset l)) ds))"
proof -
  have n: "ln_limit n = lim_Limit l" "ln_offset n = lim_Offset l" "ln_rowIndex n = 0"
    using assms(1) by (auto simp: Planner_Limit_def)
  have lt: "unat (lim_Limit l) < 2 ^ 64" "unat (lim_Offset l) < 2 ^ 64"
    using unsigned_less [where 'a = nat, of "lim_Limit l"] unsigned_less [where 'a = nat, of "lim_Offset l"] by simp_all
  then have "lim_Limit l \<noteq> 0" using wrap by auto
  moreover have "bound n = unat (lim_Limit l) + unat (lim_Offset l) - 2 ^ 64"
    using wrap lt n by (simp add: bound_def unat_word_ariths mod_if)
  then have "bound n \<le> unat (lim_Offset l)" using lt by simp
  moreover have "bound n = 0 \<longleftrightarrow> lim_Limit l + lim_Offset l = 0" using n by (simp add: bound_def unat_eq_0)
  ultimately show ?thesis by (auto simp: cut_def n Let_def max_def)
qed

text \<open>
  C4. A request over any source that yields finitely many documents ends, and returns the rendering
  of the documents that pass the filter and the keys, sorted by the first order condition with equal
  documents in the order they came, and cut to the limit and the offset.
\<close>

theorem query_results:
  assumes source: "plan_source N opened yields" "opened s ds" "length ds < 2 ^ 64"
    and sel: "list_all (selectable E sel) ds"
    and ord: "OrderBy m (Some conditions) = Some order" "sortable conditions (set (map Clone (filter (selected E sel) ds)))"
    and lim: "Planner_Limit m (Some l) = Some limit" "unat (lim_Limit l) + unat (lim_Offset l) < 2 ^ 64"
    and ren: "list_all2 (\<lambda>d r. ToMap m d = Inr r)
      (page l (sorted_by conditions (map Clone (filter (selected E sel) ds)))) rs"
  shows "\<exists>s'. executeRequest (limit_node (order_node (select_node E N))) (limit, (order, (sel, s))) = Some (Inr rs, s')"
proof -
  let ?sorted = "sorted_by conditions (map Clone (filter (selected E sel) ds))"
  note sel_plan = selecting.select_plan [OF selecting.intro [OF source(1)], of E]
  note ord_plan = ordered_plan.order_plan [OF ordered_plan.intro [OF sel_plan]]
  note lim_plan = limited.limit_plan [OF limited.intro [OF ord_plan]]
  have "select_yields E opened (sel, s) (filter (selected E sel) ds)"
    using source(2) sel by (auto simp: select_yields_def)
  then have "order_opened (select_yields E opened) (order, (sel, s)) ?sorted"
    using ord stable_sort_sorted_by [OF ord(2)] by (auto simp: order_opened_def order_yields_def OrderBy_def)
  moreover have "length ?sorted = length (filter (selected E sel) ds)"
    using stable_sort_sorted_by [OF ord(2)] by (metis length_map mset_eq_length mset_stable_sort)
  then have "length ?sorted < 2 ^ 64" using source(3) le_less_trans [OF length_filter_le] by metis
  ultimately have "limit_yields (order_opened (select_yields E opened)) (limit, (order, (sel, s))) (page l ?sorted)"
    using lim(1) cut_new [OF lim, of ?sorted] by (auto simp: limit_yields_def Planner_Limit_def)
  moreover have "pn_DocumentMap (limit_node (order_node (select_node E N))) (limit, (order, (sel, s))) = m"
    using lim(1) by (auto simp: limit_node_def Planner_Limit_def)
  ultimately show ?thesis using plan_source.executeRequest_yields [OF lim_plan] ren by metis
qed

text \<open>
  C21. On documents whose values of the first condition are of one kind or missing, sorting orders the
  documents by what these values stand for, ascending or descending as the condition says, a missing
  value below all others, and keeps the order of documents that are equal in it. Further conditions
  have no effect.
\<close>

theorem sort_all_stable:
  assumes "sortable (vn_ordering n) (set docs)"
  shows "SortAll (n\<lparr>vn_docs := \<lparr>dc_docs = docs\<rparr>\<rparr>) = Inr (n\<lparr>vn_docs := \<lparr>dc_docs =
    (case vn_ordering n of
       [] \<Rightarrow> docs
     | o1 # _ \<Rightarrow> if Direction o1 = DESC then rev (sort_key (order_value o1) (rev docs))
                else sort_key (order_value o1) docs)\<rparr>\<rparr>)"
  using SortAll_stable [of "n\<lparr>vn_docs := \<lparr>dc_docs = docs\<rparr>\<rparr>"] sortable_order(1) [OF assms]
    stable_sort_sorted_by [OF assms] by (simp add: sorted_by_def)

text \<open>
  C38. A limit and an offset whose sum does not fit in 64 bits lose rows: over any source, a request
  returns the first row after the offset and no other, or no row at all when the sum wraps around to
  zero, although the limit exceeds what is left.
\<close>

theorem limit_wraps:
  assumes source: "plan_source N opened yields" "opened s ds" "length ds < 2 ^ 64"
    and lim: "Planner_Limit m (Some l) = Some limit" "2 ^ 64 \<le> unat (lim_Limit l) + unat (lim_Offset l)"
    and ren: "list_all2 (\<lambda>d r. ToMap m d = Inr r) (drop (unat (lim_Offset l)) ds) rs"
  shows "\<exists>s'. executeRequest (limit_node N) (limit, s) =
      Some (Inr (if lim_Limit l + lim_Offset l = 0 then [] else take 1 rs), s') \<and> length rs \<le> unat (lim_Limit l)"
proof -
  note lim_plan = limited.limit_plan [OF limited.intro [OF source(1)]]
  have "limit_yields opened (limit, s) (cut limit ds)"
    using source(2,3) lim(1) by (auto simp: limit_yields_def Planner_Limit_def)
  moreover have "pn_DocumentMap (limit_node N) (limit, s) = m"
    using lim(1) by (auto simp: limit_node_def Planner_Limit_def)
  moreover have "list_all2 (\<lambda>d r. ToMap m d = Inr r) (cut limit ds) (if lim_Limit l + lim_Offset l = 0 then [] else take 1 rs)"
    unfolding cut_wrapped [OF lim] using ren by (simp add: list_all2_takeI)
  moreover have "length rs \<le> unat (lim_Limit l)"
    using list_all2_lengthD [OF ren] source(3) lim(2) by simp
  ultimately show ?thesis using plan_source.executeRequest_yields [OF lim_plan] by metis
qed

section \<open>Examples\<close>

definition w_row :: "string \<Rightarrow> int \<Rightarrow> doc" where
  "w_row name age = MkDoc False [Str name, Int64 (word_of_int age)] 0"

definition w_table :: valuesNode where
  "w_table = \<lparr>vn_ordering = [], vn_docs = \<lparr>dc_docs = [w_row ''Bob'' 40, w_row ''Al'' 20, w_row ''Cy'' 30]\<rparr>, vn_docIndex = - 1\<rparr>"

definition w_people :: "DocumentMapping option" where
  "w_people = Some (MkMapping None [\<lparr>rk_Index = 0, rk_Key = ''name''\<rparr>] [(''name'', [0]), (''age'', [1])] 2 [])"

definition w_select :: selectNode where
  "w_select = \<lparr>sel_mapping = w_people, sel_currentValue = MkDoc False [] 0, sel_filter = None, sel_keys = None,
     sel_iterations = 0, sel_filterMatches = 0\<rparr>"

definition w_by_age :: "OrderCondition list" where
  "w_by_age = [\<lparr>FieldIndexes = [1], Direction = ASC\<rparr>]"

lemma w_sortable: "sortable w_by_age (set (map Clone (dc_docs (vn_docs w_table))))"
proof -
  have "one_kind (range Int64)" by (auto simp: one_kind_def kind_def)
  then show ?thesis
    by (auto simp: sortable_def w_by_age_def w_table_def w_row_def getDocProp_def intro!: exI [of _ "range Int64"])
qed

lemma w_sorted: "sorted_by w_by_age (map Clone (dc_docs (vn_docs w_table))) = [w_row ''Al'' 20, w_row ''Cy'' 30, w_row ''Bob'' 40]"
  by (simp add: sorted_by_def w_by_age_def w_table_def w_row_def order_value_def getDocProp_def value_key_def)

theorem query_results_witness:
  "\<exists>s'. executeRequest (limit_node (order_node (select_node w_env values_node)))
      (the (Planner_Limit w_people (Some \<lparr>lim_Limit = 1, lim_Offset = 1\<rparr>)),
       (the (OrderBy w_people (Some w_by_age)), (w_select, w_table))) =
     Some (Inr [[(''name'', RVal (Str ''Cy''))]], s')"
proof (rule query_results [where m = w_people and l = "\<lparr>lim_Limit = 1, lim_Offset = 1\<rparr>" and conditions = w_by_age
      and ds = "dc_docs (vn_docs w_table)"])
  show "plan_source values_node values_yields values_yields" by unfold_locales
  show "values_yields w_table (dc_docs (vn_docs w_table))" by (simp add: values_yields_def w_table_def)
  have all: "filter (selected w_env w_select) ds = ds" for ds by (simp add: selected_def w_select_def RunFilter_def)
  show "list_all (selectable w_env w_select) (dc_docs (vn_docs w_table))"
    by (auto simp: selectable_def w_select_def RunFilter_def list_all_iff)
  show "sortable w_by_age (set (map Clone (filter (selected w_env w_select) (dc_docs (vn_docs w_table)))))"
    unfolding all by (rule w_sortable)
  show "list_all2 (\<lambda>d r. ToMap w_people d = Inr r)
    (page \<lparr>lim_Limit = 1, lim_Offset = 1\<rparr>
      (sorted_by w_by_age (map Clone (filter (selected w_env w_select) (dc_docs (vn_docs w_table))))))
    [[(''name'', RVal (Str ''Cy''))]]"
    unfolding all w_sorted by (simp add: page_def w_people_def w_row_def ToMap.simps render.simps)
qed (simp_all add: w_table_def OrderBy_def Planner_Limit_def)

theorem sort_all_stable_witness:
  "SortAll (w_table\<lparr>vn_ordering := w_by_age\<rparr>) =
     Inr (w_table\<lparr>vn_ordering := w_by_age, vn_docs := \<lparr>dc_docs = [w_row ''Al'' 20, w_row ''Cy'' 30, w_row ''Bob'' 40]\<rparr>\<rparr>)"
proof -
  let ?n = "w_table\<lparr>vn_ordering := w_by_age\<rparr>" and ?d = "map Clone (dc_docs (vn_docs w_table))"
  have c: "?d = dc_docs (vn_docs w_table)" by (simp add: w_table_def w_row_def)
  have s: "sortable (vn_ordering ?n) (set ?d)" using w_sortable by simp
  from sort_all_stable [OF s] w_sorted show ?thesis
    unfolding c by (simp add: sorted_by_def w_by_age_def w_table_def)
qed

text \<open>The largest limit with an offset of one returns none of the two rows left.\<close>

theorem limit_wraps_witness:
  "\<exists>s'. executeRequest (limit_node values_node)
      (the (Planner_Limit w_people (Some \<lparr>lim_Limit = - 1, lim_Offset = 1\<rparr>)), w_table) = Some (Inr [], s')"
proof -
  let ?l = "\<lparr>lim_Limit = - 1, lim_Offset = 1\<rparr>"
  have m: "unat (- 1 :: u64) = 2 ^ 64 - 1" by (simp add: unsigned_minus_1_eq_mask mask_eq_exp_minus_1)
  have "\<exists>s'. executeRequest (limit_node values_node) (the (Planner_Limit w_people (Some ?l)), w_table) =
      Some (Inr (if lim_Limit ?l + lim_Offset ?l = 0 then [] else take 1 [[(''name'', RVal (Str ''Al''))], [(''name'', RVal (Str ''Cy''))]]), s') \<and>
      length [[(''name'', RVal (Str ''Al''))], [(''name'', RVal (Str ''Cy''))]] \<le> unat (lim_Limit ?l)"
  proof (rule limit_wraps [where m = w_people and ds = "dc_docs (vn_docs w_table)"])
    show "plan_source values_node values_yields values_yields" by unfold_locales
    show "values_yields w_table (dc_docs (vn_docs w_table))" by (simp add: values_yields_def w_table_def)
    show "2 ^ 64 \<le> unat (lim_Limit ?l) + unat (lim_Offset ?l)" by (simp add: m)
    show "list_all2 (\<lambda>d r. ToMap w_people d = Inr r) (drop (unat (lim_Offset ?l)) (dc_docs (vn_docs w_table)))
        [[(''name'', RVal (Str ''Al''))], [(''name'', RVal (Str ''Cy''))]]"
      by (simp add: w_table_def w_people_def w_row_def ToMap.simps render.simps)
  qed (simp_all add: w_table_def Planner_Limit_def)
  then show ?thesis by simp
qed

end
