(* ===== verification/Spec2Isabelle.thy ===== *)
theory Spec2Isabelle
  imports CollectionRun MemPurge FilterLeaves DocSpec SpansSpec PlanRun
begin

text \<open>
  A verification library for DefraDB, a document database built on Merkle CRDTs.

  \<^bold>\<open>The program.\<close> A database keeps the documents of its collections in a transactional key-value
  store. A transaction is split by key prefixes into four stores (\<^verbatim>\<open>datastore/multi.go\<close>): data,
  heads, blocks and system. Every field of a document is a last-writer-wins register and the document
  a composite (\<^verbatim>\<open>core/crdt\<close>); each has a DAG of deltas whose heads are in the head store and whose
  nodes are in the block store (\<^verbatim>\<open>merkle/clock\<close>, \<^verbatim>\<open>merkle/crdt\<close>). A collection writes the fields of
  a document and then its composite (\<^verbatim>\<open>db/collection.go\<close>); its description is in the system store.
  Replicas exchange nodes and merge their deltas. A request is run by a tree of plan nodes
  (\<^verbatim>\<open>planner\<close>) which filter (\<^verbatim>\<open>connor\<close>), order, cut and render documents.

  \<^bold>\<open>Conventions.\<close> A Go function that may fail gives a value of \<open>error + 'a\<close>, a panic is the error
  \<^const>\<open>GoPanic\<close>, and a method on a store is an action, a function from a state to a result and a
  state. A Go map is an association list in the order in which it is visited where the order
  matters, otherwise a function. Integers have the width they have in Go. Third-party code is a
  record of functions, and what is relied on is a predicate on that record: \<^const>\<open>cid_laws\<close>,
  \<^const>\<open>btree_laws\<close>, \<^const>\<open>ds_laws\<close>, \<^const>\<open>block_laws\<close>, \<^const>\<open>dag_laws\<close>, \<^const>\<open>codec_laws\<close>,
  \<^const>\<open>query_laws\<close> and their collections \<^const>\<open>clock_laws\<close> and \<^const>\<open>cat_laws\<close>. The theories
  \<open>ListTree\<close> and \<open>Packages\<close> have functions that satisfy them, on which every property is run.
  Names are those of the sources, with a prefix where they clash.
\<close>

text \<open>
  \<^bold>\<open>Theories and sources.\<close>

  \<^item> \<open>Go_Prelude\<close>: errors, actions, and the functions of Go's library on strings, bytes and numbers.
  \<^item> \<open>Keys\<close> (\<^verbatim>\<open>core/key.go\<close>): key structs, their text and parsers. Texts are read back, the system keys
    are disjoint, and \<^verbatim>\<open>PrefixEnd\<close> bounds the keys with a prefix.
  \<^item> \<open>Spans\<close>, \<open>SpansSpec\<close> (\<^verbatim>\<open>core/data.go\<close>): ranges of keys. Merging ranges between keys of one length in
    ascending order loses no key and adds only those between adjacent ranges; in other orders, and
    with keys of different lengths, it may lose keys or panic.
  \<^item> \<open>Stores\<close> (\<^verbatim>\<open>datastore/store.go\<close>): a store as a record of operations, and its contract, the locale
    \<open>kv_store\<close>: a store is seen as a partial map, and each operation does to the map what it says.
  \<^item> \<open>MemStore\<close>, \<open>MemTxn\<close>, \<open>MemVersions\<close>, \<open>MemRun\<close>, \<open>MemPurge\<close> (\<^verbatim>\<open>datastore/memory\<close>): versions in a
    B-tree, transactions, batches, conflicts, queries, the registry of transactions and the purge. An
    inductive step relation has the operations of any number of transactions and the purge in any
    order. The invariant, the outcome of commits, the absence of lost updates on recorded keys and
    what a query returns are shown for all its reachable states; snapshots for all of them as long
    as no purge goes past the transaction, which can happen (\<open>purge_forgets_open_txn\<close>). A new
    transaction keeps the contract \<open>kv_store\<close> until another one commits. What the purge keeps is
    shown for every state.
  \<^item> \<open>MultiStore\<close> (\<^verbatim>\<open>datastore/wrappedStore.go\<close>, \<^verbatim>\<open>multi.go\<close>, \<^verbatim>\<open>blockstore.go\<close>, \<^verbatim>\<open>dag.go\<close>, \<^verbatim>\<open>txn.go\<close>): a
    store below a prefix keeps the contract, the four stores do not see each other, and a block is
    read back as it was stored.
  \<^item> \<open>Crdt\<close>, \<open>Document\<close>, \<open>Replicas\<close> (\<^verbatim>\<open>core/crdt\<close>): the merges of registers and composites refine
    operations on an abstract document that commute and are idempotent, so replicas converge.
  \<^item> \<open>Clock\<close>, \<open>ClockSpec\<close> (\<^verbatim>\<open>merkle/clock\<close>): heads, new nodes and received nodes. The data type behind a
    clock enters by the locale \<open>replicated\<close>, which extends \<open>kv_store\<close>.
  \<^item> \<open>MerkleCrdt\<close>, \<open>MerkleRun\<close> (\<^verbatim>\<open>merkle/crdt\<close>): both data types keep \<open>replicated\<close>; histories of a
    field, processed nodes, deletions and deltas in a transaction.
  \<^item> \<open>Descriptions\<close>, \<open>Catalog\<close>, \<open>CatalogSpec\<close>, \<open>CatalogRun\<close> (\<^verbatim>\<open>client/descriptions.go\<close>,
    \<^verbatim>\<open>db/sequence.go\<close>, \<^verbatim>\<open>collection.go\<close>, \<^verbatim>\<open>p2p_collection.go\<close>, \<^verbatim>\<open>replicator.go\<close>): creation, lookup and
    update of collections, numbers, subscriptions and replicators.
  \<^item> \<open>ClientDoc\<close>, \<open>Collections\<close>, \<open>CollectionSpec\<close>, \<open>CollectionRun\<close> (\<^verbatim>\<open>client/document.go\<close>, \<^verbatim>\<open>value.go\<close>,
    \<^verbatim>\<open>field.go\<close>, \<^verbatim>\<open>dockey.go\<close>, \<^verbatim>\<open>db/collection.go\<close>, \<^verbatim>\<open>collection_delete.go\<close>): documents of a client and
    their saving and deleting, from the interface of a collection down to the keys of the datastore.
  \<^item> \<open>Values\<close>, \<open>Connor\<close>, \<open>ConnorSpec\<close>, \<open>FilterTypes\<close>, \<open>FilterLeaves\<close> (\<^verbatim>\<open>connor\<close>): dynamic values,
    floating-point numbers, and every operator of a filter against a reference semantics.
  \<^item> \<open>DocMapping\<close>, \<open>DocSpec\<close> (\<^verbatim>\<open>core/doc.go\<close>, \<^verbatim>\<open>planner/mapper/targetable.go\<close>): documents of a plan, their
    mappings and their rendering.
  \<^item> \<open>PlanNodes\<close>, \<open>StableSort\<close>, \<open>PlanSpec\<close>, \<open>PlanRun\<close> (\<^verbatim>\<open>planner\<close>, \<^verbatim>\<open>db/container\<close>, \<^verbatim>\<open>db/base\<close>): nodes
    that limit, order, select and cache. The contract \<open>plan_source\<close> says which documents a node
    yields before it ends; each node over such a source is one, by a \<open>sublocale\<close>. What an order asks
    for is stated by keys of the values and the library's stable sort.

  \<^bold>\<open>Loops.\<close> Loops over data are recursive functions on it, with a measure where it is not structural.
  The loops of the plan nodes, which ask a source until it ends, are partial functions into
  \<open>option\<close>; that they end is part of what is proved. The loop that clears the registry of
  transactions takes the number of its scans; two are shown to be enough.
\<close>

text \<open>
  \<^bold>\<open>Not modelled.\<close>

  \<^item> The Badger datastore (\<^verbatim>\<open>datastore/badger\<close>, \<^verbatim>\<open>datastore/iterable\<close>) and the locks around it: they adapt
    a library. The fetchers (\<^verbatim>\<open>db/fetcher\<close>) and the reading of documents (\<^verbatim>\<open>db/collection_get.go\<close>), which
    depend on its iterators; to a plan they are a source that keeps \<open>plan_source\<close>.
  \<^item> Locks, tickers and goroutines: each method is one atomic step.
  \<^item> \<^verbatim>\<open>db/db.go\<close>, \<^verbatim>\<open>txn_db.go\<close>, \<^verbatim>\<open>schema.go\<close>, \<^verbatim>\<open>request.go\<close> and the transactions that a collection makes
    for itself: wiring around the modelled operations, and JSON patches by a library.
  \<^item> Updates and deletions by filters (\<^verbatim>\<open>db/collection_update.go\<close>, \<^verbatim>\<open>deleteWithFilter\<close>): they run plans on
    fetchers. The patch of the related document of a secondary relation is an argument of \<^const>\<open>save\<close>.
  \<^item> Joins, groups, aggregates, mutations, commits and explanations of the planner, and the mapper but
    for filter keys and the running of filters: they depend on the fetchers and on parsed requests.
  \<^item> GraphQL (\<^verbatim>\<open>request/graphql\<close>): syntax trees and types of a library.
  \<^item> The network (\<^verbatim>\<open>net\<close>, \<^verbatim>\<open>node\<close>): libp2p and generated gRPC code. A received node enters the model
    with \<^const>\<open>ProcessNode\<close>.
  \<^item> HTTP, the command line, configuration, logging, events, metrics and version information: input and
    output only.
\<close>

end
